(* ===== verification/Prelude.thy ===== *)
theory Prelude
  imports
    Main
    "HOL-Library.Word"
    "HOL-Library.List_Lexorder"
    "HOL-Library.Char_ord"
begin

text \<open>
  What every component of the development shares: the names of the C++ integer types, the
  outcome of a C++ call (a value, an exception in flight, a call of \<^verbatim>\<open>std::terminate\<close>), and a
  few facts on lists and words. Strings are byte strings (\<^typ>\<open>string\<close>), ordered as
  \<^verbatim>\<open>std::string\<close> orders them: lexicographically, bytes compared as unsigned numbers, which is
  what \<^verbatim>\<open>List_Lexorder\<close> and \<^verbatim>\<open>Char_ord\<close> define.
\<close>

section \<open>Integer types and collections of rewrite rules\<close>

type_synonym u16 = "16 word"
type_synonym u32 = "32 word"
type_synonym u64 = "64 word"

named_theorems cxx_simps \<open>sequencing of calls that may throw or terminate\<close>
named_theorems reg_simps \<open>the thread registry's operations, as seen through its maps\<close>
named_theorems metric_simps \<open>gauge and counter readings after a metric call\<close>
named_theorems json_simps \<open>unfolding of the JSON value interface\<close>

section \<open>The outcome of a C++ call\<close>

text \<open>
  The exceptions the program raises or lets through: \<^verbatim>\<open>std::runtime_error\<close>, the two exception
  classes of the bundled JSON library, \<^verbatim>\<open>std::bad_alloc\<close>, \<^verbatim>\<open>std::ios_base::failure\<close>,
  \<^verbatim>\<open>std::system_error\<close>, and the program's own
  \<^verbatim>\<open>GearmanClientException\<close> with its \<^verbatim>\<open>retriable\<close> flag.
\<close>

datatype exn =
    Runtime_error string
  | Json_RuntimeError string
  | Json_LogicError string
  | Bad_alloc
  | Ios_failure
  | System_error
  | GearmanClientException string bool

datatype 'a cxx = Ret 'a | Throw exn | Terminate

primrec cxx_bind :: "'a cxx \<Rightarrow> ('a \<Rightarrow> 'b cxx) \<Rightarrow> 'b cxx" where
  "cxx_bind (Ret x) f = f x"
| "cxx_bind (Throw e) f = Throw e"
| "cxx_bind Terminate f = Terminate"

text \<open>A function declared \<^verbatim>\<open>noexcept\<close> turns an escaping exception into \<^verbatim>\<open>std::terminate\<close>.\<close>

primrec noexcept :: "'a cxx \<Rightarrow> 'a cxx" where
  "noexcept (Ret x) = Ret x"
| "noexcept (Throw e) = Terminate"
| "noexcept Terminate = Terminate"

definition returns :: "'a cxx \<Rightarrow> bool" where
  "returns m \<longleftrightarrow> (case m of Ret _ \<Rightarrow> True | _ \<Rightarrow> False)"

lemma returns_simps [simp]:
  "returns (Ret x)" "\<not> returns (Throw e)" "\<not> returns Terminate"
  by (simp_all add: returns_def)

lemma returns_iff: "returns m \<longleftrightarrow> (\<exists>x. m = Ret x)"
  by (cases m) simp_all

lemma cxx_bind_eq_Ret [cxx_simps]:
  "cxx_bind m f = Ret y \<longleftrightarrow> (\<exists>x. m = Ret x \<and> f x = Ret y)"
  by (cases m) auto

lemma cxx_bind_eq_Throw [cxx_simps]:
  "cxx_bind m f = Throw e \<longleftrightarrow> m = Throw e \<or> (\<exists>x. m = Ret x \<and> f x = Throw e)"
  by (cases m) auto

lemma cxx_bind_assoc: "cxx_bind (cxx_bind m f) g = cxx_bind m (\<lambda>x. cxx_bind (f x) g)"
  by (cases m) auto

lemma noexcept_eq_Ret [cxx_simps]: "noexcept m = Ret x \<longleftrightarrow> m = Ret x"
  by (cases m) auto

lemma noexcept_never_throws [simp]: "noexcept m \<noteq> Throw e"
  by (cases m) auto

lemma noexcept_eq_Terminate [cxx_simps]: "noexcept m = Terminate \<longleftrightarrow> \<not> returns m"
  by (cases m) auto

section \<open>Lists and words\<close>

lemma strictly_sorted_set_unique:
  fixes xs ys :: "'a::linorder list"
  assumes "sorted_wrt (<) xs" and "sorted_wrt (<) ys" and "set xs = set ys"
  shows "xs = ys"
  using assms by (meson strict_sorted_equal)

lemma strictly_sorted_distinct:
  fixes xs :: "'a::linorder list"
  shows "sorted_wrt (<) xs \<Longrightarrow> distinct xs"
  by (simp add: strict_sorted_iff)

lemma unat_of_nat_u32: "n < 2 ^ 32 \<Longrightarrow> unat (of_nat n :: u32) = n"
  by (simp add: unat_of_nat take_bit_nat_eq_self_iff)

lemma unat_minus_one_u32: "unat (- 1 :: u32) = 2 ^ 32 - 1"
  by (simp add: unat_eq_nat_uint uint_word_ariths)

lemma u32_less_unat: "(a :: u32) < b \<longleftrightarrow> unat a < unat b"
  by (simp add: word_less_nat_alt)

lemma u32_sub_unat: "(b :: u32) \<le> a \<Longrightarrow> unat (a - b) = unat a - unat b"
  by (rule unat_sub)

section \<open>Strings handed to C\<close>

text \<open>What a C function sees of \<^verbatim>\<open>s.c_str()\<close>: the bytes before the first NUL.\<close>

definition c_str :: "string \<Rightarrow> string" where
  "c_str s = takeWhile (\<lambda>c. c \<noteq> CHR 0x00) s"

section \<open>std::to_string\<close>

definition digit_char :: "nat \<Rightarrow> char" where
  "digit_char d = char_of (48 + d)"

fun to_string_nat :: "nat \<Rightarrow> string" where
  "to_string_nat n = (if n < 10 then [digit_char n] else to_string_nat (n div 10) @ [digit_char (n mod 10)])"

definition to_string_int :: "int \<Rightarrow> string" where
  "to_string_int i = (if i < 0 then CHR ''-'' # to_string_nat (nat (- i)) else to_string_nat (nat i))"

declare to_string_nat.simps [simp del]

end
