(* ===== verification/Containers.thy ===== *)
theory Containers
  imports Prelude
begin

text \<open>
  The parts of the C++ standard library's ordered containers that the program uses.
  A \<^verbatim>\<open>std::set\<close> is the list of its elements in iteration order, a \<^verbatim>\<open>std::map\<close> the list of its
  entries in iteration order: both strictly increasing, so that the list is determined by the
  set or the map it stands for, and a loop over the container is a recursion over the list.
  The interface the components rely on is the locale \<open>keyed_store\<close> below; it is interpreted
  on the lists.
\<close>

section \<open>std::set\<close>

definition set_inv :: "'a::linorder list \<Rightarrow> bool" where
  "set_inv xs \<longleftrightarrow> sorted_wrt (<) xs"

fun set_insert :: "'a::linorder \<Rightarrow> 'a list \<Rightarrow> 'a list" where
  "set_insert x [] = [x]"
| "set_insert x (y # ys) =
     (if y < x then y # set_insert x ys else if y = x then y # ys else x # y # ys)"

fun set_erase :: "'a::linorder \<Rightarrow> 'a list \<Rightarrow> 'a list" where
  "set_erase x [] = []"
| "set_erase x (y # ys) = (if y = x then ys else y # set_erase x ys)"

definition set_count :: "'a::linorder \<Rightarrow> 'a list \<Rightarrow> nat" where
  "set_count x xs = (if x \<in> set xs then 1 else 0)"

text \<open>
  \<^verbatim>\<open>std::set_difference\<close> and \<^verbatim>\<open>std::set_symmetric_difference\<close>: one simultaneous pass over two
  sorted ranges.
\<close>

fun set_difference :: "'a::linorder list \<Rightarrow> 'a list \<Rightarrow> 'a list" where
  "set_difference [] ys = []"
| "set_difference (x # xs) [] = x # xs"
| "set_difference (x # xs) (y # ys) =
     (if x < y then x # set_difference xs (y # ys)
      else if y < x then set_difference (x # xs) ys
      else set_difference xs ys)"

fun set_symmetric_difference :: "'a::linorder list \<Rightarrow> 'a list \<Rightarrow> 'a list" where
  "set_symmetric_difference [] ys = ys"
| "set_symmetric_difference (x # xs) [] = x # xs"
| "set_symmetric_difference (x # xs) (y # ys) =
     (if x < y then x # set_symmetric_difference xs (y # ys)
      else if y < x then y # set_symmetric_difference (x # xs) ys
      else set_symmetric_difference xs ys)"

lemma set_inv_Nil [simp]: "set_inv []"
  by (simp add: set_inv_def)

lemma set_inv_Cons: "set_inv (x # xs) \<longleftrightarrow> (\<forall>y\<in>set xs. x < y) \<and> set_inv xs"
  by (simp add: set_inv_def)

lemma set_inv_distinct: "set_inv xs \<Longrightarrow> distinct xs"
  by (simp add: set_inv_def strictly_sorted_distinct)

lemma set_inv_unique: "set_inv xs \<Longrightarrow> set_inv ys \<Longrightarrow> set xs = set ys \<longleftrightarrow> xs = ys"
  unfolding set_inv_def by (auto intro: strictly_sorted_set_unique)

lemma set_set_insert [simp]: "set (set_insert x xs) = insert x (set xs)"
  by (induction xs) auto

lemma set_inv_insert [intro, simp]: "set_inv xs \<Longrightarrow> set_inv (set_insert x xs)"
  by (induction xs) (auto simp: set_inv_Cons)

lemma set_set_erase [simp]: "set_inv xs \<Longrightarrow> set (set_erase x xs) = set xs - {x}"
  by (induction xs) (auto simp: set_inv_Cons)

lemma set_set_erase_subset: "set (set_erase x xs) \<subseteq> set xs"
  by (induction xs) auto

lemma set_inv_erase [intro, simp]: "set_inv xs \<Longrightarrow> set_inv (set_erase x xs)"
  using set_set_erase_subset by (induction xs) (fastforce simp: set_inv_Cons)+

lemma set_count_eq_0 [simp]: "set_count x xs = 0 \<longleftrightarrow> x \<notin> set xs"
  by (simp add: set_count_def)

lemma set_count_eq_1 [simp]: "set_count x xs = Suc 0 \<longleftrightarrow> x \<in> set xs"
  by (simp add: set_count_def)

lemma length_set_insert: "set_inv xs \<Longrightarrow> length (set_insert x xs) = (if x \<in> set xs then length xs else Suc (length xs))"
  by (induction xs) (auto simp: set_inv_Cons)

lemma length_set_erase: "length (set_erase x xs) = (if x \<in> set xs then length xs - 1 else length xs)"
  by (induction xs) (auto simp: Suc_diff_le elim: length_pos_if_in_set [elim_format])

lemma set_difference_spec:
  "set_inv xs \<Longrightarrow> set_inv ys \<Longrightarrow>
     set (set_difference xs ys) = set xs - set ys \<and> set_inv (set_difference xs ys)"
proof (induction xs ys rule: set_difference.induct)
  case (3 x xs y ys)
  consider "x < y" | "y < x" | "x = y" by fastforce
  then show ?case
  proof cases
    case 1
    with "3.IH"(1) "3.prems" show ?thesis by (auto simp: set_inv_Cons)
  next
    case 2
    with "3.IH"(2) "3.prems" show ?thesis by (auto simp: set_inv_Cons)
  next
    case 3
    with "3.IH"(3) "3.prems" show ?thesis by (auto simp: set_inv_Cons)
  qed
qed auto

lemma set_symmetric_difference_spec:
  "set_inv xs \<Longrightarrow> set_inv ys \<Longrightarrow>
     set (set_symmetric_difference xs ys) = (set xs - set ys) \<union> (set ys - set xs)"
proof (induction xs ys rule: set_symmetric_difference.induct)
  case (3 x xs y ys)
  consider "x < y" | "y < x" | "x = y" by fastforce
  then show ?case
  proof cases
    case 1
    with "3.IH"(1) "3.prems" show ?thesis by (auto simp: set_inv_Cons)
  next
    case 2
    with "3.IH"(2) "3.prems" show ?thesis by (auto simp: set_inv_Cons)
  next
    case 3
    with "3.IH"(3) "3.prems" show ?thesis by (auto simp: set_inv_Cons)
  qed
qed auto

lemma set_symmetric_difference_empty:
  "set_inv xs \<Longrightarrow> set_inv ys \<Longrightarrow> set_symmetric_difference xs ys = [] \<longleftrightarrow> xs = ys"
proof -
  assume inv: "set_inv xs" "set_inv ys"
  have "set_symmetric_difference xs ys = [] \<longleftrightarrow> set (set_symmetric_difference xs ys) = {}"
    by simp
  also have "\<dots> \<longleftrightarrow> set xs = set ys"
    using set_symmetric_difference_spec [OF inv] by auto
  also have "\<dots> \<longleftrightarrow> xs = ys"
    using inv by (rule set_inv_unique)
  finally show ?thesis .
qed

lemma set_insert_last: "\<forall>y\<in>set xs. y < x \<Longrightarrow> set_insert x xs = xs @ [x]"
  by (induction xs) auto

section \<open>std::map\<close>

definition map_keys :: "('k \<times> 'v) list \<Rightarrow> 'k list" where
  "map_keys m = map fst m"

definition map_inv :: "('k::linorder \<times> 'v) list \<Rightarrow> bool" where
  "map_inv m \<longleftrightarrow> set_inv (map_keys m)"

fun map_find :: "'k \<Rightarrow> ('k \<times> 'v) list \<Rightarrow> 'v option" where
  "map_find k [] = None"
| "map_find k (e # m) = (if fst e = k then Some (snd e) else map_find k m)"

text \<open>\<^verbatim>\<open>m[k] = v\<close>: overwrite the entry of \<open>k\<close>, or insert one at its place in the order.\<close>

fun map_put :: "'k::linorder \<Rightarrow> 'v \<Rightarrow> ('k \<times> 'v) list \<Rightarrow> ('k \<times> 'v) list" where
  "map_put k v [] = [(k, v)]"
| "map_put k v (e # m) =
     (if fst e < k then e # map_put k v m
      else if fst e = k then (k, v) # m else (k, v) # e # m)"

fun map_erase :: "'k \<Rightarrow> ('k \<times> 'v) list \<Rightarrow> ('k \<times> 'v) list" where
  "map_erase k [] = []"
| "map_erase k (e # m) = (if fst e = k then m else e # map_erase k m)"

lemma map_keys_simps [simp]:
  "map_keys [] = []" "map_keys (e # m) = fst e # map_keys m"
  by (simp_all add: map_keys_def)

lemma length_map_keys [simp]: "length (map_keys m) = length m"
  by (simp add: map_keys_def)

lemma map_inv_Nil [simp]: "map_inv []"
  by (simp add: map_inv_def)

lemma map_inv_Cons: "map_inv (e # m) \<longleftrightarrow> (\<forall>k\<in>set (map_keys m). fst e < k) \<and> map_inv m"
  by (simp add: map_inv_def set_inv_Cons)

lemma map_find_None: "map_find k m = None \<longleftrightarrow> k \<notin> set (map_keys m)"
  by (induction m) auto

lemma map_keys_find: "set (map_keys m) = {k. map_find k m \<noteq> None}"
  by (auto simp: map_find_None)

lemma set_map_keys_put [simp]: "set (map_keys (map_put k v m)) = insert k (set (map_keys m))"
  by (induction m) auto

lemma set_map_keys_erase: "set (map_keys (map_erase k m)) \<subseteq> set (map_keys m)"
  by (induction m) auto

lemma map_inv_put [simp, intro]: "map_inv m \<Longrightarrow> map_inv (map_put k v m)"
  by (induction m) (auto simp: map_inv_Cons)

lemma map_inv_erase [simp, intro]: "map_inv m \<Longrightarrow> map_inv (map_erase k m)"
  using set_map_keys_erase by (induction m) (fastforce simp: map_inv_Cons)+

lemma map_find_put:
  "map_inv m \<Longrightarrow> map_find k' (map_put k v m) = (if k' = k then Some v else map_find k' m)"
  by (induction m) (auto simp: map_inv_Cons map_find_None)

lemma map_find_erase:
  "map_inv m \<Longrightarrow> map_find k' (map_erase k m) = (if k' = k then None else map_find k' m)"
  by (induction m) (auto simp: map_inv_Cons map_find_None)

lemma map_entries_find: "map_inv m \<Longrightarrow> (k, v) \<in> set m \<longleftrightarrow> map_find k m = Some v"
  by (induction m) (force simp: map_inv_Cons map_keys_def)+

lemma map_put_last: "\<forall>k'\<in>set (map_keys m). k' < k \<Longrightarrow> map_put k v m = m @ [(k, v)]"
  by (induction m) auto

lemma map_inv_distinct: "map_inv m \<Longrightarrow> distinct (map_keys m)"
  by (simp add: map_inv_def set_inv_distinct)

section \<open>The interface of a keyed store\<close>

locale keyed_store =
  fixes put :: "'k \<Rightarrow> 'v \<Rightarrow> 'm \<Rightarrow> 'm"
    and erase :: "'k \<Rightarrow> 'm \<Rightarrow> 'm"
    and find :: "'k \<Rightarrow> 'm \<Rightarrow> 'v option"
    and keys :: "'m \<Rightarrow> 'k list"
    and ok :: "'m \<Rightarrow> bool"
  assumes ok_put: "ok m \<Longrightarrow> ok (put k v m)"
    and ok_erase: "ok m \<Longrightarrow> ok (erase k m)"
    and find_put: "ok m \<Longrightarrow> find k' (put k v m) = (if k' = k then Some v else find k' m)"
    and find_erase: "ok m \<Longrightarrow> find k' (erase k m) = (if k' = k then None else find k' m)"
    and keys_distinct: "ok m \<Longrightarrow> distinct (keys m)"
    and keys_find: "ok m \<Longrightarrow> set (keys m) = {k. find k m \<noteq> None}"
begin

text \<open>What a client of a map needs: an update is seen at its key and nowhere else.\<close>

lemma find_put_same: "ok m \<Longrightarrow> find k (put k v m) = Some v"
  by (simp add: find_put)

lemma find_put_other: "ok m \<Longrightarrow> k' \<noteq> k \<Longrightarrow> find k' (put k v m) = find k' m"
  by (simp add: find_put)

lemma find_fun_put: "ok m \<Longrightarrow> (\<lambda>k'. find k' (put k v m)) = (\<lambda>k'. find k' m)(k \<mapsto> v)"
  by (auto simp: find_put)

lemma find_fun_erase: "ok m \<Longrightarrow> (\<lambda>k'. find k' (erase k m)) = (\<lambda>k'. find k' m)(k := None)"
  by (auto simp: find_erase)

lemma keys_put: "ok m \<Longrightarrow> set (keys (put k v m)) = insert k (set (keys m))"
  by (auto simp: keys_find ok_put find_put)

lemma keys_erase: "ok m \<Longrightarrow> set (keys (erase k m)) = set (keys m) - {k}"
  by (auto simp: keys_find ok_erase find_erase)

lemma size_keys: "ok m \<Longrightarrow> length (keys m) = card {k. find k m \<noteq> None}"
  by (metis distinct_card keys_distinct keys_find)

lemma size_put:
  "ok m \<Longrightarrow> length (keys (put k v m)) = (if find k m = None then Suc (length (keys m)) else length (keys m))"
proof -
  assume m: "ok m"
  have "length (keys (put k v m)) = card (insert k (set (keys m)))"
    using m by (metis distinct_card keys_distinct keys_put ok_put)
  also have "\<dots> = (if k \<in> set (keys m) then card (set (keys m)) else Suc (card (set (keys m))))"
    by (simp add: card_insert_if)
  finally show ?thesis
    using m by (simp add: keys_find distinct_card [OF keys_distinct [OF m], symmetric])
qed

end

interpretation std_map: keyed_store map_put map_erase map_find map_keys map_inv
  by unfold_locales
    (simp_all add: map_find_put map_find_erase map_inv_distinct map_keys_find)

lemmas map_simps = std_map.find_put std_map.find_erase map_inv_put map_inv_erase

end
