(* ===== verification/Json_Value.thy ===== *)
theory Json_Value
  imports Complex_Main Containers
begin

text \<open>
  \<^verbatim>\<open>Json::Value\<close> of the bundled jsoncpp (\<^verbatim>\<open>src/dist/jsoncpp.cpp\<close>, \<^verbatim>\<open>src/dist/json/json.h\<close>): the tagged
  union, its type tests, conversions and container operations. A precondition the library
  checks with \<^verbatim>\<open>JSON_ASSERT_MESSAGE\<close> or \<^verbatim>\<open>JSON_FAIL_MESSAGE\<close> throws \<^verbatim>\<open>Json::LogicError\<close>. Comments
  and byte offsets attached to a value are not represented; no operation here reads them.
  A mutable accessor that returns a reference is modelled by the pair of the container after the
  access and the element referred to, and a store through the reference by a second operation.
\<close>

section \<open>Data\<close>

text \<open>
  A double is an exact dyadic rational, an infinity (\<open>True\<close>: negative) or not a number.
  Negative zero is identified with zero; no operation of this theory tells them apart.
\<close>

datatype double = Finite rat | Infinity bool | NaN

text \<open>The two conversions between doubles and text are the C library's, and are parameters.\<close>

record libc =
  scan_lf :: "string \<Rightarrow> double option" \<comment> \<open>\<^verbatim>\<open>sscanf(s, "%lf", &value)\<close>: \<open>None\<close> unless it returns 1\<close>
  print_g17 :: "rat \<Rightarrow> string" \<comment> \<open>\<^verbatim>\<open>snprintf\<close> with \<^verbatim>\<open>%.17g\<close> on a finite value\<close>

datatype ValueType =
    nullValue | intValue | uintValue | realValue | stringValue | booleanValue | arrayValue | objectValue

text \<open>
  \<^verbatim>\<open>value_\<close> and \<^verbatim>\<open>type_\<close> together. \<^verbatim>\<open>int_\<close> is a 64-bit word read as two's complement, \<^verbatim>\<open>uint_\<close> one
  read as unsigned. Arrays and objects are both a \<^verbatim>\<open>std::map\<close>, keyed by position or by name.
\<close>

datatype Value =
    NullV
  | IntV u64
  | UIntV u64
  | RealV double
  | StringV string
  | BoolV bool
  | ArrayV "(nat \<times> Value) list"
  | ObjectV "(string \<times> Value) list"

type_synonym i32 = "32 word" \<comment> \<open>\<^verbatim>\<open>Int\<close>, read with \<^const>\<open>sint\<close>\<close>

definition type_of :: "Value \<Rightarrow> ValueType" where
  "type_of v = (case v of NullV \<Rightarrow> nullValue | IntV _ \<Rightarrow> intValue | UIntV _ \<Rightarrow> uintValue
     | RealV _ \<Rightarrow> realValue | StringV _ \<Rightarrow> stringValue | BoolV _ \<Rightarrow> booleanValue
     | ArrayV _ \<Rightarrow> arrayValue | ObjectV _ \<Rightarrow> objectValue)"

definition minInt :: int where "minInt = - (2 ^ 31)"
definition maxInt :: int where "maxInt = 2 ^ 31 - 1"
definition maxUInt :: int where "maxUInt = 2 ^ 32 - 1"

definition JSON_ASSERT_MESSAGE :: "bool \<Rightarrow> string \<Rightarrow> unit cxx" where
  "JSON_ASSERT_MESSAGE cond msg = (if cond then Ret () else Throw (Json_LogicError msg))"

definition JSON_FAIL_MESSAGE :: "string \<Rightarrow> 'a cxx" where
  "JSON_FAIL_MESSAGE msg = Throw (Json_LogicError msg)"

text \<open>The value constructor for a type tag.\<close>

definition Value_of_type :: "ValueType \<Rightarrow> Value" where
  "Value_of_type t = (case t of nullValue \<Rightarrow> NullV | intValue \<Rightarrow> IntV 0 | uintValue \<Rightarrow> UIntV 0
     | realValue \<Rightarrow> RealV (Finite 0) | stringValue \<Rightarrow> StringV '''' | arrayValue \<Rightarrow> ArrayV []
     | objectValue \<Rightarrow> ObjectV [] | booleanValue \<Rightarrow> BoolV False)"

text \<open>
  A string value keeps its length as an \<^verbatim>\<open>unsigned\<close> prefix: \<^verbatim>\<open>duplicateAndPrefixStringValue\<close> refuses
  a length that would not leave room for the prefix and the terminator.
\<close>

definition Value_of_string :: "string \<Rightarrow> Value cxx" where
  "Value_of_string s =
     (let len = int (length s) mod 2 ^ 32 in
      cxx_bind (JSON_ASSERT_MESSAGE (len \<le> maxInt - 4 - 1)
          ''in Json::Value::duplicateAndPrefixStringValue(): length too big for prefixing'')
        (\<lambda>_. Ret (StringV (take (nat len) s))))"

text \<open>A member name is a \<^verbatim>\<open>CZString\<close>, whose length field has 30 bits.\<close>

definition CZString :: "string \<Rightarrow> string" where
  "CZString s = take (nat (int (length s) mod 2 ^ 30)) s"

section \<open>Decimal output of integers\<close>

text \<open>
  \<^verbatim>\<open>uintToString\<close> writes the digits backwards, from the end of a buffer of
  \<^verbatim>\<open>uintToStringBufferSize\<close> bytes; \<open>current\<close> is what has been written so far.
\<close>

function uintToString :: "u64 \<Rightarrow> string \<Rightarrow> string" where
  "uintToString v current =
     (let current' = char_of (unat (v mod 10) + 48) # current; v' = v div 10 in
      if v' \<noteq> 0 then uintToString v' current' else current')"
  by pat_completeness auto
termination
proof (relation "measure (\<lambda>(v, _). unat v)")
  fix v :: u64 and current x xa
  assume "xa = v div 10" "xa \<noteq> 0"
  then have "v \<noteq> 0" by auto
  then have "0 < unat v" by (simp add: unat_gt_0)
  then have "unat (v div 10) < unat v" by (simp add: unat_div)
  then show "((xa, x), (v, current)) \<in> measure (\<lambda>(v, _). unat v)"
    using \<open>xa = v div 10\<close> by simp
qed simp

declare uintToString.simps [simp del]

definition uintToStringBufferSize :: nat where
  "uintToStringBufferSize = 3 * 8 + 1"

definition minLargestInt :: u64 where "minLargestInt = - (2 ^ 63)"
definition maxLargestInt :: u64 where "maxLargestInt = 2 ^ 63 - 1"
definition maxLargestUInt :: u64 where "maxLargestUInt = - 1"

definition valueToString_int :: "u64 \<Rightarrow> string" where
  "valueToString_int v =
     (if v = minLargestInt then CHR ''-'' # uintToString (maxLargestInt + 1) []
      else if sint v < 0 then CHR ''-'' # uintToString (- v) []
      else uintToString v [])"

definition valueToString_uint :: "u64 \<Rightarrow> string" where
  "valueToString_uint v = uintToString v []"

definition fixNumericLocale :: "string \<Rightarrow> string" where
  "fixNumericLocale s = map (\<lambda>c. if c = CHR '','' then CHR ''.'' else c) s"

definition valueToString_double :: "libc \<Rightarrow> double \<Rightarrow> bool \<Rightarrow> string" where
  "valueToString_double L d useSpecialFloats =
     fixNumericLocale (case d of
       Finite q \<Rightarrow> print_g17 L q
     | NaN \<Rightarrow> if useSpecialFloats then ''NaN'' else ''null''
     | Infinity True \<Rightarrow> if useSpecialFloats then ''-Infinity'' else ''-1e+9999''
     | Infinity False \<Rightarrow> if useSpecialFloats then ''Infinity'' else ''1e+9999'')"

definition valueToString_bool :: "bool \<Rightarrow> string" where
  "valueToString_bool b = (if b then ''true'' else ''false'')"

section \<open>Type tests\<close>

definition double_ge :: "double \<Rightarrow> rat \<Rightarrow> bool" where
  "double_ge d q = (case d of Finite r \<Rightarrow> q \<le> r | Infinity neg \<Rightarrow> \<not> neg | NaN \<Rightarrow> False)"

definition double_le :: "double \<Rightarrow> rat \<Rightarrow> bool" where
  "double_le d q = (case d of Finite r \<Rightarrow> r \<le> q | Infinity neg \<Rightarrow> neg | NaN \<Rightarrow> False)"

definition InRange :: "double \<Rightarrow> int \<Rightarrow> int \<Rightarrow> bool" where
  "InRange d mn mx \<longleftrightarrow> double_ge d (of_int mn) \<and> double_le d (of_int mx)"

definition IsIntegral :: "double \<Rightarrow> bool" where
  "IsIntegral d = (case d of Finite r \<Rightarrow> of_int \<lfloor>r\<rfloor> = r | Infinity _ \<Rightarrow> True | NaN \<Rightarrow> False)"

definition isNull :: "Value \<Rightarrow> bool" where "isNull v \<longleftrightarrow> type_of v = nullValue"
definition isBool :: "Value \<Rightarrow> bool" where "isBool v \<longleftrightarrow> type_of v = booleanValue"
definition isString :: "Value \<Rightarrow> bool" where "isString v \<longleftrightarrow> type_of v = stringValue"
definition isArray :: "Value \<Rightarrow> bool" where "isArray v \<longleftrightarrow> type_of v = arrayValue"
definition isObject :: "Value \<Rightarrow> bool" where "isObject v \<longleftrightarrow> type_of v = objectValue"

definition isInt :: "Value \<Rightarrow> bool" where
  "isInt v = (case v of
       IntV i \<Rightarrow> sint i \<ge> minInt \<and> sint i \<le> maxInt
     | UIntV u \<Rightarrow> uint u \<le> maxInt
     | RealV d \<Rightarrow> double_ge d (of_int minInt) \<and> double_le d (of_int maxInt) \<and> IsIntegral d
     | _ \<Rightarrow> False)"

definition isUInt :: "Value \<Rightarrow> bool" where
  "isUInt v = (case v of
       IntV i \<Rightarrow> sint i \<ge> 0 \<and> uint i \<le> maxUInt
     | UIntV u \<Rightarrow> uint u \<le> maxUInt
     | RealV d \<Rightarrow> double_ge d 0 \<and> double_le d (of_int maxUInt) \<and> IsIntegral d
     | _ \<Rightarrow> False)"

section \<open>Conversions\<close>

definition asString :: "libc \<Rightarrow> Value \<Rightarrow> string cxx" where
  "asString L v = (case v of
       NullV \<Rightarrow> Ret ''''
     | StringV s \<Rightarrow> Ret s
     | BoolV b \<Rightarrow> Ret (if b then ''true'' else ''false'')
     | IntV i \<Rightarrow> Ret (valueToString_int i)
     | UIntV u \<Rightarrow> Ret (valueToString_uint u)
     | RealV d \<Rightarrow> Ret (valueToString_double L d False)
     | _ \<Rightarrow> JSON_FAIL_MESSAGE ''Type is not convertible to string'')"

text \<open>Conversion of a double in range to an integer truncates towards zero.\<close>

definition trunc_double :: "double \<Rightarrow> int" where
  "trunc_double d = (case d of Finite r \<Rightarrow> if 0 \<le> r then \<lfloor>r\<rfloor> else \<lceil>r\<rceil> | _ \<Rightarrow> 0)"

definition asInt :: "Value \<Rightarrow> i32 cxx" where
  "asInt v = (case v of
       IntV i \<Rightarrow> cxx_bind (JSON_ASSERT_MESSAGE (isInt v) ''LargestInt out of Int range'') (\<lambda>_. Ret (ucast i))
     | UIntV u \<Rightarrow> cxx_bind (JSON_ASSERT_MESSAGE (isInt v) ''LargestUInt out of Int range'') (\<lambda>_. Ret (ucast u))
     | RealV d \<Rightarrow> cxx_bind (JSON_ASSERT_MESSAGE (InRange d minInt maxInt) ''double out of Int range'')
                    (\<lambda>_. Ret (of_int (trunc_double d)))
     | NullV \<Rightarrow> Ret 0
     | BoolV b \<Rightarrow> Ret (if b then 1 else 0)
     | _ \<Rightarrow> JSON_FAIL_MESSAGE ''Value is not convertible to Int.'')"

definition asUInt :: "Value \<Rightarrow> u32 cxx" where
  "asUInt v = (case v of
       IntV i \<Rightarrow> cxx_bind (JSON_ASSERT_MESSAGE (isUInt v) ''LargestInt out of UInt range'') (\<lambda>_. Ret (ucast i))
     | UIntV u \<Rightarrow> cxx_bind (JSON_ASSERT_MESSAGE (isUInt v) ''LargestUInt out of UInt range'') (\<lambda>_. Ret (ucast u))
     | RealV d \<Rightarrow> cxx_bind (JSON_ASSERT_MESSAGE (InRange d 0 maxUInt) ''double out of UInt range'')
                    (\<lambda>_. Ret (of_int (trunc_double d)))
     | NullV \<Rightarrow> Ret 0
     | BoolV b \<Rightarrow> Ret (if b then 1 else 0)
     | _ \<Rightarrow> JSON_FAIL_MESSAGE ''Value is not convertible to UInt.'')"

definition asBool :: "Value \<Rightarrow> bool cxx" where
  "asBool v = (case v of
       BoolV b \<Rightarrow> Ret b
     | NullV \<Rightarrow> Ret False
     | IntV i \<Rightarrow> Ret (i \<noteq> 0)
     | UIntV u \<Rightarrow> Ret (u \<noteq> 0)
     | RealV d \<Rightarrow> Ret (d \<noteq> Finite 0)
     | _ \<Rightarrow> JSON_FAIL_MESSAGE ''Value is not convertible to bool.'')"

section \<open>Containers\<close>

text \<open>
  \<^verbatim>\<open>size()\<close> is an \<^verbatim>\<open>ArrayIndex\<close> of 32 bits: an array whose last index is \<open>2\<^sup>3\<^sup>2 - 1\<close> has size 0.
\<close>

definition json_size :: "Value \<Rightarrow> nat" where
  "json_size v = (case v of
       ArrayV m \<Rightarrow> if m = [] then 0 else unat (of_nat (fst (last m)) + 1 :: u32)
     | ObjectV m \<Rightarrow> unat (of_nat (length m) :: u32)
     | _ \<Rightarrow> 0)"

text \<open>A size kept in an \<^verbatim>\<open>int\<close>, as the bound of a loop from 0: one of \<open>2\<^sup>3\<^sup>1\<close> and more is negative.\<close>

definition int_bound :: "nat \<Rightarrow> nat" where
  "int_bound n = nat (sint (of_nat n :: i32))"

definition json_empty :: "Value \<Rightarrow> bool" where
  "json_empty v = (if isNull v \<or> isArray v \<or> isObject v then json_size v = 0 else False)"

definition json_clear :: "Value \<Rightarrow> Value cxx" where
  "json_clear v =
     cxx_bind (JSON_ASSERT_MESSAGE (isNull v \<or> isArray v \<or> isObject v)
        ''in Json::Value::clear(): requires complex value'') (\<lambda>_.
     Ret (case v of ArrayV _ \<Rightarrow> ArrayV [] | ObjectV _ \<Rightarrow> ObjectV [] | _ \<Rightarrow> v))"

text \<open>\<^verbatim>\<open>operator[](ArrayIndex)\<close>: the array after the access, and the element.\<close>

definition index_ref :: "nat \<Rightarrow> Value \<Rightarrow> (Value \<times> Value) cxx" where
  "index_ref index v =
     cxx_bind (JSON_ASSERT_MESSAGE (isNull v \<or> isArray v)
        ''in Json::Value::operator[](ArrayIndex): requires arrayValue'') (\<lambda>_.
     let m = (case v of ArrayV m \<Rightarrow> m | _ \<Rightarrow> []) in
     case map_find index m of
       Some x \<Rightarrow> Ret (ArrayV m, x)
     | None \<Rightarrow> Ret (ArrayV (map_put index NullV m), NullV))"

definition index_store :: "nat \<Rightarrow> Value \<Rightarrow> Value \<Rightarrow> Value" where
  "index_store index x v = (case v of ArrayV m \<Rightarrow> ArrayV (map_put index x m) | _ \<Rightarrow> v)"

definition index_const :: "nat \<Rightarrow> Value \<Rightarrow> Value cxx" where
  "index_const index v =
     cxx_bind (JSON_ASSERT_MESSAGE (isNull v \<or> isArray v)
        ''in Json::Value::operator[](ArrayIndex)const: requires arrayValue'') (\<lambda>_.
     case v of
       ArrayV m \<Rightarrow> Ret (case map_find index m of Some x \<Rightarrow> x | None \<Rightarrow> NullV)
     | _ \<Rightarrow> Ret NullV)"

definition json_append :: "Value \<Rightarrow> Value \<Rightarrow> Value cxx" where
  "json_append x v = cxx_bind (index_ref (json_size v) v) (\<lambda>(v', _). Ret (index_store (json_size v) x v'))"

definition isValidIndex :: "nat \<Rightarrow> Value \<Rightarrow> bool" where
  "isValidIndex index v \<longleftrightarrow> index < json_size v"

fun erase_range :: "nat \<Rightarrow> nat \<Rightarrow> (nat \<times> Value) list \<Rightarrow> (nat \<times> Value) list" where
  "erase_range index 0 m = m"
| "erase_range index (Suc n) m = erase_range (Suc index) n (map_erase index m)"

definition json_resize :: "nat \<Rightarrow> Value \<Rightarrow> Value cxx" where
  "json_resize newSize v =
     cxx_bind (JSON_ASSERT_MESSAGE (isNull v \<or> isArray v)
        ''in Json::Value::resize(): requires arrayValue'') (\<lambda>_.
     let v = (if isNull v then ArrayV [] else v); oldSize = json_size v in
     if newSize = 0 then json_clear v
     else if newSize > oldSize then cxx_bind (index_ref (newSize - 1) v) (\<lambda>(v', _). Ret v')
     else Ret (case v of ArrayV m \<Rightarrow> ArrayV (erase_range newSize (oldSize - newSize) m) | _ \<Rightarrow> v))"

text \<open>\<^verbatim>\<open>find\<close>: a null value has no members, any other non-object is a violated precondition.\<close>

definition json_find :: "string \<Rightarrow> Value \<Rightarrow> Value option cxx" where
  "json_find key v =
     cxx_bind (JSON_ASSERT_MESSAGE (isNull v \<or> isObject v)
        ''in Json::Value::find(key, end, found): requires objectValue or nullValue'') (\<lambda>_.
     case v of
       ObjectV m \<Rightarrow> Ret (map_find (CZString key) m)
     | _ \<Rightarrow> Ret None)"

definition isMember :: "string \<Rightarrow> Value \<Rightarrow> bool cxx" where
  "isMember key v = cxx_bind (json_find key v) (\<lambda>found. Ret (found \<noteq> None))"

text \<open>\<^verbatim>\<open>operator[](key) const\<close>: the member, or null.\<close>

definition member_const :: "string \<Rightarrow> Value \<Rightarrow> Value cxx" where
  "member_const key v =
     cxx_bind (json_find key v) (\<lambda>found. Ret (case found of None \<Rightarrow> NullV | Some x \<Rightarrow> x))"

definition json_get :: "string \<Rightarrow> Value \<Rightarrow> Value \<Rightarrow> Value cxx" where
  "json_get key defaultValue v =
     cxx_bind (json_find key v) (\<lambda>found. Ret (case found of None \<Rightarrow> defaultValue | Some x \<Rightarrow> x))"

text \<open>\<^verbatim>\<open>resolveReference\<close>: the object after the access, and the member.\<close>

definition resolveReference :: "string \<Rightarrow> Value \<Rightarrow> (Value \<times> Value) cxx" where
  "resolveReference key v =
     cxx_bind (JSON_ASSERT_MESSAGE (isNull v \<or> isObject v)
        ''in Json::Value::resolveReference(key, end): requires objectValue'') (\<lambda>_.
     let m = (case v of ObjectV m \<Rightarrow> m | _ \<Rightarrow> []) in
     case map_find (CZString key) m of
       Some x \<Rightarrow> Ret (ObjectV m, x)
     | None \<Rightarrow> Ret (ObjectV (map_put (CZString key) NullV m), NullV))"

definition member_store :: "string \<Rightarrow> Value \<Rightarrow> Value \<Rightarrow> Value" where
  "member_store key x v = (case v of ObjectV m \<Rightarrow> ObjectV (map_put (CZString key) x m) | _ \<Rightarrow> v)"

text \<open>\<^verbatim>\<open>removeMember(key, cend, removed)\<close>: whether a member was removed, the object, the member.\<close>

definition removeMember :: "string \<Rightarrow> Value \<Rightarrow> (Value \<times> Value) option" where
  "removeMember key v = (case v of
       ObjectV m \<Rightarrow> (case map_find (CZString key) m of
           None \<Rightarrow> None
         | Some x \<Rightarrow> Some (ObjectV (map_erase (CZString key) m), x))
     | _ \<Rightarrow> None)"

text \<open>\<^verbatim>\<open>removeIndex\<close> shifts every later element down by one, through \<^verbatim>\<open>operator[]\<close>.\<close>

fun shift_left :: "nat \<Rightarrow> nat \<Rightarrow> (nat \<times> Value) list \<Rightarrow> (nat \<times> Value) list" where
  "shift_left i 0 m = m"
| "shift_left i (Suc n) m =
     (let (m1, x) = (case map_find (Suc i) m of Some x \<Rightarrow> (m, x) | None \<Rightarrow> (map_put (Suc i) NullV m, NullV))
      in shift_left (Suc i) n (map_put i x m1))"

definition removeIndex :: "nat \<Rightarrow> Value \<Rightarrow> (Value \<times> Value) option" where
  "removeIndex index v = (case v of
       ArrayV m \<Rightarrow> (case map_find index m of
           None \<Rightarrow> None
         | Some x \<Rightarrow>
             let oldSize = json_size v;
                 last_index = unat (of_nat oldSize - 1 :: u32);
                 m' = shift_left index (last_index - index) m
             in Some (ArrayV (map_erase last_index m'), x))
     | _ \<Rightarrow> None)"

definition getMemberNames :: "Value \<Rightarrow> string list cxx" where
  "getMemberNames v =
     cxx_bind (JSON_ASSERT_MESSAGE (isNull v \<or> isObject v)
        ''in Json::Value::getMemberNames(), value must be objectValue'') (\<lambda>_.
     Ret (case v of ObjectV m \<Rightarrow> map_keys m | _ \<Rightarrow> []))"

text \<open>
  A loop from \<^verbatim>\<open>begin()\<close> to \<^verbatim>\<open>end()\<close> visits the entries of the map in order; on any other type the
  two iterators are equal and it visits nothing. \<open>iter_names\<close> pairs each element with
  \<^verbatim>\<open>ValueIteratorBase::name()\<close>, the empty string for an array element.
\<close>

definition iter_values :: "Value \<Rightarrow> Value list" where
  "iter_values v = (case v of ArrayV m \<Rightarrow> map snd m | ObjectV m \<Rightarrow> map snd m | _ \<Rightarrow> [])"

definition iter_names :: "Value \<Rightarrow> (string \<times> Value) list" where
  "iter_names v = (case v of ArrayV m \<Rightarrow> map (\<lambda>e. ('''', snd e)) m | ObjectV m \<Rightarrow> m | _ \<Rightarrow> [])"

section \<open>Decimal output is exact and fits its buffer\<close>

lemma uintToString_append: "uintToString v current = to_string_nat (unat v) @ current"
proof (induction v current rule: uintToString.induct)
  case (1 v current)
  have m: "unat (v mod 10) = unat v mod 10" and d: "unat (v div 10) = unat v div 10"
    by (simp_all add: unat_mod unat_div)
  have z: "v div 10 = 0 \<longleftrightarrow> unat v < 10"
    unfolding unat_eq_0 [symmetric] d by (simp add: div_eq_0_iff)
  show ?case
  proof (cases "v div 10 = 0")
    case True
    then have "unat v < 10" using z by simp
    with True m show ?thesis
      by (simp add: uintToString.simps [of v current] to_string_nat.simps [of "unat v"] digit_char_def add.commute)
  next
    case False
    then have "\<not> unat v < 10" using z by simp
    with False 1 m d show ?thesis
      by (simp add: uintToString.simps [of v current] to_string_nat.simps [of "unat v"] digit_char_def add.commute Let_def)
  qed
qed

lemma length_to_string_nat: "n < 10 ^ Suc k \<Longrightarrow> length (to_string_nat n) \<le> Suc k"
proof (induction k arbitrary: n)
  case 0
  then show ?case by (simp add: to_string_nat.simps)
next
  case (Suc k)
  show ?case
  proof (cases "n < 10")
    case False
    from Suc.prems have "n div 10 < 10 ^ Suc k" by (simp add: less_mult_imp_div_less)
    with Suc.IH [of "n div 10"] False show ?thesis by (subst to_string_nat.simps) simp
  qed (simp add: to_string_nat.simps)
qed

lemma length_uintToString: "length (uintToString v []) \<le> 20"
proof -
  have "unat v < 2 ^ 64" using unsigned_less [of v] by simp
  also have "(2 :: nat) ^ 64 < 10 ^ Suc 19" by simp
  finally show ?thesis
    using length_to_string_nat [of "unat v" 19] by (simp add: uintToString_append)
qed

lemma neg_sint_bounds: "sint (v :: u64) < 0 \<Longrightarrow> 0 < - sint v \<and> - sint v \<le> 2 ^ 63"
  using sint_greater_eq [of v] by simp

lemma unat_uminus_sint:
  assumes "sint (v :: u64) < 0"
  shows "unat (- v) = nat (- sint v)"
proof -
  have "- v = word_of_int (- sint v)" by simp
  then have "uint (- v) = (- sint v) mod 2 ^ LENGTH(64)" by (metis uint_word_of_int)
  also have "\<dots> = - sint v" using neg_sint_bounds [OF assms] by (intro mod_pos_pos_trivial) simp_all
  finally show ?thesis by (simp add: unat_eq_nat_uint)
qed

lemma uint_sint_nonneg:
  assumes "0 \<le> sint (v :: 'a::len word)"
  shows "uint v = sint v"
proof -
  have "v = word_of_int (sint v)" by simp
  then have "uint v = sint v mod 2 ^ LENGTH('a)" by (metis uint_word_of_int)
  moreover have "sint v < 2 ^ (LENGTH('a) - 1)" using sint_less [of v] by simp
  moreover have "(2 :: int) ^ (LENGTH('a) - 1) \<le> 2 ^ LENGTH('a)" by (rule power_increasing) simp_all
  ultimately show ?thesis using assms by simp
qed

lemma valueToString_int_exact: "valueToString_int v = to_string_int (sint v)"
proof (cases "sint v < 0")
  case True
  have "maxLargestInt + 1 = - minLargestInt" by (simp add: maxLargestInt_def minLargestInt_def)
  then have "valueToString_int v = CHR ''-'' # uintToString (- v) []"
    using True by (simp add: valueToString_int_def)
  with True show ?thesis
    by (simp add: to_string_int_def uintToString_append unat_uminus_sint)
next
  case False
  then have "unat v = nat (sint v)" by (simp add: unat_eq_nat_uint uint_sint_nonneg)
  moreover have "v \<noteq> minLargestInt" using False by (auto simp: minLargestInt_def)
  ultimately show ?thesis
    using False by (simp add: valueToString_int_def to_string_int_def uintToString_append)
qed

lemma valueToString_uint_exact: "valueToString_uint v = to_string_nat (unat v)"
  by (simp add: valueToString_uint_def uintToString_append)

section \<open>Type tests and conversions agree\<close>

text \<open>The integer a numeric value stands for, if it stands for one.\<close>

definition integral_value :: "Value \<Rightarrow> int option" where
  "integral_value v = (case v of
       IntV i \<Rightarrow> Some (sint i)
     | UIntV u \<Rightarrow> Some (uint u)
     | RealV (Finite q) \<Rightarrow> (if of_int \<lfloor>q\<rfloor> = q then Some \<lfloor>q\<rfloor> else None)
     | _ \<Rightarrow> None)"

lemma isUInt_iff: "isUInt v \<longleftrightarrow> (\<exists>k. integral_value v = Some k \<and> 0 \<le> k \<and> k \<le> maxUInt)"
proof (cases v)
  case (IntV i)
  then show ?thesis using uint_sint_nonneg [of i] by (auto simp: isUInt_def integral_value_def)
next
  case (RealV d)
  have "0 \<le> q \<longleftrightarrow> 0 \<le> \<lfloor>q\<rfloor>" "q \<le> of_int k \<longleftrightarrow> \<lfloor>q\<rfloor> \<le> k" if "of_int \<lfloor>q\<rfloor> = q" for q :: rat and k
    using that by (metis of_int_0_le_iff, metis of_int_le_iff)
  with RealV show ?thesis
    by (auto simp: isUInt_def integral_value_def double_ge_def double_le_def IsIntegral_def split: double.splits)
qed (simp_all add: isUInt_def integral_value_def)

lemma isInt_iff: "isInt v \<longleftrightarrow> (\<exists>k. integral_value v = Some k \<and> minInt \<le> k \<and> k \<le> maxInt)"
proof (cases v)
  case (UIntV u)
  have "minInt \<le> uint u" by (rule order_trans [of _ 0]) (simp_all add: minInt_def)
  then show ?thesis by (simp add: UIntV isInt_def integral_value_def)
next
  case (RealV d)
  have "of_int j \<le> q \<longleftrightarrow> j \<le> \<lfloor>q\<rfloor>" "q \<le> of_int k \<longleftrightarrow> \<lfloor>q\<rfloor> \<le> k" if "of_int \<lfloor>q\<rfloor> = q" for q :: rat and j k
    using that by (metis of_int_le_iff, metis of_int_le_iff)
  with RealV show ?thesis
    by (auto simp: isInt_def integral_value_def double_ge_def double_le_def IsIntegral_def split: double.splits)
qed (simp_all add: isInt_def integral_value_def)

lemma uint_of_int_u32: "0 \<le> k \<Longrightarrow> k \<le> maxUInt \<Longrightarrow> uint (word_of_int k :: u32) = k"
  by (simp add: uint_word_of_int maxUInt_def)

lemma sint_of_int_i32: "0 \<le> k \<Longrightarrow> k \<le> maxInt \<Longrightarrow> sint (word_of_int k :: i32) = k"
  by (simp add: signed_of_int signed_take_bit_int_eq_self maxInt_def)

text \<open>The number an \<^verbatim>\<open>asInt\<close>/\<^verbatim>\<open>asUInt\<close> that does not throw returns, in every numeric case.\<close>

lemma ucast_integral_value:
  assumes "integral_value v = Some k" and "0 \<le> k" and "v = IntV w \<or> v = UIntV w"
  shows "ucast w = (word_of_int k :: 32 word)"
proof -
  have "uint w = k" using assms uint_sint_nonneg [of w] by (auto simp: integral_value_def)
  then show ?thesis by (metis ucast_eq)
qed

lemma trunc_integral_value:
  assumes "integral_value (RealV d) = Some k" and "0 \<le> k"
  shows "trunc_double d = k"
  using assms by (auto simp: integral_value_def trunc_double_def split: double.splits if_splits)

lemma converted_UInt:
  assumes "integral_value v = Some k" and "0 \<le> k" and "k \<le> maxUInt"
  shows "asUInt v = Ret (word_of_int k)"
proof -
  have u: "isUInt v" using assms by (simp add: isUInt_iff)
  show ?thesis
  proof (cases v)
    case (RealV d)
    then have "InRange d 0 maxUInt" using u by (simp add: isUInt_def InRange_def)
    with RealV assms show ?thesis by (simp add: asUInt_def JSON_ASSERT_MESSAGE_def trunc_integral_value)
  qed (use u assms ucast_integral_value [OF assms(1,2)] in
      \<open>simp_all add: asUInt_def JSON_ASSERT_MESSAGE_def integral_value_def\<close>)
qed

lemma converted_Int:
  assumes "integral_value v = Some k" and "0 \<le> k" and "k \<le> maxInt"
  shows "asInt v = Ret (word_of_int k)"
proof -
  have u: "isInt v" using assms by (simp add: isInt_iff minInt_def)
  show ?thesis
  proof (cases v)
    case (RealV d)
    then have "InRange d minInt maxInt" using u by (simp add: isInt_def InRange_def)
    with RealV assms show ?thesis by (simp add: asInt_def JSON_ASSERT_MESSAGE_def trunc_integral_value)
  qed (use u assms ucast_integral_value [OF assms(1,2)] in
      \<open>simp_all add: asInt_def JSON_ASSERT_MESSAGE_def integral_value_def\<close>)
qed

lemma isUInt_asUInt: "isUInt v \<Longrightarrow> \<exists>n. asUInt v = Ret n \<and> integral_value v = Some (uint n)"
  using converted_UInt uint_of_int_u32 by (auto simp: isUInt_iff)

lemma isUInt_asInt_small:
  "isUInt v \<Longrightarrow> isInt v \<Longrightarrow> \<exists>n. asInt v = Ret n \<and> integral_value v = Some (sint n)"
  using converted_Int sint_of_int_i32 by (auto simp: isUInt_iff isInt_iff)

lemma isUInt_asInt_large:
  assumes "isUInt v" and "\<not> isInt v"
  shows "\<exists>msg. asInt v = Throw (Json_LogicError msg)"
proof (cases v)
  case (RealV d)
  with assms show ?thesis
    by (auto simp: asInt_def isUInt_def isInt_def InRange_def JSON_ASSERT_MESSAGE_def)
qed (use assms in \<open>auto simp: asInt_def isUInt_def isInt_def JSON_ASSERT_MESSAGE_def\<close>)

section \<open>Members\<close>

lemma json_find_simps [json_simps]:
  "json_find key NullV = Ret None"
  "json_find key (ObjectV m) = Ret (map_find (CZString key) m)"
  by (simp_all add: json_find_def JSON_ASSERT_MESSAGE_def isNull_def isObject_def type_of_def)

lemma json_find_wrong_type: "\<not> isNull v \<Longrightarrow> \<not> isObject v \<Longrightarrow> \<exists>msg. json_find key v = Throw (Json_LogicError msg)"
  by (simp add: json_find_def JSON_ASSERT_MESSAGE_def)

lemma isObject_iff: "isObject v \<longleftrightarrow> (\<exists>m. v = ObjectV m)"
  by (cases v) (simp_all add: isObject_def type_of_def)

lemma isNull_iff: "isNull v \<longleftrightarrow> v = NullV"
  by (cases v) (simp_all add: isNull_def type_of_def)

lemma isArray_iff: "isArray v \<longleftrightarrow> (\<exists>m. v = ArrayV m)"
  by (cases v) (simp_all add: isArray_def type_of_def)

lemma isString_iff: "isString v \<longleftrightarrow> (\<exists>s. v = StringV s)"
  by (cases v) (simp_all add: isString_def type_of_def)

lemma asString_StringV [json_simps]: "asString L (StringV s) = Ret s"
  by (simp add: asString_def)

lemma isMember_simps [json_simps]:
  "isMember key NullV = Ret False"
  "isMember key (ObjectV m) = Ret (map_find (CZString key) m \<noteq> None)"
  by (simp_all add: isMember_def json_simps)

lemma member_const_simps [json_simps]:
  "member_const key (ObjectV m) = Ret (case map_find (CZString key) m of None \<Rightarrow> NullV | Some x \<Rightarrow> x)"
  by (simp add: member_const_def json_simps)

lemma resolveReference_member [json_simps]:
  "map_find (CZString key) m = Some x \<Longrightarrow> resolveReference key (ObjectV m) = Ret (ObjectV m, x)"
  by (simp add: resolveReference_def JSON_ASSERT_MESSAGE_def isObject_def type_of_def)

lemma json_size_array: "m \<noteq> [] \<Longrightarrow> Suc (fst (last m)) < 2 ^ 32 \<Longrightarrow> json_size (ArrayV m) = Suc (fst (last m))"
  using unat_of_nat_u32 [of "Suc (fst (last m))"] by (simp add: json_size_def add.commute)

lemma json_size_object: "length m < 2 ^ 32 \<Longrightarrow> json_size (ObjectV m) = length m"
  by (simp add: json_size_def unat_of_nat_u32)

lemma json_size_Nil [simp]: "json_size (ArrayV []) = 0" "json_size (ObjectV []) = 0"
  by (simp_all add: json_size_def)

lemma int_bound_small: "n < 2 ^ 31 \<Longrightarrow> int_bound n = n"
  by (simp add: int_bound_def signed_of_nat signed_take_bit_int_eq_self)

text \<open>A member name shorter than \<^verbatim>\<open>2^30\<close> bytes is stored whole.\<close>

lemma CZString_short: "int (length s) < 2 ^ 30 \<Longrightarrow> CZString s = s"
  by (simp add: CZString_def)

lemma assign_lookup:
  assumes "map_inv m"
  shows "\<exists>v'. resolveReference key (ObjectV m) = Ret v' \<and>
     member_const key' (member_store key x (fst v')) =
       (if CZString key' = CZString key then Ret x else member_const key' (ObjectV m))"
proof (cases "map_find (CZString key) m")
  case None
  with assms show ?thesis
    by (simp add: resolveReference_def JSON_ASSERT_MESSAGE_def isObject_def type_of_def member_store_def
        json_simps map_simps)
next
  case (Some y)
  with assms show ?thesis by (simp add: json_simps member_store_def map_simps)
qed

end
