(* ===== verification/Json_Lexer.thy ===== *)
theory Json_Lexer
  imports Json_Value
begin

unbundle bit_operations_syntax

text \<open>
  The lexical half of jsoncpp's \<^verbatim>\<open>OurReader\<close> (\<^verbatim>\<open>src/dist/jsoncpp.cpp\<close>): tokens, and the decoding of
  a number or string token. A position in the document (a \<^verbatim>\<open>Location\<close>) is the rest of the document
  from there on, so \<^verbatim>\<open>current_ == end_\<close> is the empty list; a location kept for an error message
  is the number of bytes from there to the end. Where the code reads \<^verbatim>\<open>*current_\<close> at \<^verbatim>\<open>end_\<close> it sees
  the terminator of the \<^verbatim>\<open>std::string\<close> both callers pass, a NUL byte. Comments are recognised and
  skipped as in the code; their text is not kept (the program's readers are built with
  \<^verbatim>\<open>allowComments\<close> off, which turns \<^verbatim>\<open>collectComments_\<close> off).
\<close>

section \<open>Features and tokens\<close>

record OurFeatures =
  allowComments :: bool
  strictRoot :: bool
  allowDroppedNullPlaceholders :: bool
  allowNumericKeys :: bool
  allowSingleQuotes :: bool
  failIfExtra :: bool
  rejectDupKeys :: bool
  allowSpecialFloats :: bool
  stackLimit :: int

datatype TokenType =
    tokenEndOfStream | tokenObjectBegin | tokenObjectEnd | tokenArrayBegin | tokenArrayEnd
  | tokenString | tokenNumber | tokenTrue | tokenFalse | tokenNull | tokenNaN | tokenPosInf
  | tokenNegInf | tokenArraySeparator | tokenMemberSeparator | tokenComment | tokenError

record Token =
  tok_type :: TokenType
  tok_start :: string
  tok_end :: string

definition NUL :: char where "NUL = CHR 0x00"

section \<open>Characters\<close>

definition getNextChar :: "string \<Rightarrow> char \<times> string" where
  "getNextChar current = (case current of [] \<Rightarrow> (NUL, []) | c # cs \<Rightarrow> (c, cs))"

definition peekChar :: "string \<Rightarrow> char" where
  "peekChar current = (case current of [] \<Rightarrow> NUL | c # _ \<Rightarrow> c)"

definition is_space :: "char \<Rightarrow> bool" where
  "is_space c \<longleftrightarrow> c = CHR '' '' \<or> c = CHR 0x09 \<or> c = CHR 0x0D \<or> c = CHR 0x0A"

definition is_digit :: "char \<Rightarrow> bool" where
  "is_digit c \<longleftrightarrow> CHR ''0'' \<le> c \<and> c \<le> CHR ''9''"

fun skipSpaces :: "string \<Rightarrow> string" where
  "skipSpaces [] = []"
| "skipSpaces (c # cs) = (if is_space c then skipSpaces cs else c # cs)"

definition match :: "string \<Rightarrow> string \<Rightarrow> bool \<times> string" where
  "match pattern current =
     (if length current < length pattern then (False, current)
      else if take (length pattern) current \<noteq> pattern then (False, current)
      else (True, drop (length pattern) current))"

fun skipDigits :: "string \<Rightarrow> string" where
  "skipDigits [] = []"
| "skipDigits (c # cs) = (if is_digit c then skipDigits cs else c # cs)"

section \<open>Comments, numbers and strings\<close>

fun cStyle_loop :: "string \<Rightarrow> string" where
  "cStyle_loop [] = []"
| "cStyle_loop (c # cs) = (if c = CHR ''*'' \<and> peekChar cs = CHR ''/'' then cs else cStyle_loop cs)"

definition readCStyleComment :: "string \<Rightarrow> bool \<times> string" where
  "readCStyleComment current = (let (c, rest) = getNextChar (cStyle_loop current) in (c = CHR ''/'', rest))"

fun readCppStyleComment :: "string \<Rightarrow> string" where
  "readCppStyleComment [] = []"
| "readCppStyleComment (c # cs) =
     (if c = CHR 0x0A then cs
      else if c = CHR 0x0D then (if cs \<noteq> [] \<and> peekChar cs = CHR 0x0A then snd (getNextChar cs) else cs)
      else readCppStyleComment cs)"

definition readComment :: "string \<Rightarrow> bool \<times> string" where
  "readComment current =
     (let (c, rest) = getNextChar current in
      if c = CHR ''*'' then readCStyleComment rest
      else if c = CHR ''/'' then (True, readCppStyleComment rest)
      else (False, rest))"

text \<open>
  The number scanner stops before the first byte that cannot continue the number; \<open>False\<close> is
  the \<^verbatim>\<open>-I\<close> of \<^verbatim>\<open>-Infinity\<close>.
\<close>

definition readFraction :: "string \<Rightarrow> string" where
  "readFraction s = (if s \<noteq> [] \<and> hd s = CHR ''.'' then skipDigits (tl s) else s)"

definition readExponent :: "string \<Rightarrow> string" where
  "readExponent s =
     (if s \<noteq> [] \<and> (hd s = CHR ''e'' \<or> hd s = CHR ''E'') then
        (let t = tl s in
         skipDigits (if t \<noteq> [] \<and> (hd t = CHR ''+'' \<or> hd t = CHR ''-'') then tl t else t))
      else s)"

definition readNumber :: "bool \<Rightarrow> string \<Rightarrow> bool \<times> string" where
  "readNumber checkInf current =
     (if checkInf \<and> current \<noteq> [] \<and> hd current = CHR ''I'' then (False, tl current)
      else (True, readExponent (readFraction (skipDigits current))))"

text \<open>\<^verbatim>\<open>readString\<close> and \<^verbatim>\<open>readStringSingleQuote\<close>: \<open>c\<close> is the last byte the loop tested.\<close>

fun readString_loop :: "char \<Rightarrow> char \<Rightarrow> string \<Rightarrow> bool \<times> string" where
  "readString_loop quote c [] = (c = quote, [])"
| "readString_loop quote _ (c # cs) =
     (if c = CHR 0x5C then readString_loop quote c (drop 1 cs)
      else if c = quote then (True, cs)
      else readString_loop quote c cs)"

definition readString :: "string \<Rightarrow> bool \<times> string" where
  "readString current = readString_loop (CHR 0x22) NUL current"

definition readStringSingleQuote :: "string \<Rightarrow> bool \<times> string" where
  "readStringSingleQuote current = readString_loop (CHR 0x27) NUL current"

section \<open>readToken\<close>

text \<open>
  The switch of \<^verbatim>\<open>readToken\<close> on the first byte: whether the token is well formed, its type, the
  rest. With single quotes off, the \<^verbatim>\<open>'\<close> case falls through into the comment case, as in the code.
\<close>

definition lex_case :: "OurFeatures \<Rightarrow> char \<Rightarrow> string \<Rightarrow> bool \<times> TokenType \<times> string" where
  "lex_case F c rest =
     (if c = CHR ''{'' then (True, tokenObjectBegin, rest)
      else if c = CHR ''}'' then (True, tokenObjectEnd, rest)
      else if c = CHR ''['' then (True, tokenArrayBegin, rest)
      else if c = CHR '']'' then (True, tokenArrayEnd, rest)
      else if c = CHR 0x22 then (let (ok, r) = readString rest in (ok, tokenString, r))
      else if c = CHR 0x27 \<and> allowSingleQuotes F then
        (let (ok, r) = readStringSingleQuote rest in (ok, tokenString, r))
      else if c = CHR 0x27 \<or> c = CHR ''/'' then (let (ok, r) = readComment rest in (ok, tokenComment, r))
      else if is_digit c then (True, tokenNumber, snd (readNumber False rest))
      else if c = CHR ''-'' then
        (let (isnum, r) = readNumber True rest in
         if isnum then (True, tokenNumber, r)
         else if allowSpecialFloats F then (let (ok, r') = match ''nfinity'' r in (ok, tokenNegInf, r'))
         else (False, tokenNegInf, r))
      else if c = CHR ''t'' then (let (ok, r) = match ''rue'' rest in (ok, tokenTrue, r))
      else if c = CHR ''f'' then (let (ok, r) = match ''alse'' rest in (ok, tokenFalse, r))
      else if c = CHR ''n'' then (let (ok, r) = match ''ull'' rest in (ok, tokenNull, r))
      else if c = CHR ''N'' then
        (if allowSpecialFloats F then (let (ok, r) = match ''aN'' rest in (ok, tokenNaN, r))
         else (False, tokenError, rest))
      else if c = CHR ''I'' then
        (if allowSpecialFloats F then (let (ok, r) = match ''nfinity'' rest in (ok, tokenPosInf, r))
         else (False, tokenError, rest))
      else if c = CHR '','' then (True, tokenArraySeparator, rest)
      else if c = CHR '':'' then (True, tokenMemberSeparator, rest)
      else if c = NUL then (True, tokenEndOfStream, rest)
      else (False, tokenError, rest))"

definition readToken :: "OurFeatures \<Rightarrow> string \<Rightarrow> Token \<times> string" where
  "readToken F current =
     (let start = skipSpaces current;
          (c, rest) = getNextChar start;
          (ok, ty, current') = lex_case F c rest
      in (\<lparr>tok_type = (if ok then ty else tokenError), tok_start = start, tok_end = current'\<rparr>, current'))"

definition token_text :: "Token \<Rightarrow> string" where
  "token_text t = take (length (tok_start t) - length (tok_end t)) (tok_start t)"

section \<open>Every token but the end of the document consumes input\<close>

lemma length_skipSpaces: "length (skipSpaces s) \<le> length s"
  by (induction s) auto

lemma length_skipDigits: "length (skipDigits s) \<le> length s"
  by (induction s) auto

lemma length_cStyle_loop: "length (cStyle_loop s) \<le> length s"
  by (induction s) auto

lemma length_getNextChar: "length (snd (getNextChar s)) \<le> length s"
  by (simp add: getNextChar_def split: list.splits)

lemma length_readCpp: "length (readCppStyleComment s) \<le> length s"
  by (induction s) (simp_all add: le_SucI length_getNextChar)

lemma length_readComment: "length (snd (readComment s)) \<le> length s"
proof -
  obtain c r where g: "getNextChar s = (c, r)" by fastforce
  have r: "length r \<le> length s" using length_getNextChar [of s] g by simp
  have "length (snd (readCStyleComment r)) \<le> length r"
    using length_getNextChar [of "cStyle_loop r"] length_cStyle_loop [of r]
    by (auto simp: readCStyleComment_def split: prod.splits)
  then show ?thesis
    using r length_readCpp [of r] by (auto simp: readComment_def g)
qed

lemma length_match: "length (snd (match p s)) \<le> length s"
  by (simp add: match_def)

lemma length_readFraction: "length (readFraction s) \<le> length s"
  using length_skipDigits [of "tl s"] by (auto simp: readFraction_def)

lemma length_readExponent: "length (readExponent s) \<le> length s"
  using length_skipDigits [of "tl s"] length_skipDigits [of "tl (tl s)"]
  by (auto simp: readExponent_def Let_def)

lemma length_readNumber: "length (snd (readNumber b s)) \<le> length s"
  using length_readExponent [of "readFraction (skipDigits s)"] length_readFraction [of "skipDigits s"]
    length_skipDigits [of s]
  by (simp add: readNumber_def)

lemma length_readString_loop: "length (snd (readString_loop q c s)) \<le> length s"
  by (induction q c s rule: readString_loop.induct) auto

lemmas lexer_lengths = length_skipSpaces length_skipDigits length_readComment length_match
  length_readNumber length_readString_loop

text \<open>The scanner's result leaves at most \<open>n\<close> bytes: a predicate that passes through the switch.\<close>

definition leaves :: "nat \<Rightarrow> bool \<times> TokenType \<times> string \<Rightarrow> bool" where
  "leaves n t \<longleftrightarrow> length (snd (snd t)) \<le> n"

lemma leaves_if: "leaves n a \<Longrightarrow> leaves n b \<Longrightarrow> leaves n (if c then a else b)"
  by simp

lemma leaves_scan: "length (snd p) \<le> n \<Longrightarrow> leaves n (case p of (ok, r) \<Rightarrow> (ok, ty, r))"
  by (cases p) (simp add: leaves_def)

lemma leaves_tuple: "length r \<le> n \<Longrightarrow> leaves n (ok, ty, r)"
  by (simp add: leaves_def)

lemma leaves_minus:
  assumes "length (snd p) \<le> n"
  shows "leaves n (case p of (isnum, r) \<Rightarrow> if isnum then (True, tokenNumber, r)
           else if special then (case match w r of (ok, r') \<Rightarrow> (ok, tokenNegInf, r'))
           else (False, tokenNegInf, r))"
  using assms order_trans [OF length_match [of w "snd p"]]
  by (cases p) (auto intro: leaves_tuple leaves_scan)

lemma length_lex_case: "leaves (length rest) (lex_case F c rest)"
  unfolding lex_case_def Let_def readString_def readStringSingleQuote_def
  by (intro leaves_if leaves_minus leaves_scan leaves_tuple lexer_lengths order_refl)

lemma lex_case_EndOfStream:
  assumes "fst (lex_case F c rest)" and "fst (snd (lex_case F c rest)) = tokenEndOfStream"
  shows "c = NUL"
  using assms unfolding lex_case_def Let_def
  by (simp split: if_split_asm prod.split_asm)

lemma length_readToken: "length (snd (readToken F s)) \<le> length s"
proof -
  obtain c rest where g: "getNextChar (skipSpaces s) = (c, rest)" by fastforce
  have "length rest \<le> length s"
    using length_getNextChar [of "skipSpaces s"] length_skipSpaces [of s] g by simp
  then show ?thesis
    using length_lex_case [of rest F c] by (auto simp: readToken_def g leaves_def Let_def split: prod.splits)
qed

lemma readToken_progress:
  assumes "tok_type (fst (readToken F s)) \<noteq> tokenEndOfStream"
  shows "length (snd (readToken F s)) < length s"
proof (cases "skipSpaces s")
  case Nil
  then have "tok_type (fst (readToken F s)) = tokenEndOfStream"
    by (simp add: readToken_def getNextChar_def lex_case_def NUL_def is_digit_def Let_def)
  with assms show ?thesis by simp
next
  case (Cons c rest)
  then have "length rest < length s"
    using length_skipSpaces [of s] by simp
  with Cons show ?thesis
    using length_lex_case [of rest F c]
    by (auto simp: readToken_def getNextChar_def leaves_def Let_def split: prod.splits)
qed

lemma readToken_end:
  "tok_end (fst (readToken F s)) = snd (readToken F s)"
  by (simp add: readToken_def Let_def split: prod.splits)

end
