(* ===== verification/Json_Decode.thy ===== *)
theory Json_Decode
  imports Json_Lexer
begin

text \<open>
  Decoding of number and string tokens in jsoncpp's \<^verbatim>\<open>OurReader\<close>, with the list of errors the
  reader accumulates. Integers are decoded in 64-bit words exactly as in the code, with its test
  against overflow; the theorems show that the test is exact.
\<close>

section \<open>Reader state and errors\<close>

text \<open>Locations in an error are counted from the end of the document, see \<^theory_text>\<open>Json_Lexer\<close>; one of the two
  versions of \<^verbatim>\<open>pushError\<close> places the end of its token behind the document, where the count is negative.\<close>

record ErrorInfo =
  err_start :: nat
  err_end :: int
  err_message :: string
  err_extra :: "nat option"

record OurReader =
  rd_current :: string
  rd_errors :: "ErrorInfo list"
  rd_stackDepth :: int

definition addError :: "string \<Rightarrow> Token \<Rightarrow> nat option \<Rightarrow> OurReader \<Rightarrow> OurReader" where
  "addError message token extra st =
     st\<lparr>rd_errors := rd_errors st @
         [\<lparr>err_start = length (tok_start token), err_end = int (length (tok_end token)),
           err_message = message, err_extra = extra\<rparr>]\<rparr>"

section \<open>Numbers\<close>

definition digit_value :: "char \<Rightarrow> u64" where
  "digit_value c = of_nat (of_char c - 48)"

text \<open>
  The loop of \<^verbatim>\<open>decodeNumber\<close>; \<open>None\<close> is the call of \<^verbatim>\<open>decodeDouble\<close>. \<open>cs \<noteq> []\<close> is
  \<^verbatim>\<open>current != token.end_\<close> after the increment.
\<close>

fun decodeNumber_loop :: "u64 \<Rightarrow> u64 \<Rightarrow> string \<Rightarrow> u64 \<Rightarrow> u64 option" where
  "decodeNumber_loop maxIntegerValue threshold [] val = Some val"
| "decodeNumber_loop maxIntegerValue threshold (c # cs) val =
     (if c < CHR ''0'' \<or> c > CHR ''9'' then None
      else
        let digit = digit_value c in
        if val \<ge> threshold \<and> (val > threshold \<or> cs \<noteq> [] \<or> digit > maxIntegerValue mod 10) then None
        else decodeNumber_loop maxIntegerValue threshold cs (val * 10 + digit))"

text \<open>The length of the token is kept in an \<^verbatim>\<open>int\<close>; a short token is copied to a buffer first.\<close>

definition bufferSize :: nat where "bufferSize = 32"

definition decodeDouble :: "libc \<Rightarrow> Token \<Rightarrow> OurReader \<Rightarrow> Value option \<times> OurReader" where
  "decodeDouble L token st =
     (let text = token_text token; len = sint (of_nat (length text) :: i32) in
      if len < 0 then (None, addError ''Unable to parse token length'' token None st)
      else
        case scan_lf L (if len \<le> int bufferSize then take (nat len) text else text) of
          None \<Rightarrow> (None, addError (CHR 0x27 # text @ [CHR 0x27] @ '' is not a number.'') token None st)
        | Some d \<Rightarrow> (Some (RealV d), st))"

definition decodeNumber :: "libc \<Rightarrow> Token \<Rightarrow> OurReader \<Rightarrow> Value option \<times> OurReader" where
  "decodeNumber L token st =
     (let text = token_text token;
          isNegative = (text \<noteq> [] \<and> hd text = CHR ''-'');
          digits = (if isNegative then tl text else text);
          maxIntegerValue = (if isNegative then - minLargestInt else maxLargestUInt);
          threshold = maxIntegerValue div 10
      in case decodeNumber_loop maxIntegerValue threshold digits 0 of
           None \<Rightarrow> decodeDouble L token st
         | Some val \<Rightarrow>
             (Some (if isNegative then IntV (- val)
                    else if val \<le> of_int maxInt then IntV val
                    else UIntV val), st))"

section \<open>Strings\<close>

definition codePointToUTF8 :: "u32 \<Rightarrow> string" where
  "codePointToUTF8 cp =
     (if cp \<le> 0x7F then [char_of (unat cp)]
      else if cp \<le> 0x7FF then
        [char_of (unat (0xC0 OR (0x1F AND (drop_bit 6 cp)))),
         char_of (unat (0x80 OR (0x3F AND cp)))]
      else if cp \<le> 0xFFFF then
        [char_of (unat (0xE0 OR (0xF AND (drop_bit 12 cp)))),
         char_of (unat (0x80 OR (0x3F AND (drop_bit 6 cp)))),
         char_of (unat (0x80 OR (0x3F AND cp)))]
      else if cp \<le> 0x10FFFF then
        [char_of (unat (0xF0 OR (0x7 AND (drop_bit 18 cp)))),
         char_of (unat (0x80 OR (0x3F AND (drop_bit 12 cp)))),
         char_of (unat (0x80 OR (0x3F AND (drop_bit 6 cp)))),
         char_of (unat (0x80 OR (0x3F AND cp)))]
      else [])"

text \<open>
  A decoding step fails with a message and the position, within the string, that the code passes
  to \<^verbatim>\<open>addError\<close> (as the number of bytes left before the closing quote).
\<close>

type_synonym decode_error = "string \<times> nat"

definition hex_value :: "char \<Rightarrow> u32 option" where
  "hex_value c =
     (if CHR ''0'' \<le> c \<and> c \<le> CHR ''9'' then Some (of_nat (of_char c - 48))
      else if CHR ''a'' \<le> c \<and> c \<le> CHR ''f'' then Some (of_nat (of_char c - 97 + 10))
      else if CHR ''A'' \<le> c \<and> c \<le> CHR ''F'' then Some (of_nat (of_char c - 65 + 10))
      else None)"

fun hex_loop :: "nat \<Rightarrow> string \<Rightarrow> u32 \<Rightarrow> decode_error + (u32 \<times> string)" where
  "hex_loop 0 current unicode = Inr (unicode, current)"
| "hex_loop (Suc n) [] unicode = Inl (''Bad unicode escape sequence in string: hexadecimal digit expected.'', 0)"
| "hex_loop (Suc n) (c # cs) unicode =
     (case hex_value c of
        Some h \<Rightarrow> hex_loop n cs (unicode * 16 + h)
      | None \<Rightarrow> Inl (''Bad unicode escape sequence in string: hexadecimal digit expected.'', length cs))"

definition decodeUnicodeEscapeSequence :: "string \<Rightarrow> decode_error + (u32 \<times> string)" where
  "decodeUnicodeEscapeSequence current =
     (if length current < 4
      then Inl (''Bad unicode escape sequence in string: four digits expected.'', length current)
      else hex_loop 4 current 0)"

definition surrogate_message :: string where
  "surrogate_message = ''expecting another '' @ [CHR 0x5C] @
     ''u token to begin the second half of a unicode surrogate pair''"

definition decodeUnicodeCodePoint :: "string \<Rightarrow> decode_error + (u32 \<times> string)" where
  "decodeUnicodeCodePoint current =
     (case decodeUnicodeEscapeSequence current of
        Inl e \<Rightarrow> Inl e
      | Inr (unicode, rest) \<Rightarrow>
          if unicode \<ge> 0xD800 \<and> unicode \<le> 0xDBFF then
            (if length rest < 6
             then Inl (''additional six characters expected to parse unicode surrogate pair.'', length rest)
             else if hd rest \<noteq> CHR 0x5C
             then Inl (surrogate_message, length rest - 1)
             else if hd (tl rest) \<noteq> CHR ''u''
             then Inl (surrogate_message, length rest - 2)
             else (case decodeUnicodeEscapeSequence (tl (tl rest)) of
                     Inl e \<Rightarrow> Inl e
                   | Inr (surrogatePair, rest') \<Rightarrow>
                       Inr (0x10000 + push_bit 10 (unicode AND 0x3FF) + (surrogatePair AND 0x3FF), rest')))
          else Inr (unicode, rest))"

lemma hex_loop_length: "hex_loop n s u = Inr (x, r) \<Longrightarrow> length s = n + length r"
  by (induction n s u rule: hex_loop.induct) (auto split: option.splits)

lemma decodeUnicodeEscapeSequence_length:
  "decodeUnicodeEscapeSequence s = Inr (x, r) \<Longrightarrow> length r < length s"
  by (auto simp: decodeUnicodeEscapeSequence_def dest!: hex_loop_length split: if_splits)

lemma decodeUnicodeCodePoint_length:
  "decodeUnicodeCodePoint s = Inr (x, r) \<Longrightarrow> length r < length s"
  by (auto simp: decodeUnicodeCodePoint_def dest!: decodeUnicodeEscapeSequence_length
      split: sum.splits prod.splits if_splits)

definition simple_escape :: "char \<Rightarrow> char option" where
  "simple_escape c =
     (if c = CHR 0x22 then Some (CHR 0x22)
      else if c = CHR ''/'' then Some (CHR ''/'')
      else if c = CHR 0x5C then Some (CHR 0x5C)
      else if c = CHR ''b'' then Some (CHR 0x08)
      else if c = CHR ''f'' then Some (CHR 0x0C)
      else if c = CHR ''n'' then Some (CHR 0x0A)
      else if c = CHR ''r'' then Some (CHR 0x0D)
      else if c = CHR ''t'' then Some (CHR 0x09)
      else None)"

text \<open>The loop of \<^verbatim>\<open>decodeString\<close> over the bytes between the quotes.\<close>

function decodeString_loop :: "string \<Rightarrow> string \<Rightarrow> decode_error + string" where
  "decodeString_loop [] decoded = Inr decoded"
| "decodeString_loop (c # cs) decoded =
     (if c = CHR 0x22 then Inr decoded
      else if c = CHR 0x5C then
        (case cs of
           [] \<Rightarrow> Inl (''Empty escape sequence in string'', 0)
         | escape # cs' \<Rightarrow>
             if escape = CHR ''u'' then
               (case decodeUnicodeCodePoint cs' of
                  Inl e \<Rightarrow> Inl e
                | Inr (unicode, rest) \<Rightarrow> decodeString_loop rest (decoded @ codePointToUTF8 unicode))
             else (case simple_escape escape of
                     Some d \<Rightarrow> decodeString_loop cs' (decoded @ [d])
                   | None \<Rightarrow> Inl (''Bad escape sequence in string'', length cs')))
      else decodeString_loop cs (decoded @ [c]))"
  by pat_completeness auto
termination
  by (relation "measure (\<lambda>(s, _). length s)") (auto dest!: decodeUnicodeCodePoint_length)

text \<open>The bytes of the token without its quotes: from \<^verbatim>\<open>token.start_ + 1\<close> to \<^verbatim>\<open>token.end_ - 1\<close>.\<close>

definition string_body :: "Token \<Rightarrow> string" where
  "string_body token = butlast (tl (token_text token))"

definition decodeString :: "Token \<Rightarrow> OurReader \<Rightarrow> string option \<times> OurReader" where
  "decodeString token st =
     (case decodeString_loop (string_body token) [] of
        Inr decoded \<Rightarrow> (Some decoded, st)
      | Inl (message, left) \<Rightarrow> (None, addError message token (Some (left + 1 + length (tok_end token))) st))"

section \<open>Numbers are decoded exactly\<close>

definition digits_from :: "nat \<Rightarrow> string \<Rightarrow> nat" where
  "digits_from a s = foldl (\<lambda>n c. n * 10 + (of_char c - 48)) a s"

lemma digits_from_simps [simp]:
  "digits_from a [] = a"
  "digits_from a (c # cs) = digits_from (a * 10 + (of_char c - 48)) cs"
  "digits_from a (s @ [c]) = digits_from a s * 10 + (of_char c - 48)"
  by (simp_all add: digits_from_def)

lemma digits_from_ge: "a * 10 ^ length s \<le> digits_from a s"
proof (induction s arbitrary: a)
  case (Cons c s)
  have "a * 10 * 10 ^ length s \<le> (a * 10 + (of_char c - 48)) * 10 ^ length s" by simp
  also have "\<dots> \<le> digits_from a (c # s)" using Cons.IH by simp
  finally show ?case by (simp add: mult.assoc)
qed simp

lemma digits_from_gt: "s \<noteq> [] \<Longrightarrow> m < a * 10 \<Longrightarrow> m < digits_from a s"
proof -
  assume "s \<noteq> []" "m < a * 10"
  have "a * 10 \<le> a * 10 ^ length s"
    using \<open>s \<noteq> []\<close> by (intro mult_le_mono2 self_le_power) auto
  with \<open>m < a * 10\<close> digits_from_ge [of a s] show ?thesis by linarith
qed

lemma is_digit_iff: "is_digit c \<longleftrightarrow> 48 \<le> (of_char c :: nat) \<and> (of_char c :: nat) \<le> 57"
  by (simp add: is_digit_def less_eq_char_def)

lemma unat_digit_value: "is_digit c \<Longrightarrow> unat (digit_value c) = of_char c - 48"
proof -
  assume "is_digit c"
  then have "(of_char c :: nat) - 48 < 2 ^ LENGTH(64)" unfolding is_digit_iff by simp linarith
  then show ?thesis unfolding digit_value_def by (simp add: unat_of_nat take_bit_nat_eq_self_iff del: of_nat_diff_if)
qed

lemma decodeNumber_loop_exact:
  assumes "10 \<le> unat mx" and "unat val \<le> unat mx" and "list_all is_digit s"
  shows "decodeNumber_loop mx (mx div 10) s val =
           (if digits_from (unat val) s \<le> unat mx then Some (of_nat (digits_from (unat val) s)) else None)"
  using assms(2,3)
proof (induction s arbitrary: val)
  case Nil
  then show ?case by simp
next
  case (Cons c s)
  have c: "is_digit c" and s: "list_all is_digit s" using Cons.prems by simp_all
  let ?d = "of_char c - 48 :: nat" and ?t = "unat mx div 10"
  have d: "?d \<le> 9" using c unfolding is_digit_iff by linarith
  have notout: "\<not> (c < CHR ''0'' \<or> c > CHR ''9'')" using c by (auto simp: is_digit_def)
  have t: "unat (mx div 10) = ?t" "unat (mx mod 10) = unat mx mod 10" by (simp_all add: unat_div unat_mod)
  have m: "unat mx < 2 ^ 64" using unsigned_less [of mx] by simp
  have lt: "unat mx < ?t * 10 + 10" and t1: "1 \<le> ?t" and mod: "unat mx = ?t * 10 + unat mx mod 10"
    using assms(1) by (simp_all add: Suc_le_eq div_greater_zero_iff dividend_less_div_times)
  have stop: "(val \<ge> mx div 10 \<and> (val > mx div 10 \<or> s \<noteq> [] \<or> digit_value c > mx mod 10)) \<longleftrightarrow>
      unat val \<ge> ?t \<and> (unat val > ?t \<or> s \<noteq> [] \<or> ?d > unat mx mod 10)"
    by (simp add: word_le_nat_alt word_less_nat_alt t unat_digit_value [OF c])
  show ?case
  proof (cases "unat val \<ge> ?t \<and> (unat val > ?t \<or> s \<noteq> [] \<or> ?d > unat mx mod 10)")
    case True
    have "unat mx < digits_from (unat val) (c # s)"
    proof (cases "unat val > ?t")
      case True
      then have "unat mx < unat val * 10" by (simp add: div_less_iff_less_mult)
      then show ?thesis by (rule digits_from_gt [of "c # s", OF list.distinct(2)])
    next
      case False
      with True have e: "unat val = ?t" "s \<noteq> [] \<or> ?d > unat mx mod 10" by auto
      show ?thesis
      proof (cases "s = []")
        case True
        with e(2) have "unat mx < ?t * 10 + ?d" using mod by linarith
        with True e(1) show ?thesis by simp
      next
        case False
        have "unat mx < (unat val * 10 + ?d) * 10" 
        proof -
          have "?t * 10 * 10 \<le> (unat val * 10 + ?d) * 10" using e(1) by simp
          then show ?thesis using lt t1 by linarith
        qed
        with digits_from_gt [OF False] show ?thesis by simp
      qed
    qed
    with True notout stop show ?thesis by simp
  next
    case False
    then have le: "unat val * 10 + ?d \<le> unat mx" 
    proof (cases "unat val = ?t")
      case True
      then have "?d \<le> unat mx mod 10" using False by auto
      then show ?thesis using True mod by linarith
    next
      case less: False
      then have "unat val < ?t" using False by linarith
      then show ?thesis using d mod by linarith
    qed
    have u: "unat (val * 10 + digit_value c) = unat val * 10 + ?d"
    proof -
      have "unat (val * 10) = unat val * 10" using le m by (simp add: unat_word_ariths)
      then show ?thesis using le m by (simp add: unat_word_ariths unat_digit_value [OF c])
    qed
    with Cons.IH [of "val * 10 + digit_value c"] s le False notout stop show ?thesis by simp
  qed
qed

lemma mx_big: "10 \<le> unat (- minLargestInt)" "10 \<le> unat maxLargestUInt"
  by (simp_all add: minLargestInt_def maxLargestUInt_def unat_eq_nat_uint uint_word_ariths)

lemma of_char_digit_char: "d < 10 \<Longrightarrow> of_char (digit_char d) = 48 + d"
  by (simp add: digit_char_def)

lemma to_string_nat_digits: "list_all is_digit (to_string_nat n) \<and> digits_from 0 (to_string_nat n) = n"
proof (induction n rule: less_induct)
  case (less n)
  show ?case
  proof (cases "n < 10")
    case True
    then show ?thesis
      by (simp add: to_string_nat.simps [of n] is_digit_iff of_char_digit_char)
  next
    case False
    have "n mod 10 < 10" by simp
    with less [of "n div 10"] False show ?thesis
      by (simp add: to_string_nat.simps [of n] is_digit_iff of_char_digit_char)
  qed
qed

lemma to_string_nat_head: "to_string_nat n \<noteq> [] \<and> hd (to_string_nat n) \<noteq> CHR ''-''"
proof -
  have "to_string_nat n \<noteq> []" by (simp add: to_string_nat.simps)
  moreover have "is_digit (hd (to_string_nat n))"
    using to_string_nat_digits [of n] calculation by (cases "to_string_nat n") simp_all
  ultimately show ?thesis by (auto simp: is_digit_iff)
qed

text \<open>
  An integer token of any length: the value of its digits when it fits 64 bits, the nearest double
  that \<^verbatim>\<open>sscanf\<close> finds otherwise.
\<close>

lemma decodeNumber_digits:
  fixes neg :: bool and ds :: string
  defines "k \<equiv> (if neg then - int (digits_from 0 ds) else int (digits_from 0 ds))"
  assumes "token_text token = (if neg then CHR ''-'' # ds else ds)" and "list_all is_digit ds"
  shows "decodeNumber L token st =
    (if - (2 ^ 63) \<le> k \<and> k < 2 ^ 64 then
       (Some (if k \<le> maxInt then IntV (word_of_int k) else UIntV (word_of_int k)), st)
     else decodeDouble L token st)"
proof (cases neg)
  case True
  have "unat (- minLargestInt) = 2 ^ 63" by (simp add: minLargestInt_def)
  moreover have "- (2 ^ 63) \<le> k \<longleftrightarrow> digits_from 0 ds \<le> 2 ^ 63" "k \<le> maxInt" "k < 2 ^ 64"
    using True by (auto simp: k_def maxInt_def)
  moreover have "word_of_int k = (- of_nat (digits_from 0 ds) :: u64)" using True by (simp add: k_def)
  ultimately show ?thesis
    using True decodeNumber_loop_exact [OF mx_big(1), of 0 ds] assms(2,3)
    by (simp add: decodeNumber_def)
next
  case False
  let ?n = "digits_from 0 ds"
  have "unat maxLargestUInt = 2 ^ 64 - 1" by (simp add: maxLargestUInt_def unat_eq_nat_uint uint_word_ariths)
  then have r: "?n \<le> unat maxLargestUInt \<longleftrightarrow> ?n < 2 ^ 64" by auto
  have "decodeNumber L token st = (case decodeNumber_loop maxLargestUInt (maxLargestUInt div 10) ds 0 of
      None \<Rightarrow> decodeDouble L token st
    | Some val \<Rightarrow> (Some (if val \<le> of_int maxInt then IntV val else UIntV val), st))"
    using False assms(2,3) by (cases ds) (auto simp: decodeNumber_def Let_def is_digit_iff split: option.splits)
  moreover have "(of_nat ?n :: u64) \<le> of_int maxInt \<longleftrightarrow> int ?n \<le> maxInt" if "?n < 2 ^ 64"
    using that by (simp add: word_le_def maxInt_def uint_nat unat_of_nat take_bit_nat_eq_self_iff)
  moreover have "- (2 ^ 63) \<le> k" "k < 2 ^ 64 \<longleftrightarrow> ?n < 2 ^ 64" "k = int ?n" using False by (auto simp: k_def)
  ultimately show ?thesis
    using False decodeNumber_loop_exact [OF mx_big(2), of 0 ds] assms(3) r by simp
qed

text \<open>Reading back what was printed, for every integer a JSON value can hold.\<close>

lemma decodeNumber_canonical:
  assumes "token_text token = to_string_int k" and "- (2 ^ 63) \<le> k" and "k < 2 ^ 64"
  shows "decodeNumber L token st = (Some (if k \<le> maxInt then IntV (word_of_int k) else UIntV (word_of_int k)), st)"
proof -
  let ?ds = "to_string_nat (nat \<bar>k\<bar>)"
  have "token_text token = (if k < 0 then CHR ''-'' # ?ds else ?ds)" using assms(1) by (simp add: to_string_int_def)
  moreover have "(if k < 0 then - int (digits_from 0 ?ds) else int (digits_from 0 ?ds)) = k"
    by (simp add: conjunct2 [OF to_string_nat_digits])
  ultimately show ?thesis
    using decodeNumber_digits [of token "k < 0" ?ds L st] to_string_nat_digits [of "nat \<bar>k\<bar>"] assms(2,3) by simp
qed

lemma decodeDouble_short:
  assumes "length (token_text token) < 2 ^ 31"
  shows "decodeDouble L token st =
    (case scan_lf L (token_text token) of
       None \<Rightarrow> (None, addError (CHR 0x27 # token_text token @ [CHR 0x27] @ '' is not a number.'') token None st)
     | Some d \<Rightarrow> (Some (RealV d), st))"
proof -
  have "sint (of_nat (length (token_text token)) :: i32) = int (length (token_text token))"
    using assms by (simp add: signed_of_nat signed_take_bit_int_eq_self)
  then show ?thesis by (simp add: decodeDouble_def Let_def)
qed

end
