(* ===== verification/Json_Descent.thy ===== *)
theory Json_Descent
  imports Json_Decode
begin

text \<open>
  The recursive descent of jsoncpp's readers (\<^verbatim>\<open>src/dist/jsoncpp.cpp\<close>). \<^verbatim>\<open>OurReader\<close> began as a copy of the older
  \<^verbatim>\<open>Reader\<close>: both read values, objects and arrays with the same code, over lexers and number decoders
  that differ. The code is translated here once, for \<^verbatim>\<open>Reader\<close>, with what differs as a record \<open>Descent\<close>;
  \<^theory_text>\<open>Json_Reader\<close> and \<^theory_text>\<open>Json_Old_Reader\<close> instantiate it. \<^verbatim>\<open>currentValue()\<close>, the value a node pointer
  refers to, is an argument and part of the result. The mutual recursion runs on fuel; \<open>None\<close> is
  ``out of fuel'', and the locale \<open>token_source\<close> shows, for every lexer that consumes its input,
  that twice the document's length and one more is enough.
\<close>

section \<open>What the two readers differ in\<close>

type_synonym read_result = "(bool \<times> OurReader \<times> Value) cxx option"

definition obind :: "'a cxx option \<Rightarrow> ('a \<Rightarrow> 'b cxx option) \<Rightarrow> 'b cxx option" where
  "obind m f = (case m of None \<Rightarrow> None | Some (Ret x) \<Rightarrow> f x | Some (Throw e) \<Rightarrow> Some (Throw e)
     | Some Terminate \<Rightarrow> Some Terminate)"

text \<open>
  \<open>de_skipComments\<close> is the loop that reads tokens until one is not a comment, \<open>de_recover\<close> the loop of
  \<^verbatim>\<open>recoverFromError\<close>, \<open>de_scalars\<close> the tokens that have a case of their own in \<^verbatim>\<open>readValue\<close>, and
  \<open>de_checkName\<close> what stands between the colon and the value of a member: \<open>Some\<close> is an early return.
\<close>

record Descent =
  de_readToken :: "string \<Rightarrow> Token \<times> string"
  de_skipComments :: "string \<Rightarrow> Token \<times> string"
  de_recover :: "TokenType \<Rightarrow> string \<Rightarrow> string"
  de_allowComments :: bool
  de_droppedNull :: bool
  de_numericKeys :: bool
  de_stackLimit :: int
  de_scalars :: "TokenType list"
  de_decodeNumber :: "Token \<Rightarrow> OurReader \<Rightarrow> Value option \<times> OurReader"
  de_checkName :: "Token \<Rightarrow> string \<Rightarrow> OurReader \<Rightarrow> Value \<Rightarrow> read_result option"

section \<open>The code of Reader\<close>

definition skip_tokens :: "Descent \<Rightarrow> string \<Rightarrow> Token \<times> string" where
  "skip_tokens K s = (if de_allowComments K then de_skipComments K s else de_readToken K s)"

definition recover_from :: "Descent \<Rightarrow> TokenType \<Rightarrow> OurReader \<Rightarrow> OurReader" where
  "recover_from K skipUntilToken st = st\<lparr>rd_current := de_recover K skipUntilToken (rd_current st)\<rparr>"

definition error_and_recover :: "Descent \<Rightarrow> string \<Rightarrow> Token \<Rightarrow> TokenType \<Rightarrow> OurReader \<Rightarrow> OurReader" where
  "error_and_recover K message token skipUntilToken st = recover_from K skipUntilToken (addError message token None st)"

definition scalar_value :: "Descent \<Rightarrow> Token \<Rightarrow> OurReader \<Rightarrow> Value \<Rightarrow> (bool \<times> OurReader \<times> Value) cxx" where
  "scalar_value K token st v =
     (case tok_type token of
        tokenNumber \<Rightarrow>
          (case de_decodeNumber K token st of
             (Some x, st') \<Rightarrow> Ret (True, st', x)
           | (None, st') \<Rightarrow> Ret (False, st', v))
      | tokenString \<Rightarrow>
          (case decodeString token st of
             (Some s, st') \<Rightarrow> cxx_bind (Value_of_string s) (\<lambda>x. Ret (True, st', x))
           | (None, st') \<Rightarrow> Ret (False, st', v))
      | tokenTrue \<Rightarrow> Ret (True, st, BoolV True)
      | tokenFalse \<Rightarrow> Ret (True, st, BoolV False)
      | tokenNull \<Rightarrow> Ret (True, st, NullV)
      | tokenNaN \<Rightarrow> Ret (True, st, RealV NaN)
      | tokenPosInf \<Rightarrow> Ret (True, st, RealV (Infinity False))
      | tokenNegInf \<Rightarrow> Ret (True, st, RealV (Infinity True))
      | _ \<Rightarrow> Ret (False, st, v))"

definition scalar_tokens :: "TokenType list" where
  "scalar_tokens = [tokenNumber, tokenString, tokenTrue, tokenFalse, tokenNull, tokenNaN, tokenPosInf, tokenNegInf]"

text \<open>The name of an object member: \<open>None\<close> for a token that cannot be one, which leaves the loop.\<close>

definition member_name :: "Descent \<Rightarrow> libc \<Rightarrow> Token \<Rightarrow> OurReader \<Rightarrow> (string option \<times> OurReader) cxx option" where
  "member_name K L token st =
     (if tok_type token = tokenString then Some (Ret (decodeString token st))
      else if tok_type token = tokenNumber \<and> de_numericKeys K then
        (case de_decodeNumber K token st of
           (Some x, st') \<Rightarrow> Some (cxx_bind (asString L x) (\<lambda>name. Ret (Some name, st')))
         | (None, st') \<Rightarrow> Some (Ret (None, st')))
      else None)"

definition value_step ::
  "(OurReader \<Rightarrow> string \<Rightarrow> Value \<Rightarrow> read_result) \<Rightarrow> (OurReader \<Rightarrow> nat \<Rightarrow> Value \<Rightarrow> read_result) \<Rightarrow>
   Descent \<Rightarrow> OurReader \<Rightarrow> Value \<Rightarrow> read_result" where
  "value_step readObj readArr K st v =
     (if rd_stackDepth st \<ge> de_stackLimit K
      then Some (Throw (Json_RuntimeError ''Exceeded stackLimit in readValue().''))
      else
        let (token, current) = skip_tokens K (rd_current st);
            st1 = st\<lparr>rd_current := current, rd_stackDepth := rd_stackDepth st + 1\<rparr>;
            leave = (\<lambda>(ok, st', v'). Some (Ret (ok, st'\<lparr>rd_stackDepth := rd_stackDepth st' - 1\<rparr>, v')))
        in if tok_type token = tokenObjectBegin then
             obind (readObj st1 [] (Value_of_type objectValue)) leave
           else if tok_type token = tokenArrayBegin then
             (let current' = skipSpaces current in
              if peekChar current' = CHR '']''
              then leave (True, st1\<lparr>rd_current := snd (de_readToken K current')\<rparr>, Value_of_type arrayValue)
              else obind (readArr (st1\<lparr>rd_current := current'\<rparr>) 0 (Value_of_type arrayValue)) leave)
           else if tok_type token \<in> set (de_scalars K) then
             obind (Some (scalar_value K token st1 v)) leave
           else if tok_type token \<in> {tokenArraySeparator, tokenObjectEnd, tokenArrayEnd} \<and> de_droppedNull K then
             leave (True, st1\<lparr>rd_current := tok_start token\<rparr>, NullV)
           else Some (Ret (False, addError ''Syntax error: value, object or array expected.'' token None st1, v)))"

text \<open>In \<^verbatim>\<open>readObject\<close>: what follows a member's value (the comma or the closing brace).\<close>

definition object_next ::
  "(OurReader \<Rightarrow> string \<Rightarrow> Value \<Rightarrow> read_result) \<Rightarrow> Descent \<Rightarrow> string \<Rightarrow> Value \<Rightarrow>
   bool \<times> OurReader \<times> Value \<Rightarrow> read_result" where
  "object_next again K name v1 result = (case result of (ok, st, x) \<Rightarrow>
     let v2 = member_store name x v1 in
     if \<not> ok then Some (Ret (False, recover_from K tokenObjectEnd st, v2))
     else
       let (comma, current) = de_readToken K (rd_current st) in
       if tok_type comma \<notin> {tokenObjectEnd, tokenArraySeparator, tokenComment} then
         Some (Ret (False, error_and_recover K
           (''Missing '' @ [CHR 0x27] @ '','' @ [CHR 0x27] @ '' or '' @ [CHR 0x27] @ ''}'' @ [CHR 0x27] @ '' in object declaration'')
           comma tokenObjectEnd (st\<lparr>rd_current := current\<rparr>), v2))
       else
         let (comma', current') =
               (if tok_type comma = tokenComment then de_skipComments K current else (comma, current));
             st' = st\<lparr>rd_current := current'\<rparr>
         in if tok_type comma' = tokenObjectEnd then Some (Ret (True, st', v2))
            else again st' name v2)"

text \<open>In \<^verbatim>\<open>readObject\<close>: what follows a member's name (the colon, the check of the name, the value).\<close>

definition object_member ::
  "(OurReader \<Rightarrow> Value \<Rightarrow> read_result) \<Rightarrow> (OurReader \<Rightarrow> string \<Rightarrow> Value \<Rightarrow> read_result) \<Rightarrow>
   Descent \<Rightarrow> Token \<Rightarrow> string \<Rightarrow> OurReader \<Rightarrow> Value \<Rightarrow> read_result" where
  "object_member readVal again K tokenName name st v =
     (let (colon, current) = de_readToken K (rd_current st);
          st' = st\<lparr>rd_current := current\<rparr>
      in if tok_type colon \<noteq> tokenMemberSeparator then
           Some (Ret (False, error_and_recover K
             (''Missing '' @ [CHR 0x27] @ '':'' @ [CHR 0x27] @ '' after object member name'') colon tokenObjectEnd st', v))
         else case de_checkName K tokenName name st' v of
           Some r \<Rightarrow> r
         | None \<Rightarrow> obind (Some (resolveReference name v)) (\<lambda>(v1, x0).
             obind (readVal st' x0) (object_next again K name v1)))"

definition object_step ::
  "(OurReader \<Rightarrow> Value \<Rightarrow> read_result) \<Rightarrow> (OurReader \<Rightarrow> string \<Rightarrow> Value \<Rightarrow> read_result) \<Rightarrow>
   Descent \<Rightarrow> libc \<Rightarrow> OurReader \<Rightarrow> string \<Rightarrow> Value \<Rightarrow> read_result" where
  "object_step readVal again K L st name v =
     (let (tokenName, current) = de_skipComments K (rd_current st);
          st1 = st\<lparr>rd_current := current\<rparr>
      in if tok_type tokenName = tokenObjectEnd \<and> name = [] then Some (Ret (True, st1, v))
         else case member_name K L tokenName st1 of
           None \<Rightarrow> Some (Ret (False, error_and_recover K
             (''Missing '' @ [CHR 0x27] @ ''}'' @ [CHR 0x27] @ '' or object member name'') tokenName tokenObjectEnd st1, v))
         | Some m \<Rightarrow> obind (Some m) (\<lambda>(decoded, st2).
             case decoded of
               None \<Rightarrow> Some (Ret (False, recover_from K tokenObjectEnd st2, v))
             | Some name' \<Rightarrow> object_member readVal again K tokenName name' st2 v))"

text \<open>In \<^verbatim>\<open>readArray\<close>: what follows an element.\<close>

definition array_next ::
  "(OurReader \<Rightarrow> nat \<Rightarrow> Value \<Rightarrow> read_result) \<Rightarrow> Descent \<Rightarrow> nat \<Rightarrow> Value \<Rightarrow>
   bool \<times> OurReader \<times> Value \<Rightarrow> read_result" where
  "array_next again K index v1 result = (case result of (ok, st, x) \<Rightarrow>
     let v2 = index_store index x v1 in
     if \<not> ok then Some (Ret (False, recover_from K tokenArrayEnd st, v2))
     else
       let (token, current) = de_skipComments K (rd_current st);
           st' = st\<lparr>rd_current := current\<rparr>
       in if tok_type token \<noteq> tokenArraySeparator \<and> tok_type token \<noteq> tokenArrayEnd then
            Some (Ret (False, error_and_recover K
              (''Missing '' @ [CHR 0x27] @ '','' @ [CHR 0x27] @ '' or '' @ [CHR 0x27] @ '']'' @ [CHR 0x27] @ '' in array declaration'')
              token tokenArrayEnd st', v2))
          else if tok_type token = tokenArrayEnd then Some (Ret (True, st', v2))
          else again st' (Suc index) v2)"

definition array_step ::
  "(OurReader \<Rightarrow> Value \<Rightarrow> read_result) \<Rightarrow> (OurReader \<Rightarrow> nat \<Rightarrow> Value \<Rightarrow> read_result) \<Rightarrow>
   Descent \<Rightarrow> OurReader \<Rightarrow> nat \<Rightarrow> Value \<Rightarrow> read_result" where
  "array_step readVal again K st index v =
     obind (Some (index_ref index v)) (\<lambda>(v1, x0).
       obind (readVal st x0) (array_next again K index v1))"

function descend_value :: "nat \<Rightarrow> Descent \<Rightarrow> libc \<Rightarrow> OurReader \<Rightarrow> Value \<Rightarrow> read_result"
  and descend_object :: "nat \<Rightarrow> Descent \<Rightarrow> libc \<Rightarrow> OurReader \<Rightarrow> string \<Rightarrow> Value \<Rightarrow> read_result"
  and descend_array :: "nat \<Rightarrow> Descent \<Rightarrow> libc \<Rightarrow> OurReader \<Rightarrow> nat \<Rightarrow> Value \<Rightarrow> read_result" where
  "descend_value 0 K L st v = None"
| "descend_value (Suc n) K L st v = value_step (descend_object n K L) (descend_array n K L) K st v"
| "descend_object 0 K L st name v = None"
| "descend_object (Suc n) K L st name v = object_step (descend_value n K L) (descend_object n K L) K L st name v"
| "descend_array 0 K L st index v = None"
| "descend_array (Suc n) K L st index v = array_step (descend_value n K L) (descend_array n K L) K st index v"
  by pat_completeness auto
termination
  by (relation "measure (\<lambda>a. case a of Inl (n, _) \<Rightarrow> n | Inr (Inl (n, _)) \<Rightarrow> n | Inr (Inr (n, _)) \<Rightarrow> n)") auto

section \<open>The descent terminates, and reports an error exactly when it fails\<close>

text \<open>
  What a call of the reader promises: it does not run out of fuel; it consumes input; if it
  succeeds, it recorded no error and left the nesting depth as it was; if it fails, it recorded
  at least one error.
\<close>

definition promise :: "OurReader \<Rightarrow> bool \<times> OurReader \<times> Value \<Rightarrow> bool" where
  "promise st x = (case x of (ok, st', v) \<Rightarrow>
     length (rd_current st') \<le> length (rd_current st) \<and>
     (ok \<longrightarrow> rd_errors st' = rd_errors st \<and> rd_stackDepth st' = rd_stackDepth st) \<and>
     (\<not> ok \<longrightarrow> length (rd_errors st) < length (rd_errors st')))"

definition delivers :: "OurReader \<Rightarrow> read_result \<Rightarrow> bool" where
  "delivers st r \<longleftrightarrow> (case r of None \<Rightarrow> False | Some (Ret x) \<Rightarrow> promise st x | Some _ \<Rightarrow> True)"

lemma delivers_Ret: "delivers st (Some (Ret (ok, st', v))) \<longleftrightarrow> promise st (ok, st', v)"
  by (simp add: delivers_def)

lemma delivers_Throw [simp]: "delivers st (Some (Throw e))"
  by (simp add: delivers_def)

lemma delivers_obind:
  assumes "delivers st r" and "\<And>ok st' v. promise st (ok, st', v) \<Longrightarrow> delivers st2 (f (ok, st', v))"
  shows "delivers st2 (obind r f)"
proof -
  obtain m where m: "r = Some m" using assms(1) by (auto simp: delivers_def split: option.splits)
  show ?thesis
  proof (cases m)
    case (Ret x)
    then have "promise st x" using assms(1) m by (simp add: delivers_def)
    then have "delivers st2 (f x)" using assms(2) by (cases x) blast
    then show ?thesis by (simp add: m Ret obind_def)
  qed (simp_all add: m obind_def delivers_def)
qed

lemma delivers_obind_call:
  assumes "\<And>x. m = Ret x \<Longrightarrow> delivers st (f x)"
  shows "delivers st (obind (Some m) f)"
  using assms by (cases m) (auto simp: delivers_def obind_def)

text \<open>A later promise also holds from an earlier state that had more input and the same errors.\<close>

definition advances :: "OurReader \<Rightarrow> OurReader \<Rightarrow> bool" where
  "advances st st' \<longleftrightarrow> length (rd_current st') \<le> length (rd_current st) \<and>
     rd_errors st' = rd_errors st \<and> rd_stackDepth st' = rd_stackDepth st"

lemma promise_advances: "advances st st' \<Longrightarrow> promise st' x \<Longrightarrow> promise st x"
  by (auto simp: promise_def advances_def)

lemma delivers_advances: "advances st st' \<Longrightarrow> delivers st' r \<Longrightarrow> delivers st r"
  by (auto simp: delivers_def promise_advances split: option.splits cxx.splits)

lemma promise_True: "advances st st' \<Longrightarrow> promise st (True, st', v)"
  by (simp add: promise_def advances_def)

text \<open>Decoding a token either leaves the reader alone or fails with one more error.\<close>

definition decoded_well :: "OurReader \<Rightarrow> 'a option \<times> OurReader \<Rightarrow> bool" where
  "decoded_well st r \<longleftrightarrow> (case fst r of
     Some _ \<Rightarrow> snd r = st
   | None \<Rightarrow> rd_current (snd r) = rd_current st \<and> length (rd_errors st) < length (rd_errors (snd r)))"

lemma decodeString_well: "decoded_well st (decodeString t st)"
  by (simp add: decoded_well_def decodeString_def addError_def split: sum.split prod.split)

text \<open>
  What the descent needs of a lexer and its loops: a token other than the end consumes input; the
  two loops are loops over \<open>de_readToken\<close>; a number that cannot be decoded, or a name that is
  refused, is reported as an error.
\<close>

locale token_source =
  fixes K :: Descent
  assumes read_length: "length (snd (de_readToken K s)) \<le> length s"
    and read_progress: "tok_type (fst (de_readToken K s)) \<noteq> tokenEndOfStream \<Longrightarrow> length (snd (de_readToken K s)) < length s"
    and read_start: "length (tok_start (fst (de_readToken K s))) \<le> length s"
    and skip_loop: "de_skipComments K s =
      (let r = de_readToken K s in if tok_type (fst r) = tokenComment then de_skipComments K (snd r) else r)"
    and recover_loop: "de_recover K skipUntilToken s =
      (let r = de_readToken K s in
       if tok_type (fst r) = skipUntilToken \<or> tok_type (fst r) = tokenEndOfStream then snd r
       else de_recover K skipUntilToken (snd r))"
    and number_well: "decoded_well st (de_decodeNumber K t st)"
    and check_delivers: "de_checkName K t name st v = Some r \<Longrightarrow> delivers st r"
    and scalars: "set (de_scalars K) \<subseteq> set scalar_tokens"
begin

lemma skip_length: "length (snd (de_skipComments K s)) \<le> length s"
proof (induction "length s" arbitrary: s rule: less_induct)
  case less
  have "length (snd (de_skipComments K (snd (de_readToken K s)))) \<le> length (snd (de_readToken K s))"
    if "tok_type (fst (de_readToken K s)) = tokenComment"
    using read_progress [of s] that by (intro less.hyps) simp
  then show ?case using read_length [of s] skip_loop [of s] by (auto simp: Let_def)
qed

lemma skip_progress: "tok_type (fst (de_skipComments K s)) \<noteq> tokenEndOfStream \<Longrightarrow> length (snd (de_skipComments K s)) < length s"
  using read_progress [of s] skip_length [of "snd (de_readToken K s)"] skip_loop [of s] by (auto simp: Let_def split: if_splits)

lemma skip_start: "length (tok_start (fst (de_skipComments K s))) \<le> length s"
proof (induction "length s" arbitrary: s rule: less_induct)
  case less
  have "length (tok_start (fst (de_skipComments K (snd (de_readToken K s))))) \<le> length (snd (de_readToken K s))"
    if "tok_type (fst (de_readToken K s)) = tokenComment"
    using read_progress [of s] that by (intro less.hyps) simp
  then show ?case using read_length [of s] read_start [of s] skip_loop [of s] by (auto simp: Let_def)
qed

lemma tokens_length: "length (snd (skip_tokens K s)) \<le> length s"
  by (simp add: skip_tokens_def skip_length read_length)

lemma tokens_progress: "tok_type (fst (skip_tokens K s)) \<noteq> tokenEndOfStream \<Longrightarrow> length (snd (skip_tokens K s)) < length s"
  by (simp add: skip_tokens_def skip_progress read_progress split: if_splits)

lemma tokens_start: "length (tok_start (fst (skip_tokens K s))) \<le> length s"
  by (simp add: skip_tokens_def skip_start read_start)

lemma recover_length: "length (de_recover K k s) \<le> length s"
proof (induction "length s" arbitrary: s rule: less_induct)
  case less
  have "length (de_recover K k (snd (de_readToken K s))) \<le> length (snd (de_readToken K s))"
    if "tok_type (fst (de_readToken K s)) \<noteq> tokenEndOfStream"
    using read_progress [OF that] by (rule less.hyps)
  then show ?case using read_length [of s] recover_loop [of k s] by (auto simp: Let_def)
qed

lemma promise_recover: "length (rd_errors st) < length (rd_errors st') \<Longrightarrow>
    length (rd_current st') \<le> length (rd_current st) \<Longrightarrow> promise st (False, recover_from K k st', v)"
  using recover_length [of k "rd_current st'"]
  by (simp add: promise_def recover_from_def)

lemma promise_error_recover:
  "advances st st' \<Longrightarrow> promise st (False, error_and_recover K msg t k st', v)"
  unfolding error_and_recover_def
  by (rule promise_recover) (simp_all add: advances_def addError_def)

lemma promise_fail_recover: "promise st (False, st', v) \<Longrightarrow> promise st (False, recover_from K k st', w)"
  by (rule promise_recover) (simp_all add: promise_def)

lemma scalar_value_promise:
  assumes "tok_type t \<in> set scalar_tokens" and "scalar_value K t st v = Ret x"
  shows "promise st x"
proof -
  have num: ?thesis if "tok_type t = tokenNumber"
  proof -
    obtain o1 st1 where "de_decodeNumber K t st = (o1, st1)" by fastforce
    with number_well [of st t] assms(2) that show ?thesis
      by (cases o1) (auto simp: scalar_value_def promise_def decoded_well_def)
  qed
  have str: ?thesis if "tok_type t = tokenString"
  proof -
    obtain o1 st1 where "decodeString t st = (o1, st1)" by fastforce
    with decodeString_well [of st t] assms(2) that show ?thesis
      by (cases o1) (auto simp: scalar_value_def promise_def decoded_well_def cxx_bind_eq_Ret)
  qed
  have const: ?thesis if "tok_type t \<in> {tokenTrue, tokenFalse, tokenNull, tokenNaN, tokenPosInf, tokenNegInf}"
    using assms(2) that by (elim insertE) (auto simp add: scalar_value_def promise_def)
  from assms(1) have "tok_type t = tokenNumber \<or> tok_type t = tokenString \<or>
      tok_type t \<in> {tokenTrue, tokenFalse, tokenNull, tokenNaN, tokenPosInf, tokenNegInf}"
    by (simp add: scalar_tokens_def)
  with num str const show ?thesis by blast
qed

lemma member_name_promise:
  assumes "member_name K L t st = Some (Ret r)"
  shows "decoded_well st r"
proof (cases "tok_type t = tokenString")
  case True
  with assms decodeString_well [of st t] show ?thesis by (simp add: member_name_def)
next
  case False
  obtain o1 st1 where "de_decodeNumber K t st = (o1, st1)" by fastforce
  with False assms number_well [of st t] show ?thesis
    by (cases o1) (auto simp: member_name_def decoded_well_def cxx_bind_eq_Ret split: if_splits)
qed

lemma array_next_delivers:
  assumes p: "promise st x"
    and again: "\<And>st' i w. length (rd_current st') < length (rd_current st) \<Longrightarrow> delivers st' (again st' i w)"
  shows "delivers st (array_next again K index v1 x)"
proof -
  obtain ok st1 w where x: "x = (ok, st1, w)" by (cases x)
  obtain token current where t: "de_skipComments K (rd_current st1) = (token, current)" by fastforce
  let ?st2 = "st1\<lparr>rd_current := current\<rparr>"
  show ?thesis
  proof (cases ok)
    case False
    with p show ?thesis by (simp add: x array_next_def delivers_Ret promise_fail_recover Let_def)
  next
    case True
    have adv: "advances st ?st2"
      using p True skip_length [of "rd_current st1"] by (simp add: x promise_def advances_def t)
    have "delivers st (again ?st2 (Suc index) w')" if "tok_type token = tokenArraySeparator" for w'
    proof -
      have "length current < length (rd_current st1)"
        using skip_progress [of "rd_current st1"] that by (simp add: t)
      with p have "length (rd_current ?st2) < length (rd_current st)" by (simp add: x promise_def)
      then show ?thesis by (rule delivers_advances [OF adv again])
    qed
    with True adv show ?thesis
      by (simp add: x array_next_def delivers_Ret promise_error_recover promise_True Let_def t)
  qed
qed

lemma array_step_delivers:
  assumes "\<And>st' x. length (rd_current st') \<le> length (rd_current st) \<Longrightarrow> delivers st' (readVal st' x)"
    and "\<And>st' i w. length (rd_current st') < length (rd_current st) \<Longrightarrow> delivers st' (again st' i w)"
  shows "delivers st (array_step readVal again K st index v)"
  unfolding array_step_def
  by (rule delivers_obind_call) (auto intro!: delivers_obind [OF assms(1)] array_next_delivers assms(2))

lemma object_next_delivers:
  assumes p: "promise st x"
    and again: "\<And>st' nm w. length (rd_current st') < length (rd_current st) \<Longrightarrow> delivers st' (again st' nm w)"
  shows "delivers st (object_next again K name v1 x)"
proof -
  obtain ok st1 w where x: "x = (ok, st1, w)" by (cases x)
  obtain comma c1 where t: "de_readToken K (rd_current st1) = (comma, c1)" by fastforce
  obtain comma' c2 where t': "(if tok_type comma = tokenComment then de_skipComments K c1 else (comma, c1)) = (comma', c2)"
    by fastforce
  have c1: "length c1 \<le> length (rd_current st1)"
    using read_length [of "rd_current st1"] by (simp add: t)
  have c2: "length c2 \<le> length c1"
    using t' skip_length [of c1] by (auto split: if_splits)
  show ?thesis
  proof (cases ok)
    case False
    with p show ?thesis by (simp add: x object_next_def delivers_Ret promise_fail_recover Let_def)
  next
    case True
    have adv: "advances st (st1\<lparr>rd_current := c1\<rparr>)" "advances st (st1\<lparr>rd_current := c2\<rparr>)"
      using p True c1 c2 by (simp_all add: x promise_def advances_def)
    have "delivers st (again (st1\<lparr>rd_current := c2\<rparr>) name w')" if "tok_type comma \<noteq> tokenEndOfStream" for w'
    proof -
      have "length c1 < length (rd_current st1)"
        using read_progress [of "rd_current st1"] that by (simp add: t)
      with p c2 have "length (rd_current (st1\<lparr>rd_current := c2\<rparr>)) < length (rd_current st)"
        by (simp add: x promise_def)
      then show ?thesis by (rule delivers_advances [OF adv(2) again])
    qed
    with True adv show ?thesis
      by (auto simp add: x object_next_def delivers_Ret promise_error_recover promise_True Let_def t t')
  qed
qed

lemma object_member_delivers:
  assumes "\<And>st' x. length (rd_current st') \<le> length (rd_current st) \<Longrightarrow> delivers st' (readVal st' x)"
    and "\<And>st' nm w. length (rd_current st') < length (rd_current st) \<Longrightarrow> delivers st' (again st' nm w)"
  shows "delivers st (object_member readVal again K tokenName name st v)"
proof -
  obtain colon current where t: "de_readToken K (rd_current st) = (colon, current)" by fastforce
  let ?st = "st\<lparr>rd_current := current\<rparr>"
  have len: "length current \<le> length (rd_current st)"
    using read_length [of "rd_current st"] by (simp add: t)
  then have adv: "advances st ?st" by (simp add: advances_def)
  have "delivers ?st (obind (readVal ?st x0) (object_next again K name v1))" for x0 v1
    using len by (intro delivers_obind [OF assms(1)] object_next_delivers assms(2)) simp_all
  then have call: "delivers st (obind (Some (resolveReference name v)) (\<lambda>(v1, x0).
      obind (readVal ?st x0) (object_next again K name v1)))"
    by (intro delivers_obind_call) (auto intro: delivers_advances [OF adv])
  have check: "delivers st r" if "de_checkName K tokenName name ?st v = Some r" for r
    using check_delivers [OF that] by (rule delivers_advances [OF adv])
  show ?thesis
    unfolding object_member_def t
    using call adv check
    by (auto simp: Let_def delivers_Ret promise_error_recover split: option.split)
qed

lemma object_step_delivers:
  assumes "\<And>st' x. length (rd_current st') < length (rd_current st) \<Longrightarrow> delivers st' (readVal st' x)"
    and "\<And>st' nm w. length (rd_current st') < length (rd_current st) \<Longrightarrow> delivers st' (again st' nm w)"
  shows "delivers st (object_step readVal again K L st name v)"
proof -
  obtain tokenName current where t: "de_skipComments K (rd_current st) = (tokenName, current)" by fastforce
  let ?st = "st\<lparr>rd_current := current\<rparr>"
  have adv: "advances st ?st"
    using skip_length [of "rd_current st"] by (simp add: advances_def t)
  have member: "delivers st (object_member readVal again K tokenName nm ?st v)"
    if "tok_type tokenName \<noteq> tokenEndOfStream" for nm
  proof -
    have "length (rd_current ?st) < length (rd_current st)"
      using skip_progress [of "rd_current st"] that by (simp add: t)
    then show ?thesis
      by (intro delivers_advances [OF adv] object_member_delivers assms) simp_all
  qed
  have cont: "delivers st (case decoded of
               None \<Rightarrow> Some (Ret (False, recover_from K tokenObjectEnd st2, v))
             | Some name' \<Rightarrow> object_member readVal again K tokenName name' st2 v)"
    if "member_name K L tokenName ?st = Some (Ret (decoded, st2))" for decoded st2
  proof (cases decoded)
    case None
    with member_name_promise [OF that] adv show ?thesis
      by (simp add: decoded_well_def delivers_Ret promise_recover advances_def)
  next
    case (Some nm)
    have "tok_type tokenName \<noteq> tokenEndOfStream" using that by (auto simp: member_name_def split: if_splits)
    with member member_name_promise [OF that] Some show ?thesis by (simp add: decoded_well_def)
  qed
  show ?thesis
    unfolding object_step_def t
    using cont adv
    by (auto simp: Let_def delivers_Ret promise_error_recover promise_True intro!: delivers_obind_call split: option.splits)
qed

lemma value_step_delivers:
  assumes obj: "\<And>st' nm w. length (rd_current st') < length (rd_current st) \<Longrightarrow> delivers st' (readObj st' nm w)"
    and arr: "\<And>st' i w. length (rd_current st') < length (rd_current st) \<Longrightarrow> delivers st' (readArr st' i w)"
  shows "delivers st (value_step readObj readArr K st v)"
proof -
  obtain token current where t: "skip_tokens K (rd_current st) = (token, current)" by fastforce
  define st1 where "st1 = st\<lparr>rd_current := current, rd_stackDepth := rd_stackDepth st + 1\<rparr>"
  define leave where "leave = (\<lambda>(ok, st', v'). Some (Ret (ok, st'\<lparr>rd_stackDepth := rd_stackDepth st' - 1\<rparr>, v' :: Value)) :: read_result)"
  have len: "length current \<le> length (rd_current st)"
    using tokens_length [of "rd_current st"] by (simp add: t)
  have less: "length current < length (rd_current st)" if "tok_type token \<noteq> tokenEndOfStream"
    using tokens_progress [of "rd_current st"] that by (simp add: t)
  have leave: "delivers st (leave x)" if "promise (st1\<lparr>rd_current := c\<rparr>) x" "length c \<le> length current" for x c
    using that len by (cases x) (auto simp: leave_def delivers_Ret promise_def st1_def)
  have st1: "st1\<lparr>rd_current := current\<rparr> = st1" by (simp add: st1_def)
  have sp: "length (skipSpaces current) \<le> length current" by (rule length_skipSpaces)
  have o1: "delivers st (obind (readObj st1 nm w) leave)" if "tok_type token = tokenObjectBegin" for nm w
  proof (rule delivers_obind [OF obj])
    show "length (rd_current st1) < length (rd_current st)" using less that by (simp add: st1_def)
    fix ok st' v'
    assume "promise st1 (ok, st', v')"
    then show "delivers st (leave (ok, st', v'))" using leave [of current] by (simp add: st1)
  qed
  have a1: "delivers st (obind (readArr (st1\<lparr>rd_current := skipSpaces current\<rparr>) i w) leave)"
    if "tok_type token = tokenArrayBegin" for i w
  proof (rule delivers_obind [OF arr])
    show "length (rd_current (st1\<lparr>rd_current := skipSpaces current\<rparr>)) < length (rd_current st)"
      using less that sp by (simp add: st1_def)
    fix ok st' v'
    assume "promise (st1\<lparr>rd_current := skipSpaces current\<rparr>) (ok, st', v')"
    then show "delivers st (leave (ok, st', v'))" by (rule leave [OF _ sp])
  qed
  have a0: "delivers st (leave (True, st1\<lparr>rd_current := snd (de_readToken K (skipSpaces current))\<rparr>, w))" for w
    using read_length [of "skipSpaces current"] sp
    by (intro leave [of current]) (auto simp: promise_def st1_def)
  have s1: "delivers st (obind (Some (scalar_value K token st1 v)) leave)" if "tok_type token \<in> set (de_scalars K)"
  proof (rule delivers_obind_call)
    fix x
    assume "scalar_value K token st1 v = Ret x"
    with that scalars have "promise st1 x" by (blast intro: scalar_value_promise)
    then show "delivers st (leave x)" using leave [of current x] by (simp add: st1)
  qed
  have start: "length (tok_start token) \<le> length (rd_current st)"
    using tokens_start [of "rd_current st"] by (simp add: t)
  have d0: "delivers st (leave (True, st1\<lparr>rd_current := tok_start token\<rparr>, NullV))"
    using start by (simp add: leave_def delivers_Ret promise_def st1_def)
  have e0: "delivers st (Some (Ret (False, addError msg token None st1, v)))" for msg
    using len by (simp add: delivers_Ret promise_def st1_def addError_def)
  show ?thesis
    unfolding value_step_def t
    using o1 a1 a0 s1 d0 e0 by (simp add: Let_def st1_def [symmetric] leave_def [symmetric])
qed

theorem descent_fuel:
  "2 * length (rd_current st) < n \<Longrightarrow> delivers st (descend_value n K L st v)"
  "2 * length (rd_current st) + 1 < n \<Longrightarrow> delivers st (descend_object n K L st nm v)"
  "2 * length (rd_current st) + 1 < n \<Longrightarrow> delivers st (descend_array n K L st i v)"
proof (induction n arbitrary: st v nm i)
  case 0
  { case 1 then show ?case by simp }
  { case 2 then show ?case by simp }
  { case 3 then show ?case by simp }
next
  case (Suc n)
  { case 1
    then show ?case using Suc.IH(2,3) by (auto intro!: value_step_delivers) }
  { case 2
    then show ?case using Suc.IH(1,2) by (auto intro!: object_step_delivers) }
  { case 3
    then show ?case using Suc.IH(1,3) by (auto intro!: array_step_delivers) }
qed

end

end
