(* ===== verification/Json_Reader.thy ===== *)
theory Json_Reader
  imports Json_Descent
begin

text \<open>
  jsoncpp's \<^verbatim>\<open>OurReader\<close> proper (\<^verbatim>\<open>src/dist/jsoncpp.cpp\<close>): the recursive-descent reader, \<^verbatim>\<open>parse\<close>, the
  formatted error messages, and \<^verbatim>\<open>CharReaderBuilder\<close> with its strict mode, which is what both the
  configuration and the job client use. \<^verbatim>\<open>currentValue()\<close>, the value a node pointer refers to, is an
  argument and part of the result. The mutual recursion runs on fuel; \<open>None\<close> is ``out of fuel'',
  and \<open>readValue_fuel\<close> shows that twice the document's length and one more is always enough, which
  is the fuel \<open>OurReader_parse\<close> gives. It rests on the lemmas of \<open>token_source\<close>: the reader is shown to
  be the descent of \<^theory_text>\<open>Json_Descent\<close> over its own lexer.
\<close>

section \<open>Skipping tokens\<close>

function skipComments :: "OurFeatures \<Rightarrow> string \<Rightarrow> Token \<times> string" where
  "skipComments F s =
     (let r = readToken F s in
      if tok_type (fst r) = tokenComment then skipComments F (snd r) else r)"
  by pat_completeness auto
termination
  by (relation "measure (\<lambda>(F, s). length s)") (auto intro: readToken_progress)

definition skipCommentTokens :: "OurFeatures \<Rightarrow> string \<Rightarrow> Token \<times> string" where
  "skipCommentTokens F s = (if allowComments F then skipComments F s else readToken F s)"

function recover_loop :: "OurFeatures \<Rightarrow> TokenType \<Rightarrow> string \<Rightarrow> string" where
  "recover_loop F skipUntilToken s =
     (let r = readToken F s in
      if tok_type (fst r) = skipUntilToken \<or> tok_type (fst r) = tokenEndOfStream then snd r
      else recover_loop F skipUntilToken (snd r))"
  by pat_completeness auto
termination
  by (relation "measure (\<lambda>(F, k, s). length s)") (auto intro: readToken_progress)

declare skipComments.simps [simp del] recover_loop.simps [simp del]

text \<open>\<^verbatim>\<open>readToken\<close> records no error, so there are none for the recovery to discard.\<close>

definition recoverFromError :: "OurFeatures \<Rightarrow> TokenType \<Rightarrow> OurReader \<Rightarrow> OurReader" where
  "recoverFromError F skipUntilToken st = st\<lparr>rd_current := recover_loop F skipUntilToken (rd_current st)\<rparr>"

definition addErrorAndRecover :: "OurFeatures \<Rightarrow> string \<Rightarrow> Token \<Rightarrow> TokenType \<Rightarrow> OurReader \<Rightarrow> OurReader" where
  "addErrorAndRecover F message token skipUntilToken st =
     recoverFromError F skipUntilToken (addError message token None st)"

section \<open>Values, objects and arrays\<close>

text \<open>The scalar cases of the switch in \<^verbatim>\<open>readValue\<close>: success, the reader and the value.\<close>

definition read_scalar :: "libc \<Rightarrow> Token \<Rightarrow> OurReader \<Rightarrow> Value \<Rightarrow> (bool \<times> OurReader \<times> Value) cxx" where
  "read_scalar L token st v =
     (case tok_type token of
        tokenNumber \<Rightarrow>
          (case decodeNumber L token st of
             (Some x, st') \<Rightarrow> Ret (True, st', x)
           | (None, st') \<Rightarrow> Ret (False, st', v))
      | tokenString \<Rightarrow>
          (case decodeString token st of
             (Some s, st') \<Rightarrow> cxx_bind (Value_of_string s) (\<lambda>x. Ret (True, st', x))
           | (None, st') \<Rightarrow> Ret (False, st', v))
      | tokenTrue \<Rightarrow> Ret (True, st, BoolV True)
      | tokenFalse \<Rightarrow> Ret (True, st, BoolV False)
      | tokenNull \<Rightarrow> Ret (True, st, NullV)
      | tokenNaN \<Rightarrow> Ret (True, st, RealV NaN)
      | tokenPosInf \<Rightarrow> Ret (True, st, RealV (Infinity False))
      | tokenNegInf \<Rightarrow> Ret (True, st, RealV (Infinity True))
      | _ \<Rightarrow> Ret (False, st, v))"

text \<open>The name of an object member: \<open>None\<close> for a token that cannot be one, which leaves the loop.\<close>

definition read_name :: "OurFeatures \<Rightarrow> libc \<Rightarrow> Token \<Rightarrow> OurReader \<Rightarrow> (string option \<times> OurReader) cxx option" where
  "read_name F L token st =
     (if tok_type token = tokenString then Some (Ret (decodeString token st))
      else if tok_type token = tokenNumber \<and> allowNumericKeys F then
        (case decodeNumber L token st of
           (Some x, st') \<Rightarrow> Some (cxx_bind (asString L x) (\<lambda>name. Ret (Some name, st')))
         | (None, st') \<Rightarrow> Some (Ret (None, st')))
      else None)"

text \<open>
  The bodies of \<^verbatim>\<open>readValue\<close>, of the loop of \<^verbatim>\<open>readObject\<close> (whose variable \<^verbatim>\<open>name\<close> lives across
  iterations) and of the loop of \<^verbatim>\<open>readArray\<close>, over the calls they make of each other.
\<close>

definition readValue_body ::
  "(OurReader \<Rightarrow> string \<Rightarrow> Value \<Rightarrow> read_result) \<Rightarrow> (OurReader \<Rightarrow> nat \<Rightarrow> Value \<Rightarrow> read_result) \<Rightarrow>
   OurFeatures \<Rightarrow> libc \<Rightarrow> OurReader \<Rightarrow> Value \<Rightarrow> read_result" where
  "readValue_body readObj readArr F L st v =
     (if rd_stackDepth st \<ge> stackLimit F
      then Some (Throw (Json_RuntimeError ''Exceeded stackLimit in readValue().''))
      else
        let (token, current) = skipCommentTokens F (rd_current st);
            st1 = st\<lparr>rd_current := current, rd_stackDepth := rd_stackDepth st + 1\<rparr>;
            leave = (\<lambda>(ok, st', v'). Some (Ret (ok, st'\<lparr>rd_stackDepth := rd_stackDepth st' - 1\<rparr>, v')))
        in if tok_type token = tokenObjectBegin then
             obind (readObj st1 [] (Value_of_type objectValue)) leave
           else if tok_type token = tokenArrayBegin then
             (let current' = skipSpaces current in
              if peekChar current' = CHR '']''
              then leave (True, st1\<lparr>rd_current := snd (readToken F current')\<rparr>, Value_of_type arrayValue)
              else obind (readArr (st1\<lparr>rd_current := current'\<rparr>) 0 (Value_of_type arrayValue)) leave)
           else if tok_type token \<in> set scalar_tokens then
             obind (Some (read_scalar L token st1 v)) leave
           else if tok_type token \<in> {tokenArraySeparator, tokenObjectEnd, tokenArrayEnd} \<and>
                   allowDroppedNullPlaceholders F then
             leave (True, st1\<lparr>rd_current := tok_start token\<rparr>, NullV)
           else Some (Ret (False, addError ''Syntax error: value, object or array expected.'' token None st1, v)))"

text \<open>In \<^verbatim>\<open>readObject\<close>: what follows a member's value (the comma or the closing brace).\<close>

definition readObject_next ::
  "(OurReader \<Rightarrow> string \<Rightarrow> Value \<Rightarrow> read_result) \<Rightarrow> OurFeatures \<Rightarrow> string \<Rightarrow> Value \<Rightarrow>
   bool \<times> OurReader \<times> Value \<Rightarrow> read_result" where
  "readObject_next again F name v1 result = (case result of (ok, st, x) \<Rightarrow>
     let v2 = member_store name x v1 in
     if \<not> ok then Some (Ret (False, recoverFromError F tokenObjectEnd st, v2))
     else
       let (comma, current) = readToken F (rd_current st) in
       if tok_type comma \<notin> {tokenObjectEnd, tokenArraySeparator, tokenComment} then
         Some (Ret (False, addErrorAndRecover F
           (''Missing '' @ [CHR 0x27] @ '','' @ [CHR 0x27] @ '' or '' @ [CHR 0x27] @ ''}'' @ [CHR 0x27] @ '' in object declaration'')
           comma tokenObjectEnd (st\<lparr>rd_current := current\<rparr>), v2))
       else
         let (comma', current') =
               (if tok_type comma = tokenComment then skipComments F current else (comma, current));
             st' = st\<lparr>rd_current := current'\<rparr>
         in if tok_type comma' = tokenObjectEnd then Some (Ret (True, st', v2))
            else again st' name v2)"

text \<open>In \<^verbatim>\<open>readObject\<close>: what follows a member's name (the colon, the duplicate test, the value).\<close>

definition readObject_member ::
  "(OurReader \<Rightarrow> Value \<Rightarrow> read_result) \<Rightarrow> (OurReader \<Rightarrow> string \<Rightarrow> Value \<Rightarrow> read_result) \<Rightarrow>
   OurFeatures \<Rightarrow> Token \<Rightarrow> string \<Rightarrow> OurReader \<Rightarrow> Value \<Rightarrow> read_result" where
  "readObject_member readVal again F tokenName name st v =
     (let (colon, current) = readToken F (rd_current st);
          st' = st\<lparr>rd_current := current\<rparr>
      in if tok_type colon \<noteq> tokenMemberSeparator then
           Some (Ret (False, addErrorAndRecover F
             (''Missing '' @ [CHR 0x27] @ '':'' @ [CHR 0x27] @ '' after object member name'') colon tokenObjectEnd st', v))
         else if int (length name) \<ge> 2 ^ 30 then Some (Throw (Json_RuntimeError ''keylength >= 2^30''))
         else obind (if rejectDupKeys F then Some (isMember name v) else Some (Ret False)) (\<lambda>dup.
           if dup then
             Some (Ret (False, addErrorAndRecover F
               (''Duplicate key: '' @ [CHR 0x27] @ name @ [CHR 0x27]) tokenName tokenObjectEnd st', v))
           else obind (Some (resolveReference name v)) (\<lambda>(v1, x0).
             obind (readVal st' x0) (readObject_next again F name v1))))"

definition readObject_body ::
  "(OurReader \<Rightarrow> Value \<Rightarrow> read_result) \<Rightarrow> (OurReader \<Rightarrow> string \<Rightarrow> Value \<Rightarrow> read_result) \<Rightarrow>
   OurFeatures \<Rightarrow> libc \<Rightarrow> OurReader \<Rightarrow> string \<Rightarrow> Value \<Rightarrow> read_result" where
  "readObject_body readVal again F L st name v =
     (let (tokenName, current) = skipComments F (rd_current st);
          st1 = st\<lparr>rd_current := current\<rparr>
      in if tok_type tokenName = tokenObjectEnd \<and> name = [] then Some (Ret (True, st1, v))
         else case read_name F L tokenName st1 of
           None \<Rightarrow> Some (Ret (False, addErrorAndRecover F
             (''Missing '' @ [CHR 0x27] @ ''}'' @ [CHR 0x27] @ '' or object member name'') tokenName tokenObjectEnd st1, v))
         | Some m \<Rightarrow> obind (Some m) (\<lambda>(decoded, st2).
             case decoded of
               None \<Rightarrow> Some (Ret (False, recoverFromError F tokenObjectEnd st2, v))
             | Some name' \<Rightarrow> readObject_member readVal again F tokenName name' st2 v))"

text \<open>In \<^verbatim>\<open>readArray\<close>: what follows an element.\<close>

definition readArray_next ::
  "(OurReader \<Rightarrow> nat \<Rightarrow> Value \<Rightarrow> read_result) \<Rightarrow> OurFeatures \<Rightarrow> nat \<Rightarrow> Value \<Rightarrow>
   bool \<times> OurReader \<times> Value \<Rightarrow> read_result" where
  "readArray_next again F index v1 result = (case result of (ok, st, x) \<Rightarrow>
     let v2 = index_store index x v1 in
     if \<not> ok then Some (Ret (False, recoverFromError F tokenArrayEnd st, v2))
     else
       let (token, current) = skipComments F (rd_current st);
           st' = st\<lparr>rd_current := current\<rparr>
       in if tok_type token \<noteq> tokenArraySeparator \<and> tok_type token \<noteq> tokenArrayEnd then
            Some (Ret (False, addErrorAndRecover F
              (''Missing '' @ [CHR 0x27] @ '','' @ [CHR 0x27] @ '' or '' @ [CHR 0x27] @ '']'' @ [CHR 0x27] @ '' in array declaration'')
              token tokenArrayEnd st', v2))
          else if tok_type token = tokenArrayEnd then Some (Ret (True, st', v2))
          else again st' (Suc index) v2)"

definition readArray_body ::
  "(OurReader \<Rightarrow> Value \<Rightarrow> read_result) \<Rightarrow> (OurReader \<Rightarrow> nat \<Rightarrow> Value \<Rightarrow> read_result) \<Rightarrow>
   OurFeatures \<Rightarrow> OurReader \<Rightarrow> nat \<Rightarrow> Value \<Rightarrow> read_result" where
  "readArray_body readVal again F st index v =
     obind (Some (index_ref index v)) (\<lambda>(v1, x0).
       obind (readVal st x0) (readArray_next again F index v1))"

function readValue :: "nat \<Rightarrow> OurFeatures \<Rightarrow> libc \<Rightarrow> OurReader \<Rightarrow> Value \<Rightarrow> read_result"
  and readObject :: "nat \<Rightarrow> OurFeatures \<Rightarrow> libc \<Rightarrow> OurReader \<Rightarrow> string \<Rightarrow> Value \<Rightarrow> read_result"
  and readArray :: "nat \<Rightarrow> OurFeatures \<Rightarrow> libc \<Rightarrow> OurReader \<Rightarrow> nat \<Rightarrow> Value \<Rightarrow> read_result" where
  "readValue 0 F L st v = None"
| "readValue (Suc n) F L st v = readValue_body (readObject n F L) (readArray n F L) F L st v"
| "readObject 0 F L st name v = None"
| "readObject (Suc n) F L st name v = readObject_body (readValue n F L) (readObject n F L) F L st name v"
| "readArray 0 F L st index v = None"
| "readArray (Suc n) F L st index v = readArray_body (readValue n F L) (readArray n F L) F st index v"
  by pat_completeness auto
termination
  by (relation "measure (\<lambda>a. case a of Inl (n, _) \<Rightarrow> n | Inr (Inl (n, _)) \<Rightarrow> n | Inr (Inr (n, _)) \<Rightarrow> n)") auto

section \<open>parse and its error messages\<close>

definition OurReader_init :: "string \<Rightarrow> OurReader" where
  "OurReader_init doc = \<lparr>rd_current = doc, rd_errors = [], rd_stackDepth = 0\<rparr>"

definition OurReader_parse ::
  "OurFeatures \<Rightarrow> libc \<Rightarrow> string \<Rightarrow> Value \<Rightarrow> (bool \<times> ErrorInfo list \<times> Value) cxx option" where
  "OurReader_parse F L doc root0 =
     obind (readValue (2 * length doc + 1) F L (OurReader_init doc) root0) (\<lambda>(successful, st, v).
       let (token, current) = skipCommentTokens F (rd_current st) in
       if failIfExtra F \<and> tok_type token \<noteq> tokenError \<and> tok_type token \<noteq> tokenEndOfStream then
         Some (Ret (False, rd_errors (addError ''Extra non-whitespace after JSON value.'' token None st), v))
       else if strictRoot F \<and> \<not> isArray v \<and> \<not> isObject v then
         Some (Ret (False, rd_errors (addError
           ''A valid JSON document must be either an array or an object value.''
           \<lparr>tok_type = tokenError, tok_start = doc, tok_end = []\<rparr> None st), v))
       else Some (Ret (successful, rd_errors st, v)))"

text \<open>The scan of \<^verbatim>\<open>getLocationLineAndColumn\<close>: \<open>pos\<close> is \<^verbatim>\<open>current\<close>, as an offset from the beginning.\<close>

fun line_scan :: "string \<Rightarrow> nat \<Rightarrow> nat \<Rightarrow> nat \<Rightarrow> nat \<Rightarrow> nat \<times> nat" where
  "line_scan [] pos location lastLineStart line = (lastLineStart, line)"
| "line_scan (c # cs) pos location lastLineStart line =
     (if \<not> pos < location then (lastLineStart, line)
      else if c = CHR 0x0D then
        (if peekChar cs = CHR 0x0A
         then line_scan (drop 1 cs) (pos + 2) location (pos + 2) (line + 1)
         else line_scan cs (pos + 1) location (pos + 1) (line + 1))
      else if c = CHR 0x0A then line_scan cs (pos + 1) location (pos + 1) (line + 1)
      else line_scan cs (pos + 1) location lastLineStart line)"

definition getLocationLineAndColumn :: "string \<Rightarrow> nat \<Rightarrow> nat \<times> int" where
  "getLocationLineAndColumn doc location =
     (let (lastLineStart, line) = line_scan doc 0 location 0 0
      in (line + 1, int location - int lastLineStart + 1))"

definition format_location :: "string \<Rightarrow> nat \<Rightarrow> string" where
  "format_location doc location =
     (let (line, column) = getLocationLineAndColumn doc location
      in ''Line '' @ to_string_nat line @ '', Column '' @ to_string_int column)"

fun getFormattedErrorMessages :: "string \<Rightarrow> ErrorInfo list \<Rightarrow> string" where
  "getFormattedErrorMessages doc [] = []"
| "getFormattedErrorMessages doc (e # es) =
     ''* '' @ format_location doc (length doc - err_start e) @ [CHR 0x0A] @
     ''  '' @ err_message e @ [CHR 0x0A] @
     (case err_extra e of
        None \<Rightarrow> []
      | Some extra \<Rightarrow> ''See '' @ format_location doc (length doc - extra) @ '' for detail.'' @ [CHR 0x0A]) @
     getFormattedErrorMessages doc es"

section \<open>CharReaderBuilder\<close>

definition settings_put :: "string \<Rightarrow> Value \<Rightarrow> Value \<Rightarrow> Value cxx" where
  "settings_put key x settings =
     cxx_bind (resolveReference key settings) (\<lambda>(s, _). Ret (member_store key x s))"

fun settings_put_all :: "(string \<times> Value) list \<Rightarrow> Value \<Rightarrow> Value cxx" where
  "settings_put_all [] settings = Ret settings"
| "settings_put_all (e # es) settings =
     cxx_bind (settings_put (fst e) (snd e) settings) (settings_put_all es)"

definition setDefaults :: "Value \<Rightarrow> Value cxx" where
  "setDefaults settings = settings_put_all
     [(''collectComments'', BoolV True),
      (''allowComments'', BoolV True),
      (''strictRoot'', BoolV False),
      (''allowDroppedNullPlaceholders'', BoolV False),
      (''allowNumericKeys'', BoolV False),
      (''allowSingleQuotes'', BoolV False),
      (''stackLimit'', IntV 1000),
      (''failIfExtra'', BoolV False),
      (''rejectDupKeys'', BoolV False),
      (''allowSpecialFloats'', BoolV False)] settings"

definition strictMode :: "Value \<Rightarrow> Value cxx" where
  "strictMode settings = settings_put_all
     [(''allowComments'', BoolV False),
      (''strictRoot'', BoolV True),
      (''allowDroppedNullPlaceholders'', BoolV False),
      (''allowNumericKeys'', BoolV False),
      (''allowSingleQuotes'', BoolV False),
      (''failIfExtra'', BoolV True),
      (''rejectDupKeys'', BoolV True),
      (''allowSpecialFloats'', BoolV False)] settings"

definition new_CharReaderBuilder :: "Value cxx" where
  "new_CharReaderBuilder = setDefaults NullV"

definition setting_bool :: "string \<Rightarrow> Value \<Rightarrow> bool cxx" where
  "setting_bool key settings = cxx_bind (member_const key settings) asBool"

definition newCharReader :: "Value \<Rightarrow> OurFeatures cxx" where
  "newCharReader settings =
     cxx_bind (setting_bool ''collectComments'' settings) (\<lambda>collectComments.
     cxx_bind (setting_bool ''allowComments'' settings) (\<lambda>allowComments.
     cxx_bind (setting_bool ''strictRoot'' settings) (\<lambda>strictRoot.
     cxx_bind (setting_bool ''allowDroppedNullPlaceholders'' settings) (\<lambda>allowDroppedNullPlaceholders.
     cxx_bind (setting_bool ''allowNumericKeys'' settings) (\<lambda>allowNumericKeys.
     cxx_bind (setting_bool ''allowSingleQuotes'' settings) (\<lambda>allowSingleQuotes.
     cxx_bind (cxx_bind (member_const ''stackLimit'' settings) asInt) (\<lambda>stackLimit.
     cxx_bind (setting_bool ''failIfExtra'' settings) (\<lambda>failIfExtra.
     cxx_bind (setting_bool ''rejectDupKeys'' settings) (\<lambda>rejectDupKeys.
     cxx_bind (setting_bool ''allowSpecialFloats'' settings) (\<lambda>allowSpecialFloats.
     Ret \<lparr>allowComments = allowComments, strictRoot = strictRoot,
          allowDroppedNullPlaceholders = allowDroppedNullPlaceholders,
          allowNumericKeys = allowNumericKeys, allowSingleQuotes = allowSingleQuotes,
          failIfExtra = failIfExtra, rejectDupKeys = rejectDupKeys,
          allowSpecialFloats = allowSpecialFloats, stackLimit = sint stackLimit\<rparr>))))))))))"

text \<open>\<^verbatim>\<open>jsonfactory.strictMode(&jsonfactory.settings_)\<close> and then \<^verbatim>\<open>newCharReader()\<close>.\<close>

definition strict_reader :: "OurFeatures cxx" where
  "strict_reader = cxx_bind new_CharReaderBuilder (\<lambda>s. cxx_bind (strictMode s) newCharReader)"

definition strict_features :: OurFeatures where
  "strict_features = \<lparr>allowComments = False, strictRoot = True, allowDroppedNullPlaceholders = False,
     allowNumericKeys = False, allowSingleQuotes = False, failIfExtra = True, rejectDupKeys = True,
     allowSpecialFloats = False, stackLimit = 1000\<rparr>"

text \<open>The reader the daemon and every worker build: a builder switched to strict mode.\<close>

lemma strict_reader_features: "strict_reader = Ret strict_features"
  by code_simp

text \<open>
  \<^verbatim>\<open>OurCharReader::parse\<close> on a fresh null root: success, the formatted errors, the root. The branch
  for exhausted fuel is never taken (\<open>OurReader_parse_total\<close>).
\<close>

definition OurCharReader_parse :: "OurFeatures \<Rightarrow> libc \<Rightarrow> string \<Rightarrow> (bool \<times> string \<times> Value) cxx" where
  "OurCharReader_parse F L doc =
     (case OurReader_parse F L doc NullV of
        None \<Rightarrow> Terminate
      | Some r \<Rightarrow> cxx_bind r (\<lambda>(ok, errors, v). Ret (ok, getFormattedErrorMessages doc errors, v)))"

text \<open>
  The global functions on streams: the text is all that the stream still holds, \<open>root0\<close> what the
  caller's value was before. \<open>stream_extract\<close> is \<^verbatim>\<open>operator>>\<close>, without its line on \<^verbatim>\<open>stderr\<close>.
\<close>

definition parseFromStream :: "libc \<Rightarrow> Value \<Rightarrow> string \<Rightarrow> Value \<Rightarrow> (bool \<times> string \<times> Value) cxx" where
  "parseFromStream L settings doc root0 =
     cxx_bind (newCharReader settings) (\<lambda>F.
       case OurReader_parse F L doc root0 of
         None \<Rightarrow> Terminate
       | Some r \<Rightarrow> cxx_bind r (\<lambda>(ok, errors, v). Ret (ok, getFormattedErrorMessages doc errors, v)))"

definition stream_extract :: "libc \<Rightarrow> string \<Rightarrow> Value \<Rightarrow> Value cxx" where
  "stream_extract L doc root0 =
     cxx_bind new_CharReaderBuilder (\<lambda>b.
     cxx_bind (parseFromStream L b doc root0) (\<lambda>(ok, errs, root).
     if \<not> ok then Throw (Json_RuntimeError ''reader error'') else Ret root))"

text \<open>The other accounts of the last parse, and the check of a builder's settings.\<close>

record StructuredError =
  offset_start :: nat
  offset_limit :: nat
  se_message :: string

definition getStructuredErrors :: "string \<Rightarrow> ErrorInfo list \<Rightarrow> StructuredError list" where
  "getStructuredErrors doc errors =
     map (\<lambda>e. \<lparr>offset_start = length doc - err_start e, offset_limit = nat (int (length doc) - err_end e),
               se_message = err_message e\<rparr>) errors"

definition OurReader_good :: "ErrorInfo list \<Rightarrow> bool" where
  "OurReader_good errors \<longleftrightarrow> length errors = 0"

definition getValidReaderKeys :: "string list" where
  "getValidReaderKeys = fold set_insert
     [''collectComments'', ''allowComments'', ''strictRoot'', ''allowDroppedNullPlaceholders'', ''allowNumericKeys'',
      ''allowSingleQuotes'', ''stackLimit'', ''failIfExtra'', ''rejectDupKeys'', ''allowSpecialFloats''] []"

fun invalid_settings :: "string list \<Rightarrow> Value \<Rightarrow> Value \<Rightarrow> Value cxx" where
  "invalid_settings [] settings bad = Ret bad"
| "invalid_settings (key # keys) settings bad =
     (if set_count key getValidReaderKeys = 0
      then cxx_bind (member_const key settings) (\<lambda>x.
             cxx_bind (settings_put key x bad) (invalid_settings keys settings))
      else invalid_settings keys settings bad)"

definition settings_validate :: "Value \<Rightarrow> Value \<Rightarrow> (bool \<times> Value) cxx" where
  "settings_validate settings invalid =
     cxx_bind (getMemberNames settings) (\<lambda>keys.
     cxx_bind (invalid_settings keys settings invalid) (\<lambda>bad. Ret (json_size bad = 0, bad)))"

text \<open>The features of a builder that was not changed: comments, any root, 1000 levels.\<close>

definition default_features :: OurFeatures where
  "default_features = \<lparr>allowComments = True, strictRoot = False, allowDroppedNullPlaceholders = False,
     allowNumericKeys = False, allowSingleQuotes = False, failIfExtra = False, rejectDupKeys = False,
     allowSpecialFloats = False, stackLimit = 1000\<rparr>"

lemma default_reader_features: "cxx_bind new_CharReaderBuilder newCharReader = Ret default_features"
  by code_simp

text \<open>On the result of a parse with the default features, \<^verbatim>\<open>operator>>\<close> returns the value or throws.\<close>

lemma stream_extract_Ret:
  assumes "OurReader_parse default_features L doc root0 = Some (Ret (ok, errors, v))"
  shows "stream_extract L doc root0 = (if ok then Ret v else Throw (Json_RuntimeError ''reader error''))"
proof -
  obtain b where b: "new_CharReaderBuilder = Ret b" "newCharReader b = Ret default_features"
    using default_reader_features by (auto simp: cxx_bind_eq_Ret)
  show ?thesis by (simp add: stream_extract_def parseFromStream_def b assms)
qed

text \<open>The strict settings are valid; a misspelt key is found and returned.\<close>

lemma strict_settings_valid:
  "cxx_bind new_CharReaderBuilder (\<lambda>s. cxx_bind (strictMode s) (\<lambda>s. settings_validate s NullV)) = Ret (True, NullV)"
  by code_simp

lemma misspelt_setting_found:
  "settings_validate (ObjectV [(''stackLimt'', IntV 5)]) NullV = Ret (False, ObjectV [(''stackLimt'', IntV 5)])"
  by code_simp

section \<open>The reader is a descent: it terminates, and reports an error exactly when it fails\<close>

definition check_name :: "OurFeatures \<Rightarrow> Token \<Rightarrow> string \<Rightarrow> OurReader \<Rightarrow> Value \<Rightarrow> read_result option" where
  "check_name F tokenName name st v =
     (if int (length name) \<ge> 2 ^ 30 then Some (Some (Throw (Json_RuntimeError ''keylength >= 2^30'')))
      else if \<not> rejectDupKeys F then None
      else case isMember name v of
        Ret dup \<Rightarrow>
          if dup then Some (Some (Ret (False, addErrorAndRecover F
            (''Duplicate key: '' @ [CHR 0x27] @ name @ [CHR 0x27]) tokenName tokenObjectEnd st, v)))
          else None
      | Throw e \<Rightarrow> Some (Some (Throw e))
      | Terminate \<Rightarrow> Some (Some Terminate))"

definition our_descent :: "OurFeatures \<Rightarrow> libc \<Rightarrow> Descent" where
  "our_descent F L = \<lparr>de_readToken = readToken F, de_skipComments = skipComments F, de_recover = recover_loop F,
     de_allowComments = allowComments F, de_droppedNull = allowDroppedNullPlaceholders F,
     de_numericKeys = allowNumericKeys F, de_stackLimit = stackLimit F, de_scalars = scalar_tokens,
     de_decodeNumber = decodeNumber L, de_checkName = check_name F\<rparr>"

lemma our_descent_sel [simp]:
  "de_readToken (our_descent F L) = readToken F" "de_skipComments (our_descent F L) = skipComments F"
  "de_recover (our_descent F L) = recover_loop F" "de_allowComments (our_descent F L) = allowComments F"
  "de_droppedNull (our_descent F L) = allowDroppedNullPlaceholders F" "de_numericKeys (our_descent F L) = allowNumericKeys F"
  "de_stackLimit (our_descent F L) = stackLimit F" "de_scalars (our_descent F L) = scalar_tokens"
  "de_decodeNumber (our_descent F L) = decodeNumber L" "de_checkName (our_descent F L) = check_name F"
  by (simp_all add: our_descent_def)

lemma our_descent_parts [simp]:
  "skip_tokens (our_descent F L) = skipCommentTokens F"
  "recover_from (our_descent F L) = recoverFromError F"
  "error_and_recover (our_descent F L) = addErrorAndRecover F"
  "scalar_value (our_descent F L) = read_scalar L"
  "member_name (our_descent F L) L = read_name F L"
  by (intro ext; unfold skip_tokens_def skipCommentTokens_def recover_from_def recoverFromError_def error_and_recover_def
      addErrorAndRecover_def scalar_value_def read_scalar_def member_name_def read_name_def our_descent_sel; rule refl)+

lemma our_descent_steps:
  "readValue_body readObj readArr F L = value_step readObj readArr (our_descent F L)"
  "readObject_next again F = object_next again (our_descent F L)"
  "readArray_next again2 F = array_next again2 (our_descent F L)"
  by (intro ext; unfold readValue_body_def value_step_def readObject_next_def object_next_def readArray_next_def array_next_def
      our_descent_sel our_descent_parts; rule refl)+

lemma check_name_return:
  "(if int (length name) \<ge> 2 ^ 30 then Some (Throw (Json_RuntimeError ''keylength >= 2^30''))
    else obind (if rejectDupKeys F then Some (isMember name v) else Some (Ret False)) (\<lambda>dup.
      if dup then Some (Ret (False, addErrorAndRecover F (''Duplicate key: '' @ [CHR 0x27] @ name @ [CHR 0x27]) t tokenObjectEnd st, v))
      else r)) = (case check_name F t name st v of Some r' \<Rightarrow> r' | None \<Rightarrow> r)"
  by (cases "isMember name v") (simp_all add: check_name_def obind_def)

lemma our_descent_member:
  "readObject_member readVal again F tokenName name st v = object_member readVal again (our_descent F L) tokenName name st v"
  unfolding readObject_member_def object_member_def our_descent_sel our_descent_parts our_descent_steps(2) [of again F L]
    check_name_return by (rule refl)

lemma our_descent_loops:
  "readObject_body readVal again F L = object_step readVal again (our_descent F L) L"
  "readArray_body readVal again2 F = array_step readVal again2 (our_descent F L)"
  by (intro ext; unfold readObject_body_def object_step_def our_descent_member [of _ _ _ _ _ _ _ L] readArray_body_def array_step_def
      our_descent_steps(3) [of again2 F L] our_descent_sel our_descent_parts; rule refl)+

lemma readValue_is_descent:
  "readValue n F L st v = descend_value n (our_descent F L) L st v"
  "readObject n F L st nm v = descend_object n (our_descent F L) L st nm v"
  "readArray n F L st i v = descend_array n (our_descent F L) L st i v"
proof (induction n arbitrary: st v nm i)
  case 0
  { case 1 then show ?case by simp }
  { case 2 then show ?case by simp }
  { case 3 then show ?case by simp }
next
  case (Suc n)
  then have IH: "readValue n F L = descend_value n (our_descent F L) L" "readObject n F L = descend_object n (our_descent F L) L"
    "readArray n F L = descend_array n (our_descent F L) L" by blast+
  { case 1 then show ?case by (simp add: IH our_descent_steps) }
  { case 2 then show ?case by (simp add: IH our_descent_loops) }
  { case 3 then show ?case by (simp add: IH our_descent_loops [where L = L]) }
qed

lemma length_start_readToken: "length (tok_start (fst (readToken F s))) \<le> length s"
  using length_skipSpaces [of s] by (simp add: readToken_def Let_def split: prod.splits)

lemma decodeNumber_well: "decoded_well st (decodeNumber L t st)"
  by (simp add: decoded_well_def decodeNumber_def decodeDouble_def addError_def Let_def split: option.split)

lemma length_recover_loop: "length (recover_loop F k s) \<le> length s"
proof (induction F k s rule: recover_loop.induct)
  case (1 F k s)
  then show ?case
    using length_readToken [of F s] by (subst recover_loop.simps) (auto simp: Let_def intro: order_trans)
qed

lemma check_name_delivers: "check_name F t name st v = Some r \<Longrightarrow> delivers st r"
  using length_recover_loop [of F tokenObjectEnd "rd_current st"]
  by (auto simp: check_name_def delivers_def promise_def addErrorAndRecover_def recoverFromError_def addError_def
      split: if_splits cxx.splits)

interpretation our: token_source "our_descent F L"
proof
  show "length (snd (de_readToken (our_descent F L) s)) \<le> length s" for s by (simp add: length_readToken)
  show "length (tok_start (fst (de_readToken (our_descent F L) s))) \<le> length s" for s by (simp add: length_start_readToken)
  show "de_skipComments (our_descent F L) s = (let r = de_readToken (our_descent F L) s in
      if tok_type (fst r) = tokenComment then de_skipComments (our_descent F L) (snd r) else r)" for s
    using skipComments.simps [of F s] unfolding our_descent_sel .
  show "de_recover (our_descent F L) k s = (let r = de_readToken (our_descent F L) s in
      if tok_type (fst r) = k \<or> tok_type (fst r) = tokenEndOfStream then snd r
      else de_recover (our_descent F L) k (snd r))" for k s
    using recover_loop.simps [of F k s] unfolding our_descent_sel .
qed (simp_all add: readToken_progress decodeNumber_well check_name_delivers)

theorem readValue_fuel:
  "2 * length (rd_current st) < n \<Longrightarrow> delivers st (readValue n F L st v)"
  unfolding readValue_is_descent by (rule our.descent_fuel)

lemma OurReader_parse_cases:
  obtains (returns) ok errors v where "OurReader_parse F L doc v0 = Some (Ret (ok, errors, v))" "ok \<longleftrightarrow> errors = []"
  | (throws) e where "OurReader_parse F L doc v0 = Some (Throw e)"
  | (terminates) "OurReader_parse F L doc v0 = Some Terminate"
proof -
  define r where "r = readValue (2 * length doc + 1) F L (OurReader_init doc) v0"
  have d: "delivers (OurReader_init doc) r"
    unfolding r_def by (rule readValue_fuel) (simp add: OurReader_init_def)
  have p: "OurReader_parse F L doc v0 = obind r (\<lambda>(successful, st, v).
       let (token, current) = skipCommentTokens F (rd_current st) in
       if failIfExtra F \<and> tok_type token \<noteq> tokenError \<and> tok_type token \<noteq> tokenEndOfStream then
         Some (Ret (False, rd_errors (addError ''Extra non-whitespace after JSON value.'' token None st), v))
       else if strictRoot F \<and> \<not> isArray v \<and> \<not> isObject v then
         Some (Ret (False, rd_errors (addError
           ''A valid JSON document must be either an array or an object value.''
           \<lparr>tok_type = tokenError, tok_start = doc, tok_end = []\<rparr> None st), v))
       else Some (Ret (successful, rd_errors st, v)))"
    by (simp add: OurReader_parse_def r_def del: readValue.simps)
  obtain m where m: "r = Some m" using d by (cases r) (auto simp: delivers_def)
  show ?thesis
  proof (cases m)
    case (Ret x)
    obtain ok st v where x: "x = (ok, st, v)" by (cases x)
    obtain token current where t: "skipCommentTokens F (rd_current st) = (token, current)" by fastforce
    have "ok \<longleftrightarrow> rd_errors st = []"
      using d by (auto simp: m Ret x delivers_def promise_def OurReader_init_def)
    then have "\<exists>ok' errors. OurReader_parse F L doc v0 = Some (Ret (ok', errors, v)) \<and> (ok' \<longleftrightarrow> errors = [])"
      by (simp add: p obind_def m Ret x t Let_def addError_def)
    with returns show ?thesis by blast
  qed (auto simp: p obind_def m intro: that)
qed

theorem OurReader_parse_total: "OurReader_parse F L doc v0 \<noteq> None"
  by (cases rule: OurReader_parse_cases [of F L doc v0]) simp_all

end
