(* ===== verification/Config.thy ===== *)
theory Config
  imports Json_Reader
begin

text \<open>
  \<^verbatim>\<open>DriveshaftConfig\<close> (\<^verbatim>\<open>src/driveshaft-config.h\<close>, \<^verbatim>\<open>src/driveshaft-config.cpp\<close>): reading the jobs
  configuration, comparing two configurations, and telling a \<^verbatim>\<open>PoolWatcher\<close> what changed.
  The JSON reader is the argument \<open>parse\<close> (the abstract class \<^verbatim>\<open>Json::CharReader\<close>), the watcher the
  argument \<open>inform\<close> (the abstract class \<^verbatim>\<open>PoolWatcher\<close>), and the file system and clock the record
  \<open>config_env\<close>. The methods that modify the object before they throw return the object next to
  the outcome. The locale \<open>pool_watcher\<close> states what a watcher promises and derives what a change
  of configuration achieves.
\<close>

section \<open>State\<close>

record PoolData =
  worker_count :: u32
  job_processing_uri :: string
  job_list :: "string list"

type_synonym PoolMap = "(string \<times> PoolData) list"

record DriveshaftConfig =
  m_config_filename :: string
  m_server_list :: "string list"
  m_pool_map :: PoolMap
  m_load_time :: int

text \<open>
  \<open>env_mtime\<close> is \<^verbatim>\<open>boost::filesystem::last_write_time\<close> (\<open>None\<close>: an error code), \<open>env_read\<close> the contents
  of a file that can be opened, \<open>env_now\<close> is \<^verbatim>\<open>std::time\<close>.
\<close>

record config_env =
  env_mtime :: "string \<Rightarrow> int option"
  env_read :: "string \<Rightarrow> string option"
  env_now :: int

type_synonym json_parser = "string \<Rightarrow> (bool \<times> string \<times> Value) cxx"

definition GEARMAN_SERVERS_LIST :: string where "GEARMAN_SERVERS_LIST = ''gearman_servers_list''"
definition POOLS_LIST :: string where "POOLS_LIST = ''pools_list''"
definition POOL_WORKER_COUNT :: string where "POOL_WORKER_COUNT = ''worker_count''"
definition POOL_JOB_LIST :: string where "POOL_JOB_LIST = ''jobs_list''"
definition POOL_JOB_PROCESSING_URI :: string where "POOL_JOB_PROCESSING_URI = ''job_processing_uri''"

lemmas cfgkeys = GEARMAN_SERVERS_LIST_def POOLS_LIST_def POOL_WORKER_COUNT_def POOL_JOB_LIST_def
  POOL_JOB_PROCESSING_URI_def

definition new_DriveshaftConfig :: DriveshaftConfig where
  "new_DriveshaftConfig =
     \<lparr>m_config_filename = [], m_server_list = [], m_pool_map = [], m_load_time = 0\<rparr>"

section \<open>Reading a configuration\<close>

definition validateConfigNode :: "Value \<Rightarrow> bool cxx" where
  "validateConfigNode node =
     cxx_bind (isMember GEARMAN_SERVERS_LIST node) (\<lambda>has_servers.
     if \<not> has_servers then Ret False else
     cxx_bind (isMember POOLS_LIST node) (\<lambda>has_pools.
     if \<not> has_pools then Ret False else
     cxx_bind (member_const GEARMAN_SERVERS_LIST node) (\<lambda>servers.
     if \<not> isArray servers then Ret False else
     cxx_bind (member_const POOLS_LIST node) (\<lambda>pools.
     Ret (isObject pools)))))"

text \<open>The loops over a JSON list keep what they inserted before an exception.\<close>

fun server_loop :: "libc \<Rightarrow> Value list \<Rightarrow> string list \<Rightarrow> unit cxx \<times> string list" where
  "server_loop L [] servers = (Ret (), servers)"
| "server_loop L (i # is) servers =
     (if \<not> isString i then (Throw (Runtime_error ''config server list type failure''), servers)
      else case asString L i of
        Ret name \<Rightarrow> server_loop L is (set_insert name servers)
      | Throw e \<Rightarrow> (Throw e, servers)
      | Terminate \<Rightarrow> (Terminate, servers))"

definition parseServerList :: "libc \<Rightarrow> Value \<Rightarrow> DriveshaftConfig \<Rightarrow> unit cxx \<times> DriveshaftConfig" where
  "parseServerList L node cfg =
     (case member_const GEARMAN_SERVERS_LIST node of
        Ret servers_list \<Rightarrow>
          (let (r, servers) = server_loop L (iter_values servers_list) (m_server_list cfg)
           in (r, cfg\<lparr>m_server_list := servers\<rparr>))
      | Throw e \<Rightarrow> (Throw e, cfg)
      | Terminate \<Rightarrow> (Terminate, cfg))"

text \<open>The condition on a pool's node, evaluated from left to right as \<^verbatim>\<open>||\<close> does.\<close>

definition pool_node_ok :: "Value \<Rightarrow> bool cxx" where
  "pool_node_ok pool_node =
     cxx_bind (isMember POOL_WORKER_COUNT pool_node) (\<lambda>a. if \<not> a then Ret False else
     cxx_bind (isMember POOL_JOB_LIST pool_node) (\<lambda>b. if \<not> b then Ret False else
     cxx_bind (isMember POOL_JOB_PROCESSING_URI pool_node) (\<lambda>c. if \<not> c then Ret False else
     cxx_bind (member_const POOL_WORKER_COUNT pool_node) (\<lambda>n. if \<not> isUInt n then Ret False else
     cxx_bind (member_const POOL_JOB_LIST pool_node) (\<lambda>j. if \<not> isArray j then Ret False else
     cxx_bind (member_const POOL_JOB_PROCESSING_URI pool_node) (\<lambda>u. Ret (isString u)))))))"

text \<open>A job name that is not a string is only logged; what follows is its conversion to a string.\<close>

fun job_loop :: "libc \<Rightarrow> Value list \<Rightarrow> string list \<Rightarrow> unit cxx \<times> string list" where
  "job_loop L [] jobs = (Ret (), jobs)"
| "job_loop L (j # js) jobs =
     (case asString L j of
        Ret name \<Rightarrow> job_loop L js (set_insert name jobs)
      | Throw e \<Rightarrow> (Throw e, jobs)
      | Terminate \<Rightarrow> (Terminate, jobs))"

definition pool_fields :: "libc \<Rightarrow> Value \<Rightarrow> (u32 \<times> string \<times> Value) cxx" where
  "pool_fields L pool_node =
     cxx_bind (cxx_bind (member_const POOL_WORKER_COUNT pool_node) asUInt) (\<lambda>count.
     cxx_bind (cxx_bind (member_const POOL_JOB_PROCESSING_URI pool_node) (asString L)) (\<lambda>uri.
     cxx_bind (member_const POOL_JOB_LIST pool_node) (\<lambda>jobs. Ret (count, uri, jobs))))"

definition parsePool :: "libc \<Rightarrow> string \<Rightarrow> Value \<Rightarrow> PoolMap \<Rightarrow> unit cxx \<times> PoolMap" where
  "parsePool L pool_name pool_node pools =
     (case cxx_bind (pool_node_ok pool_node) (\<lambda>valid.
             if \<not> valid then Throw (Runtime_error ''config jobs list parse failure'')
             else pool_fields L pool_node) of
        Ret (count, uri, jobs_node) \<Rightarrow>
          (let old_jobs = (case map_find pool_name pools of None \<Rightarrow> [] | Some d \<Rightarrow> job_list d);
               (r, jobs) = job_loop L (iter_values jobs_node) old_jobs
           in (r, map_put pool_name \<lparr>worker_count = count, job_processing_uri = uri, job_list = jobs\<rparr> pools))
      | Throw e \<Rightarrow> (Throw e, pools)
      | Terminate \<Rightarrow> (Terminate, pools))"

fun pool_loop :: "libc \<Rightarrow> (string \<times> Value) list \<Rightarrow> PoolMap \<Rightarrow> unit cxx \<times> PoolMap" where
  "pool_loop L [] pools = (Ret (), pools)"
| "pool_loop L (i # is) pools =
     (let (r, pools') = parsePool L (fst i) (snd i) pools in
      case r of Ret _ \<Rightarrow> pool_loop L is pools' | _ \<Rightarrow> (r, pools'))"

definition parsePoolList :: "libc \<Rightarrow> Value \<Rightarrow> DriveshaftConfig \<Rightarrow> unit cxx \<times> DriveshaftConfig" where
  "parsePoolList L node cfg =
     (case member_const POOLS_LIST node of
        Ret pools_list \<Rightarrow>
          (let (r, pools) = pool_loop L (iter_names pools_list) (m_pool_map cfg)
           in (r, cfg\<lparr>m_pool_map := pools\<rparr>))
      | Throw e \<Rightarrow> (Throw e, cfg)
      | Terminate \<Rightarrow> (Terminate, cfg))"

text \<open>The part of \<^verbatim>\<open>parseConfig\<close> that runs before the object is modified, and the part after.\<close>

definition parsed_tree :: "json_parser \<Rightarrow> string \<Rightarrow> Value cxx" where
  "parsed_tree parse config_data =
     cxx_bind (parse config_data) (\<lambda>(ok, parse_errors, tree).
       if \<not> ok then Throw (Runtime_error ''config parse failure'')
       else cxx_bind (validateConfigNode tree) (\<lambda>valid.
         if \<not> valid then Throw (Runtime_error ''config parse failure'') else Ret tree))"

definition read_tree :: "libc \<Rightarrow> Value \<Rightarrow> DriveshaftConfig \<Rightarrow> bool cxx \<times> DriveshaftConfig" where
  "read_tree L tree cfg1 =
     (let (r, cfg2) = parseServerList L tree cfg1
      in case r of
           Ret _ \<Rightarrow> (let (r', cfg3) = parsePoolList L tree cfg2 in (cxx_bind r' (\<lambda>_. Ret True), cfg3))
         | Throw e \<Rightarrow> (Throw e, cfg2)
         | Terminate \<Rightarrow> (Terminate, cfg2))"

definition parseConfig ::
  "libc \<Rightarrow> json_parser \<Rightarrow> config_env \<Rightarrow> string \<Rightarrow> DriveshaftConfig \<Rightarrow> bool cxx \<times> DriveshaftConfig" where
  "parseConfig L parse env config_data cfg =
     (case parsed_tree parse config_data of
        Ret tree \<Rightarrow> read_tree L tree (cfg\<lparr>m_load_time := env_now env, m_server_list := [], m_pool_map := []\<rparr>)
      | Throw e \<Rightarrow> (Throw e, cfg)
      | Terminate \<Rightarrow> (Terminate, cfg))"

definition needsConfigUpdate :: "config_env \<Rightarrow> string \<Rightarrow> DriveshaftConfig \<Rightarrow> bool cxx" where
  "needsConfigUpdate env new_config_filename cfg =
     (case env_mtime env new_config_filename of
        None \<Rightarrow> Throw (Runtime_error ''config stat failure'')
      | Some modified_time \<Rightarrow> Ret (modified_time > m_load_time cfg))"

definition fetchFileContents :: "config_env \<Rightarrow> string \<Rightarrow> string cxx" where
  "fetchFileContents env filename =
     (case env_read env filename of
        None \<Rightarrow> Throw (Runtime_error ''config read failure'')
      | Some contents \<Rightarrow> Ret contents)"

definition load ::
  "libc \<Rightarrow> json_parser \<Rightarrow> config_env \<Rightarrow> string \<Rightarrow> DriveshaftConfig \<Rightarrow> bool cxx \<times> DriveshaftConfig" where
  "load L parse env config_filename cfg =
     (case needsConfigUpdate env config_filename cfg of
        Ret needs \<Rightarrow>
          (if \<not> needs then (Ret False, cfg)
           else
             let cfg1 = cfg\<lparr>m_config_filename := config_filename\<rparr> in
             case fetchFileContents env config_filename of
               Ret contents \<Rightarrow> parseConfig L parse env contents cfg1
             | Throw e \<Rightarrow> (Throw e, cfg1)
             | Terminate \<Rightarrow> (Terminate, cfg1))
      | Throw e \<Rightarrow> (Throw e, cfg)
      | Terminate \<Rightarrow> (Terminate, cfg))"

section \<open>Comparing and superseding configurations\<close>

definition should_restart :: "PoolData \<Rightarrow> PoolData \<Rightarrow> bool" where
  "should_restart mine found =
     (if job_processing_uri found \<noteq> job_processing_uri mine then True
      else length (set_symmetric_difference (job_list mine) (job_list found)) \<noteq> 0)"

fun restart_loop :: "PoolMap \<Rightarrow> PoolMap \<Rightarrow> string list \<times> string list \<Rightarrow> string list \<times> string list" where
  "restart_loop [] that acc = acc"
| "restart_loop (i # is) that (pools_turn_off, pools_turn_on) =
     restart_loop is that
       (case map_find (fst i) that of
          None \<Rightarrow> (pools_turn_off, pools_turn_on)
        | Some found \<Rightarrow>
            if should_restart (snd i) found
            then (set_insert (fst i) pools_turn_off, set_insert (fst i) pools_turn_on)
            else (pools_turn_off, pools_turn_on))"

definition compare :: "DriveshaftConfig \<Rightarrow> DriveshaftConfig \<Rightarrow> string list \<times> string list" where
  "compare this that =
     (let current_pool_names = map_keys (m_pool_map this);
          latest_pool_names = map_keys (m_pool_map that)
      in if m_server_list this \<noteq> m_server_list that then (current_pool_names, latest_pool_names)
         else
           let pools_turn_off = set_difference current_pool_names latest_pool_names;
               pools_turn_on = set_difference latest_pool_names current_pool_names
           in restart_loop (m_pool_map this) (m_pool_map that) (pools_turn_off, pools_turn_on))"

text \<open>\<^verbatim>\<open>PoolWatcher::inform\<close>: worker count, pool, servers, jobs, URI.\<close>

type_synonym 'w informer = "u32 \<Rightarrow> string \<Rightarrow> string list \<Rightarrow> string list \<Rightarrow> string \<Rightarrow> 'w \<Rightarrow> 'w cxx"

definition clearWorkerCount ::
  "'w informer \<Rightarrow> string \<Rightarrow> DriveshaftConfig \<Rightarrow> 'w \<Rightarrow> (DriveshaftConfig \<times> 'w) cxx" where
  "clearWorkerCount inform pool_name cfg w =
     (case map_find pool_name (m_pool_map cfg) of
        None \<Rightarrow> Throw (Runtime_error ''invalid config detected in clearWorkerCounts'')
      | Some pool_data \<Rightarrow>
          let cfg' = cfg\<lparr>m_pool_map := map_put pool_name (pool_data\<lparr>worker_count := 0\<rparr>) (m_pool_map cfg)\<rparr> in
          cxx_bind (inform 0 pool_name (m_server_list cfg) (job_list pool_data) (job_processing_uri pool_data) w)
            (\<lambda>w'. Ret (cfg', w')))"

fun clear_loop ::
  "'w informer \<Rightarrow> string list \<Rightarrow> DriveshaftConfig \<Rightarrow> 'w \<Rightarrow> (DriveshaftConfig \<times> 'w) cxx" where
  "clear_loop inform [] cfg w = Ret (cfg, w)"
| "clear_loop inform (pool # pools) cfg w =
     cxx_bind (clearWorkerCount inform pool cfg w) (\<lambda>(cfg', w'). clear_loop inform pools cfg' w')"

definition clearAllWorkerCounts ::
  "'w informer \<Rightarrow> DriveshaftConfig \<Rightarrow> 'w \<Rightarrow> (DriveshaftConfig \<times> 'w) cxx" where
  "clearAllWorkerCounts inform cfg w = clear_loop inform (map_keys (m_pool_map cfg)) cfg w"

fun inform_loop :: "'w informer \<Rightarrow> string list \<Rightarrow> PoolMap \<Rightarrow> 'w \<Rightarrow> 'w cxx" where
  "inform_loop inform servers [] w = Ret w"
| "inform_loop inform servers (i # is) w =
     cxx_bind (inform (worker_count (snd i)) (fst i) servers (job_list (snd i)) (job_processing_uri (snd i)) w)
       (inform_loop inform servers is)"

text \<open>\<^verbatim>\<open>new.supersede(old, watcher)\<close>: the old configuration as modified, and the watcher.\<close>

definition supersede ::
  "'w informer \<Rightarrow> DriveshaftConfig \<Rightarrow> DriveshaftConfig \<Rightarrow> 'w \<Rightarrow> (DriveshaftConfig \<times> 'w) cxx" where
  "supersede inform this old w =
     (let pools_to_shut = fst (compare old this) in
      cxx_bind (clear_loop inform pools_to_shut old w) (\<lambda>(old', w').
      cxx_bind (inform_loop inform (m_server_list this) (m_pool_map this) w') (\<lambda>w''.
      Ret (old', w''))))"

section \<open>Well-formedness\<close>

definition config_inv :: "DriveshaftConfig \<Rightarrow> bool" where
  "config_inv cfg \<longleftrightarrow> set_inv (m_server_list cfg) \<and> map_inv (m_pool_map cfg) \<and>
     (\<forall>p d. map_find p (m_pool_map cfg) = Some d \<longrightarrow> set_inv (job_list d))"

lemma config_inv_new [simp]: "config_inv new_DriveshaftConfig"
  by (simp add: config_inv_def new_DriveshaftConfig_def)

lemma config_invD:
  assumes "config_inv cfg"
  shows "set_inv (m_server_list cfg)" "map_inv (m_pool_map cfg)"
    "map_find p (m_pool_map cfg) = Some d \<Longrightarrow> set_inv (job_list d)" "set_inv (map_keys (m_pool_map cfg))"
  using assms by (auto simp: config_inv_def map_inv_def)

text \<open>Every parse keeps the configuration well formed, also one that throws half way.\<close>

definition pools_inv :: "PoolMap \<Rightarrow> bool" where
  "pools_inv pools \<longleftrightarrow> map_inv pools \<and> (\<forall>p d. map_find p pools = Some d \<longrightarrow> set_inv (job_list d))"

lemma pools_invD: "pools_inv pools \<Longrightarrow> map_find p pools = Some d \<Longrightarrow> set_inv (job_list d)"
  by (simp add: pools_inv_def)

lemma config_inv_pools: "config_inv cfg \<longleftrightarrow> set_inv (m_server_list cfg) \<and> pools_inv (m_pool_map cfg)"
  by (simp add: config_inv_def pools_inv_def)

lemma pools_inv_put: "pools_inv pools \<Longrightarrow> set_inv (job_list d) \<Longrightarrow> pools_inv (map_put p d pools)"
  by (auto simp: pools_inv_def map_simps)

lemma server_loop_inv: "set_inv servers \<Longrightarrow> set_inv (snd (server_loop L is servers))"
  by (induction "is" arbitrary: servers) (auto split: cxx.splits)

lemma job_loop_inv: "set_inv jobs \<Longrightarrow> set_inv (snd (job_loop L js jobs))"
  by (induction js arbitrary: jobs) (auto split: cxx.splits)

lemma parsePool_inv:
  assumes "pools_inv pools"
  shows "pools_inv (snd (parsePool L nm node pools))"
proof -
  let ?old = "case map_find nm pools of None \<Rightarrow> [] | Some d \<Rightarrow> job_list d"
  have "set_inv ?old" using assms by (auto simp: pools_inv_def split: option.splits)
  then have jobs: "set_inv (snd (job_loop L js ?old))" for js by (rule job_loop_inv)
  show ?thesis
  proof (cases "cxx_bind (pool_node_ok node) (\<lambda>valid.
             if \<not> valid then Throw (Runtime_error ''config jobs list parse failure'')
             else pool_fields L node)")
    case (Ret x)
    obtain count uri js where x: "x = (count, uri, js)" by (cases x) auto
    have "snd (parsePool L nm node pools) = map_put nm \<lparr>worker_count = count, job_processing_uri = uri,
        job_list = snd (job_loop L (iter_values js) ?old)\<rparr> pools"
      by (simp add: parsePool_def Ret x Let_def case_prod_beta)
    then show ?thesis using assms jobs by (simp add: pools_inv_put)
  qed (use assms in \<open>simp_all add: parsePool_def\<close>)
qed

lemma pool_loop_inv: "pools_inv pools \<Longrightarrow> pools_inv (snd (pool_loop L is pools))"
proof (induction "is" arbitrary: pools)
  case (Cons i "is")
  have "pools_inv (snd (parsePool L (fst i) (snd i) pools))" using Cons.prems by (rule parsePool_inv)
  with Cons.IH show ?case by (auto split: prod.splits cxx.splits)
qed simp

lemma parseServerList_inv:
  "config_inv cfg \<Longrightarrow> config_inv (snd (parseServerList L node cfg))"
  by (cases "member_const GEARMAN_SERVERS_LIST node")
    (simp_all add: parseServerList_def config_inv_pools server_loop_inv case_prod_beta)

lemma parsePoolList_inv:
  "config_inv cfg \<Longrightarrow> config_inv (snd (parsePoolList L node cfg))"
  by (cases "member_const POOLS_LIST node")
    (simp_all add: parsePoolList_def config_inv_pools pool_loop_inv case_prod_beta)

lemma read_tree_inv: "config_inv cfg \<Longrightarrow> config_inv (snd (read_tree L tree cfg))"
  by (cases "fst (parseServerList L tree cfg)")
    (simp_all add: read_tree_def Let_def case_prod_beta parseServerList_inv parsePoolList_inv)

lemma parseConfig_inv: "config_inv cfg \<Longrightarrow> config_inv (snd (parseConfig L parse env text cfg))"
  using read_tree_inv [of "cfg\<lparr>m_load_time := env_now env, m_server_list := [], m_pool_map := []\<rparr>"]
  by (cases "parsed_tree parse text") (simp_all add: parseConfig_def config_inv_pools pools_inv_def)

lemma load_inv: "config_inv cfg \<Longrightarrow> config_inv (snd (load L parse env fname cfg))"
proof -
  assume cfg: "config_inv cfg"
  then have "config_inv (cfg\<lparr>m_config_filename := fname\<rparr>)" by (simp add: config_inv_def)
  with cfg parseConfig_inv [OF this] show ?thesis by (simp add: load_def Let_def split: cxx.splits)
qed

section \<open>compare, in terms of the pools it is about\<close>

definition pool_changed :: "DriveshaftConfig \<Rightarrow> DriveshaftConfig \<Rightarrow> string \<Rightarrow> bool" where
  "pool_changed this that p \<longleftrightarrow>
     (case (map_find p (m_pool_map this), map_find p (m_pool_map that)) of
        (Some d, Some d') \<Rightarrow> job_processing_uri d \<noteq> job_processing_uri d' \<or> job_list d \<noteq> job_list d'
      | _ \<Rightarrow> True)"

definition pool_names :: "DriveshaftConfig \<Rightarrow> string set" where
  "pool_names cfg = {p. map_find p (m_pool_map cfg) \<noteq> None}"

lemma pool_names_keys: "set (map_keys (m_pool_map cfg)) = pool_names cfg"
  by (simp add: pool_names_def map_keys_find)

definition restarts :: "PoolMap \<Rightarrow> PoolMap \<Rightarrow> string set" where
  "restarts pm that = {p. \<exists>d d'. (p, d) \<in> set pm \<and> map_find p that = Some d' \<and> should_restart d d'}"

lemma restart_loop_spec:
  "set_inv offs \<Longrightarrow> set_inv ons \<Longrightarrow>
     set (fst (restart_loop pm that (offs, ons))) = set offs \<union> restarts pm that \<and>
     set (snd (restart_loop pm that (offs, ons))) = set ons \<union> restarts pm that \<and>
     set_inv (fst (restart_loop pm that (offs, ons))) \<and> set_inv (snd (restart_loop pm that (offs, ons)))"
proof (induction pm arbitrary: offs ons)
  case Nil
  then show ?case by (simp add: restarts_def)
next
  case (Cons i pm)
  obtain p d where i: "i = (p, d)" by (cases i)
  show ?case
  proof (cases "\<exists>d'. map_find p that = Some d' \<and> should_restart d d'")
    case True
    then have "restart_loop (i # pm) that (offs, ons) = restart_loop pm that (set_insert p offs, set_insert p ons)"
      by (auto simp: i)
    moreover have "restarts (i # pm) that = insert p (restarts pm that)"
      using True by (auto simp: i restarts_def)
    ultimately show ?thesis
      using Cons.IH [of "set_insert p offs" "set_insert p ons"] Cons.prems by simp
  next
    case False
    then have "restart_loop (i # pm) that (offs, ons) = restart_loop pm that (offs, ons)"
      by (auto simp: i split: option.splits)
    moreover have "restarts (i # pm) that = restarts pm that"
      using False by (auto simp: i restarts_def)
    ultimately show ?thesis using Cons.IH [OF Cons.prems] by simp
  qed
qed

lemma should_restart_iff:
  "set_inv (job_list d) \<Longrightarrow> set_inv (job_list d') \<Longrightarrow>
     should_restart d d' \<longleftrightarrow> job_processing_uri d \<noteq> job_processing_uri d' \<or> job_list d \<noteq> job_list d'"
  by (auto simp: should_restart_def set_symmetric_difference_empty)

lemma compare_spec:
  assumes "config_inv this" and "config_inv that"
  shows "set (fst (compare this that)) =
           {p \<in> pool_names this. m_server_list this \<noteq> m_server_list that \<or> pool_changed this that p}"
    and "set (snd (compare this that)) =
           {p \<in> pool_names that. m_server_list this \<noteq> m_server_list that \<or> pool_changed this that p}"
    and "set_inv (fst (compare this that))"
proof -
  note inv = config_invD [OF assms(1)] config_invD [OF assms(2)]
  let ?off = "set_difference (map_keys (m_pool_map this)) (map_keys (m_pool_map that))"
  let ?on = "set_difference (map_keys (m_pool_map that)) (map_keys (m_pool_map this))"
  note off = set_difference_spec [OF inv(4) inv(8)] and on = set_difference_spec [OF inv(8) inv(4)]
  have pm: "(p, d) \<in> set (m_pool_map this) \<longleftrightarrow> map_find p (m_pool_map this) = Some d" for p d
    using inv(2) by (rule map_entries_find)
  note loop = restart_loop_spec [of ?off ?on "m_pool_map this" "m_pool_map that"]
  have rs: "restarts (m_pool_map this) (m_pool_map that) =
      {p. \<exists>d d'. map_find p (m_pool_map this) = Some d \<and> map_find p (m_pool_map that) = Some d' \<and>
        (job_processing_uri d \<noteq> job_processing_uri d' \<or> job_list d \<noteq> job_list d')}"
    using should_restart_iff [OF inv(3) inv(7)] by (fastforce simp: restarts_def pm)
  have changed: "{p \<in> pool_names this. pool_changed this that p} =
      (pool_names this - pool_names that) \<union> restarts (m_pool_map this) (m_pool_map that)"
    "{p \<in> pool_names that. pool_changed this that p} =
      (pool_names that - pool_names this) \<union> restarts (m_pool_map this) (m_pool_map that)"
    by (auto simp: rs pool_names_def pool_changed_def split: option.splits)
  show "set (fst (compare this that)) =
           {p \<in> pool_names this. m_server_list this \<noteq> m_server_list that \<or> pool_changed this that p}"
    using loop off on changed(1) by (simp add: compare_def Let_def pool_names_keys)
  show "set (snd (compare this that)) =
           {p \<in> pool_names that. m_server_list this \<noteq> m_server_list that \<or> pool_changed this that p}"
    using loop off on changed(2) by (simp add: compare_def Let_def pool_names_keys)
  show "set_inv (fst (compare this that))"
    using loop off on inv(4) by (simp add: compare_def Let_def)
qed

section \<open>supersede as a sequence of calls of the watcher\<close>

type_synonym inform_call = "u32 \<times> string \<times> string list \<times> string list \<times> string"

fun inform_all :: "'w informer \<Rightarrow> inform_call list \<Rightarrow> 'w \<Rightarrow> 'w cxx" where
  "inform_all inform [] w = Ret w"
| "inform_all inform ((n, p, s, j, u) # cs) w = cxx_bind (inform n p s j u w) (inform_all inform cs)"

definition pool_of :: "DriveshaftConfig \<Rightarrow> string \<Rightarrow> PoolData" where
  "pool_of cfg p = the (map_find p (m_pool_map cfg))"

definition stop_call :: "DriveshaftConfig \<Rightarrow> string \<Rightarrow> inform_call" where
  "stop_call cfg p = (0, p, m_server_list cfg, job_list (pool_of cfg p), job_processing_uri (pool_of cfg p))"

definition size_call :: "DriveshaftConfig \<Rightarrow> string \<Rightarrow> inform_call" where
  "size_call cfg p = (worker_count (pool_of cfg p), p, m_server_list cfg, job_list (pool_of cfg p),
     job_processing_uri (pool_of cfg p))"

definition supersede_calls :: "DriveshaftConfig \<Rightarrow> DriveshaftConfig \<Rightarrow> inform_call list" where
  "supersede_calls this old =
     map (stop_call old) (fst (compare old this)) @ map (size_call this) (map_keys (m_pool_map this))"

definition zero_pools :: "string list \<Rightarrow> DriveshaftConfig \<Rightarrow> DriveshaftConfig" where
  "zero_pools ps cfg = fold (\<lambda>p cfg.
     cfg\<lparr>m_pool_map := map_put p ((pool_of cfg p)\<lparr>worker_count := 0\<rparr>) (m_pool_map cfg)\<rparr>) ps cfg"

lemma inform_all_append:
  "inform_all inform (cs @ ds) w = cxx_bind (inform_all inform cs w) (inform_all inform ds)"
proof (induction cs arbitrary: w)
  case (Cons c cs)
  obtain n p s j u where "c = (n, p, s, j, u)" by (cases c)
  with Cons.IH show ?case by (cases "inform n p s j u w") simp_all
qed simp

lemma inform_all_calls:
  "inform_all inform (stop_call cfg p # cs) w =
     cxx_bind (inform 0 p (m_server_list cfg) (job_list (pool_of cfg p)) (job_processing_uri (pool_of cfg p)) w)
       (inform_all inform cs)"
  "inform_all inform (size_call cfg p # cs) w =
     cxx_bind (inform (worker_count (pool_of cfg p)) p (m_server_list cfg) (job_list (pool_of cfg p))
         (job_processing_uri (pool_of cfg p)) w) (inform_all inform cs)"
  by (simp_all add: stop_call_def size_call_def)

lemma inform_loop_calls:
  "map_inv pools \<Longrightarrow> \<forall>(p, d)\<in>set pools. map_find p (m_pool_map cfg) = Some d \<Longrightarrow>
     inform_loop inform (m_server_list cfg) pools w = inform_all inform (map (size_call cfg) (map_keys pools)) w"
proof (induction pools arbitrary: w)
  case (Cons i pools)
  obtain p d where i: "i = (p, d)" by (cases i)
  have "inform_loop inform (m_server_list cfg) pools = inform_all inform (map (size_call cfg) (map_keys pools))"
    using Cons by (intro ext Cons.IH) (auto simp: map_inv_Cons)
  moreover have "pool_of cfg p = d" using Cons.prems(2) by (simp add: i pool_of_def)
  ultimately show ?case by (simp add: i inform_all_calls del: inform_all.simps)
qed simp

lemma clear_loop_calls:
  assumes "map_inv (m_pool_map cfg)" and "set ps \<subseteq> pool_names cfg" and "distinct ps"
  shows "clear_loop inform ps cfg w =
    cxx_bind (inform_all inform (map (stop_call cfg) ps) w) (\<lambda>w'. Ret (zero_pools ps cfg, w'))"
  using assms
proof (induction ps arbitrary: cfg w)
  case Nil
  then show ?case by (simp add: zero_pools_def)
next
  case (Cons p ps)
  obtain d where d: "map_find p (m_pool_map cfg) = Some d" using Cons.prems(2) by (auto simp: pool_names_def)
  let ?cfg = "cfg\<lparr>m_pool_map := map_put p (d\<lparr>worker_count := 0\<rparr>) (m_pool_map cfg)\<rparr>"
  have inv: "map_inv (m_pool_map ?cfg)" and sub: "set ps \<subseteq> pool_names ?cfg"
    using Cons.prems by (auto simp: map_simps pool_names_def)
  have "stop_call ?cfg q = stop_call cfg q" if "q \<in> set ps" for q
    using that Cons.prems(1,3) by (auto simp: stop_call_def pool_of_def map_simps)
  then have calls: "map (stop_call ?cfg) ps = map (stop_call cfg) ps" by simp
  have z: "zero_pools ps ?cfg = zero_pools (p # ps) cfg" by (simp add: zero_pools_def pool_of_def d)
  have "stop_call cfg p = (0, p, m_server_list cfg, job_list d, job_processing_uri d)"
    by (simp add: stop_call_def pool_of_def d)
  with Cons.IH [OF inv sub] Cons.prems(3) show ?case
    by (simp add: clearWorkerCount_def d calls z cxx_bind_assoc)
qed

lemma supersede_alt:
  assumes "config_inv this" and "config_inv old"
  shows "supersede inform this old w =
    cxx_bind (inform_all inform (supersede_calls this old) w)
      (\<lambda>w'. Ret (zero_pools (fst (compare old this)) old, w'))"
proof -
  let ?ps = "fst (compare old this)"
  note c = compare_spec [OF assms(2,1)]
  have "set ?ps \<subseteq> pool_names old" "distinct ?ps" using c(1,3) by (auto intro: set_inv_distinct)
  note cl = clear_loop_calls [OF config_invD(2) [OF assms(2)] this]
  have "\<forall>(p, d)\<in>set (m_pool_map this). map_find p (m_pool_map this) = Some d"
    using map_entries_find [OF config_invD(2) [OF assms(1)]] by auto
  note il = inform_loop_calls [OF config_invD(2) [OF assms(1)] this]
  show ?thesis
    by (simp add: supersede_def cl il supersede_calls_def inform_all_append cxx_bind_assoc)
qed

lemma clearAllWorkerCounts_alt:
  assumes "config_inv cfg"
  shows "clearAllWorkerCounts inform cfg w =
    cxx_bind (inform_all inform (map (stop_call cfg) (map_keys (m_pool_map cfg))) w)
      (\<lambda>w'. Ret (zero_pools (map_keys (m_pool_map cfg)) cfg, w'))"
  unfolding clearAllWorkerCounts_def
  using config_invD(2,4) [OF assms]
  by (intro clear_loop_calls) (auto simp: pool_names_keys intro: set_inv_distinct)

section \<open>What a watcher promises, and what a change of configuration then achieves\<close>

definition adjusted :: "nat \<Rightarrow> nat \<Rightarrow> nat \<Rightarrow> nat" where
  "adjusted n sz act = act + (n - sz) - (sz - n)"

text \<open>
  \<open>pool_size\<close> is the number of threads a pool has, \<open>active\<close> the number of those not yet told to
  stop. The law is about a call that returns.
\<close>

locale pool_watcher =
  fixes inform :: "'w informer"
    and ok :: "'w \<Rightarrow> bool"
    and pool_size :: "string \<Rightarrow> 'w \<Rightarrow> nat"
    and active :: "string \<Rightarrow> 'w \<Rightarrow> nat"
  assumes active_le: "ok w \<Longrightarrow> active p w \<le> pool_size p w"
    and inform_ok: "ok w \<Longrightarrow> inform n p s j u w = Ret w' \<Longrightarrow> ok w'"
    and inform_size: "ok w \<Longrightarrow> inform n p s j u w = Ret w' \<Longrightarrow>
      pool_size q w' = (if q = p then max (pool_size p w) (unat n) else pool_size q w)"
    and inform_active: "ok w \<Longrightarrow> inform n p s j u w = Ret w' \<Longrightarrow>
      active q w' = (if q = p then adjusted (unat n) (pool_size p w) (active p w) else active q w)"
begin

lemma inform_stop:
  assumes "ok w" and "inform 0 p s j u w = Ret w'"
  shows "active p w' = 0" and "pool_size p w' = pool_size p w"
  using inform_size [OF assms, of p] inform_active [OF assms, of p] active_le [OF assms(1), of p] by (simp_all add: adjusted_def)

lemma stop_calls:
  assumes "ok w" and "inform_all inform (map (stop_call cfg) ps) w = Ret w'"
  shows "ok w' \<and> (\<forall>q. pool_size q w' = pool_size q w) \<and>
    (\<forall>q. active q w' = (if q \<in> set ps then 0 else active q w))"
  using assms
proof (induction ps arbitrary: w)
  case (Cons p ps)
  obtain w1 where w1: "inform 0 p (m_server_list cfg) (job_list (pool_of cfg p)) (job_processing_uri (pool_of cfg p)) w = Ret w1"
      and rest: "inform_all inform (map (stop_call cfg) ps) w1 = Ret w'"
    using Cons.prems(2) by (auto simp: inform_all_calls cxx_simps simp del: inform_all.simps)
  note i = inform_stop [OF Cons.prems(1) w1] inform_size [OF Cons.prems(1) w1] inform_active [OF Cons.prems(1) w1]
  from Cons.IH [OF inform_ok [OF Cons.prems(1) w1] rest] i show ?case by auto
qed simp

lemma size_calls:
  assumes "ok w" and "distinct ps" and "inform_all inform (map (size_call cfg) ps) w = Ret w'"
  shows "ok w' \<and>
    (\<forall>q. pool_size q w' = (if q \<in> set ps then max (pool_size q w) (unat (worker_count (pool_of cfg q))) else pool_size q w)) \<and>
    (\<forall>q. active q w' = (if q \<in> set ps then adjusted (unat (worker_count (pool_of cfg q))) (pool_size q w) (active q w)
                        else active q w))"
  using assms
proof (induction ps arbitrary: w)
  case (Cons p ps)
  obtain w1 where w1: "inform (worker_count (pool_of cfg p)) p (m_server_list cfg) (job_list (pool_of cfg p))
        (job_processing_uri (pool_of cfg p)) w = Ret w1"
      and rest: "inform_all inform (map (size_call cfg) ps) w1 = Ret w'"
    using Cons.prems(3) by (auto simp: inform_all_calls cxx_simps simp del: inform_all.simps)
  note i = inform_size [OF Cons.prems(1) w1] inform_active [OF Cons.prems(1) w1]
  from Cons.IH [OF inform_ok [OF Cons.prems(1) w1] _ rest] i Cons.prems(2) show ?case
    by (auto simp: adjusted_def)
qed simp

lemma supersede_effect:
  assumes "config_inv this" and "config_inv old" and "ok w" and "supersede inform this old w = Ret (old', w')"
  shows "ok w' \<and>
    (\<forall>q. pool_size q w' = (if q \<in> pool_names this
       then max (pool_size q w) (unat (worker_count (pool_of this q))) else pool_size q w)) \<and>
    (\<forall>q. active q w' =
       (let kept = (if q \<in> set (fst (compare old this)) then 0 else active q w) in
        if q \<in> pool_names this then adjusted (unat (worker_count (pool_of this q))) (pool_size q w) kept
        else kept))"
proof -
  let ?ks = "map_keys (m_pool_map this)"
  obtain w1 where w1: "inform_all inform (map (stop_call old) (fst (compare old this))) w = Ret w1"
      and w': "inform_all inform (map (size_call this) ?ks) w1 = Ret w'"
    using assms(4) by (auto simp: supersede_alt [OF assms(1,2)] supersede_calls_def inform_all_append cxx_simps)
  have "distinct ?ks" using config_invD(4) [OF assms(1)] by (rule set_inv_distinct)
  with stop_calls [OF assms(3) w1] size_calls [OF _ _ w'] show ?thesis
    by (simp add: pool_names_keys adjusted_def Let_def)
qed

lemma clearAll_effect:
  assumes "config_inv cfg" and "ok w" and "clearAllWorkerCounts inform cfg w = Ret (cfg', w')"
  shows "ok w' \<and> (\<forall>q. pool_size q w' = pool_size q w) \<and>
    (\<forall>q. active q w' = (if q \<in> pool_names cfg then 0 else active q w))"
proof -
  have "inform_all inform (map (stop_call cfg) (map_keys (m_pool_map cfg))) w = Ret w'"
    using assms(3) by (auto simp: clearAllWorkerCounts_alt [OF assms(1)] cxx_simps)
  from stop_calls [OF assms(2) this] show ?thesis by (simp add: pool_names_keys)
qed

end
section \<open>Reading back a configuration\<close>

text \<open>The JSON tree of a configuration, as the format is documented.\<close>

definition string_array :: "string list \<Rightarrow> Value" where
  "string_array xs = ArrayV (zip [0..<length xs] (map StringV xs))"

definition count_value :: "u32 \<Rightarrow> Value" where
  "count_value n = (if uint n \<le> maxInt then IntV (ucast n) else UIntV (ucast n))"

definition pool_tree :: "PoolData \<Rightarrow> Value" where
  "pool_tree d = ObjectV [(POOL_JOB_PROCESSING_URI, StringV (job_processing_uri d)),
     (POOL_JOB_LIST, string_array (job_list d)), (POOL_WORKER_COUNT, count_value (worker_count d))]"

definition config_tree :: "DriveshaftConfig \<Rightarrow> Value" where
  "config_tree cfg = ObjectV [(GEARMAN_SERVERS_LIST, string_array (m_server_list cfg)),
     (POOLS_LIST, ObjectV (map (\<lambda>e. (fst e, pool_tree (snd e))) (m_pool_map cfg)))]"

lemma iter_values_string_array: "iter_values (string_array xs) = map StringV xs"
  by (simp add: string_array_def iter_values_def)

lemma cfgkeys_CZString [simp]:
  "CZString GEARMAN_SERVERS_LIST = GEARMAN_SERVERS_LIST" "CZString POOLS_LIST = POOLS_LIST"
  "CZString POOL_WORKER_COUNT = POOL_WORKER_COUNT" "CZString POOL_JOB_LIST = POOL_JOB_LIST"
  "CZString POOL_JOB_PROCESSING_URI = POOL_JOB_PROCESSING_URI"
  by (simp_all add: cfgkeys CZString_short)

lemma config_tree_members:
  "member_const GEARMAN_SERVERS_LIST (config_tree cfg) = Ret (string_array (m_server_list cfg))"
  "member_const POOLS_LIST (config_tree cfg) = Ret (ObjectV (map (\<lambda>e. (fst e, pool_tree (snd e))) (m_pool_map cfg)))"
  "isMember GEARMAN_SERVERS_LIST (config_tree cfg) = Ret True" "isMember POOLS_LIST (config_tree cfg) = Ret True"
  by (simp_all add: config_tree_def json_simps) (simp_all add: cfgkeys)

lemma pool_tree_members:
  "member_const POOL_WORKER_COUNT (pool_tree d) = Ret (count_value (worker_count d))"
  "member_const POOL_JOB_LIST (pool_tree d) = Ret (string_array (job_list d))"
  "member_const POOL_JOB_PROCESSING_URI (pool_tree d) = Ret (StringV (job_processing_uri d))"
  "isMember POOL_WORKER_COUNT (pool_tree d) = Ret True" "isMember POOL_JOB_LIST (pool_tree d) = Ret True"
  "isMember POOL_JOB_PROCESSING_URI (pool_tree d) = Ret True"
  by (simp_all add: pool_tree_def json_simps) (simp_all add: cfgkeys)

lemma worker_count_value: "integral_value (count_value n) = Some (uint n)"
proof -
  have "uint n < 2 ^ 32" using uint_bounded [of n] by simp
  then have "uint (ucast n :: u64) = uint n" by (simp add: unsigned_ucast_eq take_bit_int_eq_self)
  moreover have "signed_take_bit 63 (uint n) = uint n"
    using \<open>uint n < 2 ^ 32\<close> order_trans [of "- (2 ^ 63)" 0 "uint n"] by (intro signed_take_bit_int_eq_self) simp_all
  then have "sint (ucast n :: u64) = uint n" by (simp add: signed_ucast_eq)
  ultimately show ?thesis by (simp add: count_value_def integral_value_def)
qed

lemma worker_count_read: "isUInt (count_value n)" "asUInt (count_value n) = Ret n"
proof -
  have b: "0 \<le> uint n" "uint n \<le> maxUInt"
    using uint_bounded [of n] by (simp_all add: maxUInt_def)
  show "isUInt (count_value n)" using b by (simp add: isUInt_iff worker_count_value)
  show "asUInt (count_value n) = Ret n"
    using converted_UInt [OF worker_count_value b] by simp
qed

lemma server_loop_strings:
  "set_inv (acc @ ss) \<Longrightarrow> server_loop L (map StringV ss) acc = (Ret (), acc @ ss)"
proof (induction ss arbitrary: acc)
  case (Cons s ss)
  have "\<forall>y\<in>set acc. y < s" using Cons.prems by (auto simp: set_inv_def sorted_wrt_append)
  with Cons.IH [of "acc @ [s]"] Cons.prems show ?case
    by (simp add: set_insert_last json_simps isString_iff)
qed simp

lemma job_loop_strings:
  "set_inv (acc @ ss) \<Longrightarrow> job_loop L (map StringV ss) acc = (Ret (), acc @ ss)"
proof (induction ss arbitrary: acc)
  case (Cons s ss)
  have "\<forall>y\<in>set acc. y < s" using Cons.prems by (auto simp: set_inv_def sorted_wrt_append)
  with Cons.IH [of "acc @ [s]"] Cons.prems show ?case
    by (simp add: set_insert_last json_simps)
qed simp

lemma parsePool_tree:
  assumes "set_inv (job_list d)" and "\<forall>k\<in>set (map_keys pools). k < p"
  shows "parsePool L p (pool_tree d) pools = (Ret (), pools @ [(p, d)])"
proof -
  have "map_find p pools = None" using assms(2) by (auto simp: map_find_None)
  moreover have "isArray (string_array (job_list d))" "isString (StringV (job_processing_uri d))"
    by (simp_all add: string_array_def isArray_iff isString_iff)
  moreover have "job_loop L (map StringV (job_list d)) [] = (Ret (), job_list d)"
    using job_loop_strings [of "[]" "job_list d"] assms(1) by simp
  ultimately show ?thesis
    using assms(2)
    by (simp add: parsePool_def pool_node_ok_def pool_fields_def pool_tree_members worker_count_read
        json_simps iter_values_string_array map_put_last)
qed

lemma pool_loop_tree:
  assumes "\<forall>e\<in>set pools. set_inv (job_list (snd e))" and "set_inv (map_keys (acc @ pools))"
  shows "pool_loop L (map (\<lambda>e. (fst e, pool_tree (snd e))) pools) acc = (Ret (), acc @ pools)"
  using assms
proof (induction pools arbitrary: acc)
  case (Cons e pools)
  have "\<forall>k\<in>set (map_keys acc). k < fst e"
    using Cons.prems(2) by (auto simp: set_inv_def sorted_wrt_append map_keys_def)
  moreover have "set_inv (job_list (snd e))" using Cons.prems(1) by simp
  ultimately have "parsePool L (fst e) (pool_tree (snd e)) acc = (Ret (), acc @ [(fst e, snd e)])"
    by (intro parsePool_tree)
  with Cons.IH [of "acc @ [e]"] Cons.prems show ?case by simp
qed simp

lemma validate_config_tree: "validateConfigNode (config_tree cfg) = Ret True"
  by (simp add: validateConfigNode_def config_tree_members isArray_iff isObject_iff string_array_def)

lemma read_config_tree:
  assumes "config_inv cfg" and "m_server_list c0 = []" and "m_pool_map c0 = []"
  shows "read_tree L (config_tree cfg) c0 =
    (Ret True, c0\<lparr>m_server_list := m_server_list cfg, m_pool_map := m_pool_map cfg\<rparr>)"
proof -
  have s: "server_loop L (map StringV (m_server_list cfg)) [] = (Ret (), m_server_list cfg)"
    using server_loop_strings [of "[]" "m_server_list cfg"] config_invD(1) [OF assms(1)] by simp
  have "\<forall>e\<in>set (m_pool_map cfg). set_inv (job_list (snd e))"
    using assms(1) map_entries_find [OF config_invD(2) [OF assms(1)]] by (auto simp: config_inv_def)
  then have p: "pool_loop L (map (\<lambda>e. (fst e, pool_tree (snd e))) (m_pool_map cfg)) [] = (Ret (), m_pool_map cfg)"
    using pool_loop_tree [of "m_pool_map cfg" "[]"] config_invD(4) [OF assms(1)] by simp
  show ?thesis
    using assms(2,3) by (simp add: read_tree_def parseServerList_def parsePoolList_def config_tree_members
        iter_values_string_array s p iter_names_def)
qed

section \<open>Errors\<close>

text \<open>Nothing is read into the object before the whole text has been parsed and validated.\<close>

lemma parseConfig_invalid:
  assumes "\<not> returns (parsed_tree parse data)"
  shows "parseConfig L parse env data cfg = (map_cxx (\<lambda>_. True) (parsed_tree parse data), cfg)"
  using assms by (cases "parsed_tree parse data") (simp_all add: parseConfig_def)

lemma parsed_tree_array:
  assumes "parse data = Ret (True, errs, ArrayV m)"
  shows "\<exists>msg. parsed_tree parse data = Throw (Json_LogicError msg)"
  using assms json_find_wrong_type [of "ArrayV m" GEARMAN_SERVERS_LIST]
  by (auto simp: parsed_tree_def validateConfigNode_def isMember_def isNull_iff isObject_iff)
end
