(* ===== verification/Thread_Registry.thy ===== *)
theory Thread_Registry
  imports Containers
begin

text \<open>
  \<^verbatim>\<open>ThreadRegistry\<close> (\<^verbatim>\<open>src/thread-registry.h\<close>, \<^verbatim>\<open>src/thread-registry.cpp\<close>): the table of worker
  threads that the main thread and every worker share. Each operation takes the registry's
  mutex for its whole body, so each is one atomic function on the registry's two maps. A failed
  \<^verbatim>\<open>DS_ASSERT\<close> throws inside a \<^verbatim>\<open>noexcept\<close> function and therefore ends the process.
  The locale \<open>thread_table\<close> is \<^verbatim>\<open>ThreadRegistryInterface\<close> with the laws its clients rely on.
\<close>

section \<open>State\<close>

type_synonym tid = nat \<comment> \<open>\<^verbatim>\<open>std::thread::id\<close>: an ordered type of which only the order is used\<close>

record ThreadData =
  td_pool :: string
  td_should_shutdown :: bool
  td_state :: string

type_synonym ThreadMap = "(tid \<times> ThreadData) list"
type_synonym ThreadRegistryStore = "(string \<times> tid list) list"

record ThreadRegistry =
  m_thread_map :: ThreadMap
  m_registry_store :: ThreadRegistryStore

section \<open>Operations\<close>

definition DS_ASSERT :: "bool \<Rightarrow> string \<Rightarrow> unit cxx" where
  "DS_ASSERT cond text = (if cond then Ret () else Throw (Runtime_error text))"

definition new_ThreadRegistry :: ThreadRegistry where
  "new_ThreadRegistry = \<lparr>m_thread_map = [], m_registry_store = []\<rparr>"

definition delete_ThreadRegistry :: "ThreadRegistry \<Rightarrow> unit cxx" where
  "delete_ThreadRegistry r = noexcept (DS_ASSERT (length (m_thread_map r) = 0) ''m_thread_map.size() == 0'')"

text \<open>
  \<^verbatim>\<open>m_registry_store[pool]\<close>: the value of the entry, and the store after the access, which
  has an (empty) entry for the pool even if it had none.
\<close>

definition store_at :: "string \<Rightarrow> ThreadRegistry \<Rightarrow> tid list" where
  "store_at pool r = (case map_find pool (m_registry_store r) of None \<Rightarrow> [] | Some s \<Rightarrow> s)"

definition store_touch :: "string \<Rightarrow> ThreadRegistry \<Rightarrow> ThreadRegistry" where
  "store_touch pool r = r\<lparr>m_registry_store := map_put pool (store_at pool r) (m_registry_store r)\<rparr>"

definition map_count :: "'k \<Rightarrow> ('k \<times> 'v) list \<Rightarrow> nat" where
  "map_count k m = (case map_find k m of None \<Rightarrow> 0 | Some _ \<Rightarrow> 1)"

definition registerThread :: "string \<Rightarrow> tid \<Rightarrow> ThreadRegistry \<Rightarrow> ThreadRegistry cxx" where
  "registerThread pool tid r = noexcept (
     let pool_threads = store_at pool r in
     cxx_bind (DS_ASSERT (set_count tid pool_threads = 0) ''pool_threads.count(tid) == 0'') (\<lambda>_.
     let r1 = r\<lparr>m_registry_store := map_put pool (set_insert tid pool_threads) (m_registry_store r)\<rparr> in
     cxx_bind (DS_ASSERT (map_count tid (m_thread_map r1) = 0) ''m_thread_map.count(tid) == 0'') (\<lambda>_.
     Ret (r1\<lparr>m_thread_map :=
       map_put tid \<lparr>td_pool = pool, td_should_shutdown = False, td_state = ''Starting up''\<rparr>
         (m_thread_map r1)\<rparr>))))"

definition unregisterThread :: "string \<Rightarrow> tid \<Rightarrow> ThreadRegistry \<Rightarrow> ThreadRegistry cxx" where
  "unregisterThread pool tid r = noexcept (
     let pool_threads = store_at pool r in
     cxx_bind (DS_ASSERT (set_count tid pool_threads = 1) ''pool_threads.count(tid) == 1'') (\<lambda>_.
     let r1 = r\<lparr>m_registry_store := map_put pool (set_erase tid pool_threads) (m_registry_store r)\<rparr> in
     cxx_bind (DS_ASSERT (map_count tid (m_thread_map r1) = 1) ''m_thread_map.count(tid) == 1'') (\<lambda>_.
     Ret (r1\<lparr>m_thread_map := map_erase tid (m_thread_map r1)\<rparr>))))"

definition poolCount :: "string \<Rightarrow> ThreadRegistry \<Rightarrow> u32 \<times> ThreadRegistry" where
  "poolCount pool r = (of_nat (length (store_at pool r)), store_touch pool r)"

text \<open>The loop of \<^verbatim>\<open>sendShutdown\<close>, with the counter \<^verbatim>\<open>msg_sent\<close> kept at its 32 bits.\<close>

fun sendShutdown_loop :: "tid list \<Rightarrow> u32 \<Rightarrow> u32 \<Rightarrow> ThreadMap \<Rightarrow> (u32 \<times> ThreadMap) cxx" where
  "sendShutdown_loop [] count msg_sent m = Ret (msg_sent, m)"
| "sendShutdown_loop (tid # tids) count msg_sent m =
     cxx_bind (DS_ASSERT (map_count tid m = 1) ''m_thread_map.count(tid) == 1'') (\<lambda>_.
     case map_find tid m of
       None \<Rightarrow> Terminate
     | Some threaddata \<Rightarrow>
         if td_should_shutdown threaddata = False then
           let m' = map_put tid (threaddata\<lparr>td_should_shutdown := True\<rparr>) m;
               msg_sent' = msg_sent + 1
           in if msg_sent' = count then Ret (msg_sent', m')
              else sendShutdown_loop tids count msg_sent' m'
         else sendShutdown_loop tids count msg_sent m)"

definition sendShutdown :: "string \<Rightarrow> u32 \<Rightarrow> ThreadRegistry \<Rightarrow> (bool \<times> ThreadRegistry) cxx" where
  "sendShutdown pool count r = noexcept (
     cxx_bind (sendShutdown_loop (store_at pool r) count 0 (m_thread_map r)) (\<lambda>(msg_sent, m).
     Ret (msg_sent = count, (store_touch pool r)\<lparr>m_thread_map := m\<rparr>)))"

definition shouldShutdown :: "tid \<Rightarrow> ThreadRegistry \<Rightarrow> bool cxx" where
  "shouldShutdown tid r = noexcept (
     cxx_bind (DS_ASSERT (map_count tid (m_thread_map r) = 1) ''m_thread_map.count(tid) == 1'') (\<lambda>_.
     case map_find tid (m_thread_map r) of
       None \<Rightarrow> Terminate
     | Some d \<Rightarrow> Ret (td_should_shutdown d)))"

definition setThreadState :: "tid \<Rightarrow> string \<Rightarrow> ThreadRegistry \<Rightarrow> ThreadRegistry cxx" where
  "setThreadState tid state r = noexcept (
     cxx_bind (DS_ASSERT (map_count tid (m_thread_map r) = 1) ''m_thread_map.count(tid) == 1'') (\<lambda>_.
     case map_find tid (m_thread_map r) of
       None \<Rightarrow> Terminate
     | Some d \<Rightarrow> Ret (r\<lparr>m_thread_map := map_put tid (d\<lparr>td_state := state\<rparr>) (m_thread_map r)\<rparr>)))"

definition getThreadMap :: "ThreadRegistry \<Rightarrow> ThreadMap" where
  "getThreadMap r = m_thread_map r"

section \<open>Invariant and abstraction\<close>

text \<open>
  The two maps are one relation seen from both sides (the header calls the second one
  ``duplicative''): a thread is in the set of a pool exactly if its entry names that pool.
\<close>

definition reg_inv :: "ThreadRegistry \<Rightarrow> bool" where
  "reg_inv r \<longleftrightarrow> map_inv (m_thread_map r) \<and> map_inv (m_registry_store r) \<and>
     (\<forall>pool. set_inv (store_at pool r)) \<and>
     (\<forall>pool tid. tid \<in> set (store_at pool r) \<longleftrightarrow>
        (\<exists>d. map_find tid (m_thread_map r) = Some d \<and> td_pool d = pool))"

text \<open>The abstract registry: a finite map from threads to their data, nothing else.\<close>

definition reg_view :: "ThreadRegistry \<Rightarrow> tid \<rightharpoonup> ThreadData" where
  "reg_view r tid = map_find tid (m_thread_map r)"

definition pool_members :: "string \<Rightarrow> (tid \<rightharpoonup> ThreadData) \<Rightarrow> tid set" where
  "pool_members pool A = {tid. \<exists>d. A tid = Some d \<and> td_pool d = pool}"

definition fresh_data :: "string \<Rightarrow> ThreadData" where
  "fresh_data pool = \<lparr>td_pool = pool, td_should_shutdown = False, td_state = ''Starting up''\<rparr>"

definition mark :: "ThreadData \<Rightarrow> ThreadData" where
  "mark d = d\<lparr>td_should_shutdown := True\<rparr>"

lemma mark_sel [simp]:
  "td_pool (mark d) = td_pool d" "td_should_shutdown (mark d)" "td_state (mark d) = td_state d"
  by (simp_all add: mark_def)

text \<open>
  The threads a request for \<open>count\<close> shutdowns reaches, in thread order: the first \<open>count\<close> that
  have not been told yet. A request for 0 never meets the loop's exit test before the 32-bit
  counter wraps, so it reaches \<open>2\<^sup>3\<^sup>2\<close> threads.
\<close>

definition unmarked :: "(tid \<rightharpoonup> ThreadData) \<Rightarrow> tid \<Rightarrow> bool" where
  "unmarked A tid \<longleftrightarrow> (case A tid of None \<Rightarrow> False | Some d \<Rightarrow> \<not> td_should_shutdown d)"

definition shutdown_quota :: "u32 \<Rightarrow> nat" where
  "shutdown_quota count = (if count = 0 then 2 ^ 32 else unat count)"

definition shutdown_victims :: "string \<Rightarrow> u32 \<Rightarrow> ThreadRegistry \<Rightarrow> tid list" where
  "shutdown_victims pool count r =
     take (shutdown_quota count) (filter (unmarked (reg_view r)) (store_at pool r))"

definition mark_all :: "tid list \<Rightarrow> (tid \<rightharpoonup> ThreadData) \<Rightarrow> (tid \<rightharpoonup> ThreadData)" where
  "mark_all ts A = (\<lambda>t. if t \<in> set ts then map_option mark (A t) else A t)"

section \<open>Basic facts\<close>

lemma DS_ASSERT_simps [simp]:
  "DS_ASSERT True text = Ret ()" "DS_ASSERT False text = Throw (Runtime_error text)"
  by (simp_all add: DS_ASSERT_def)

lemma map_count_simps [simp]:
  "map_count k m = 0 \<longleftrightarrow> map_find k m = None"
  "map_count k m = Suc 0 \<longleftrightarrow> map_find k m \<noteq> None"
  by (simp_all add: map_count_def split: option.splits)

lemma DS_ASSERT_if: "DS_ASSERT c text = (if c then Ret () else Throw (Runtime_error text))"
  by (simp add: DS_ASSERT_def)

lemma reg_invD:
  assumes "reg_inv r"
  shows "map_inv (m_thread_map r)" "map_inv (m_registry_store r)" "set_inv (store_at pool r)"
    and "tid \<in> set (store_at pool r) \<longleftrightarrow> (\<exists>d. reg_view r tid = Some d \<and> td_pool d = pool)"
  using assms by (auto simp: reg_inv_def reg_view_def)

lemma store_at_put:
  "map_inv (m_registry_store r) \<Longrightarrow>
     store_at p (r\<lparr>m_registry_store := map_put q s (m_registry_store r)\<rparr>) = (if p = q then s else store_at p r)"
  by (simp add: store_at_def map_simps)

lemma store_at_thread_map [simp]: "store_at p (r\<lparr>m_thread_map := m\<rparr>) = store_at p r"
  by (simp add: store_at_def)

lemma store_at_touch [simp]:
  "map_inv (m_registry_store r) \<Longrightarrow> store_at p (store_touch q r) = store_at p r"
  by (simp add: store_touch_def store_at_put)

lemma store_touch_sel [simp]:
  "m_thread_map (store_touch p r) = m_thread_map r"
  "map_inv (m_registry_store r) \<Longrightarrow> map_inv (m_registry_store (store_touch p r))"
  by (simp_all add: store_touch_def)

lemma reg_view_touch [simp]: "reg_view (store_touch p r) = reg_view r"
  by (simp add: reg_view_def fun_eq_iff)

lemma reg_inv_touch [simp]: "reg_inv r \<Longrightarrow> reg_inv (store_touch p r)"
  by (simp add: reg_inv_def)

lemma store_at_members: "reg_inv r \<Longrightarrow> set (store_at pool r) = pool_members pool (reg_view r)"
  by (auto simp: pool_members_def reg_invD(4))

lemma store_at_length: "reg_inv r \<Longrightarrow> length (store_at pool r) = card (pool_members pool (reg_view r))"
  by (metis distinct_card reg_invD(3) set_inv_distinct store_at_members)

lemma finite_pool_members: "reg_inv r \<Longrightarrow> finite (pool_members pool (reg_view r))"
  by (metis List.finite_set store_at_members)

lemma unmarked_iff: "unmarked A t \<longleftrightarrow> (\<exists>d. A t = Some d \<and> \<not> td_should_shutdown d)"
  by (simp add: unmarked_def split: option.splits)

lemma pool_members_mark_all [simp]: "pool_members pool (mark_all ts A) = pool_members pool A"
  by (auto simp: pool_members_def mark_all_def)

lemma pool_members_upd:
  "pool_members pool (A(t \<mapsto> d)) =
     (if td_pool d = pool then insert t (pool_members pool A) else pool_members pool A - {t})"
  by (auto simp: pool_members_def)

lemma reg_inv_new [simp]: "reg_inv new_ThreadRegistry"
  by (simp add: reg_inv_def new_ThreadRegistry_def store_at_def)

lemma reg_view_new [simp]: "reg_view new_ThreadRegistry = Map.empty"
  by (simp add: reg_view_def new_ThreadRegistry_def fun_eq_iff)

section \<open>What the operations do to the abstract registry\<close>

lemma reg_inv_upd:
  assumes "reg_inv r" and "td_pool d = pool" and "reg_view r tid = None \<or> (\<exists>d'. reg_view r tid = Some d' \<and> td_pool d' = pool)"
  shows "reg_inv (r\<lparr>m_registry_store := map_put pool (set_insert tid (store_at pool r)) (m_registry_store r),
                   m_thread_map := map_put tid d (m_thread_map r)\<rparr>)"
  using assms reg_invD [OF assms(1)]
  by (auto simp: reg_inv_def store_at_put map_simps reg_view_def)

lemma registerThread_ok:
  assumes "reg_inv r" and "reg_view r tid = None"
  shows "\<exists>r'. registerThread pool tid r = Ret r' \<and> reg_inv r' \<and>
           reg_view r' = (reg_view r)(tid \<mapsto> fresh_data pool)"
proof -
  let ?r' = "r\<lparr>m_registry_store := map_put pool (set_insert tid (store_at pool r)) (m_registry_store r),
               m_thread_map := map_put tid (fresh_data pool) (m_thread_map r)\<rparr>"
  have "tid \<notin> set (store_at pool r)"
    using assms by (simp add: reg_invD(4))
  then have "registerThread pool tid r = Ret ?r'"
    using assms(2) by (simp add: registerThread_def reg_view_def fresh_data_def Let_def)
  moreover have "reg_inv ?r'"
    using assms by (intro reg_inv_upd) (auto simp: fresh_data_def)
  moreover have "reg_view ?r' = (reg_view r)(tid \<mapsto> fresh_data pool)"
    using reg_invD(1) [OF assms(1)] by (auto simp: reg_view_def map_simps fun_eq_iff)
  ultimately show ?thesis by blast
qed

lemma registerThread_dup:
  assumes "reg_inv r" and "reg_view r tid \<noteq> None"
  shows "registerThread pool tid r = Terminate"
  using assms by (auto simp: registerThread_def reg_view_def DS_ASSERT_if Let_def)

lemma unregisterThread_ok:
  assumes "reg_inv r" and "reg_view r tid = Some d" and "td_pool d = pool"
  shows "\<exists>r'. unregisterThread pool tid r = Ret r' \<and> reg_inv r' \<and>
           reg_view r' = (reg_view r)(tid := None)"
proof -
  let ?r' = "r\<lparr>m_registry_store := map_put pool (set_erase tid (store_at pool r)) (m_registry_store r),
               m_thread_map := map_erase tid (m_thread_map r)\<rparr>"
  have "tid \<in> set (store_at pool r)"
    using assms by (simp add: reg_invD(4))
  then have "unregisterThread pool tid r = Ret ?r'"
    using assms(2) by (simp add: unregisterThread_def reg_view_def Let_def)
  moreover have "reg_inv ?r'"
    using assms reg_invD [OF assms(1)]
    by (auto simp: reg_inv_def store_at_put map_simps reg_view_def)
  moreover have "reg_view ?r' = (reg_view r)(tid := None)"
    using reg_invD(1) [OF assms(1)] by (auto simp: reg_view_def map_simps fun_eq_iff)
  ultimately show ?thesis by blast
qed

lemma unregisterThread_absent:
  assumes "reg_inv r" and "\<nexists>d. reg_view r tid = Some d \<and> td_pool d = pool"
  shows "unregisterThread pool tid r = Terminate"
  using assms by (simp add: unregisterThread_def DS_ASSERT_if reg_invD(4) Let_def)

lemma poolCount_view:
  assumes "reg_inv r"
  shows "fst (poolCount pool r) = of_nat (card (pool_members pool (reg_view r)))"
    and "reg_inv (snd (poolCount pool r))" and "reg_view (snd (poolCount pool r)) = reg_view r"
  using assms by (simp_all add: poolCount_def store_at_length)

lemma shouldShutdown_view:
  "shouldShutdown tid r =
     (case reg_view r tid of None \<Rightarrow> Terminate | Some d \<Rightarrow> Ret (td_should_shutdown d))"
  by (simp add: shouldShutdown_def reg_view_def DS_ASSERT_if split: option.splits)

lemma setThreadState_ok:
  assumes "reg_inv r" and "reg_view r tid = Some d"
  shows "\<exists>r'. setThreadState tid state r = Ret r' \<and> reg_inv r' \<and>
           reg_view r' = (reg_view r)(tid \<mapsto> d\<lparr>td_state := state\<rparr>)"
proof -
  let ?r' = "r\<lparr>m_thread_map := map_put tid (d\<lparr>td_state := state\<rparr>) (m_thread_map r)\<rparr>"
  have "setThreadState tid state r = Ret ?r'"
    using assms(2) by (simp add: setThreadState_def reg_view_def)
  moreover have "reg_inv ?r'"
    using assms reg_invD [OF assms(1)] by (auto simp: reg_inv_def map_simps reg_view_def)
  moreover have "reg_view ?r' = (reg_view r)(tid \<mapsto> d\<lparr>td_state := state\<rparr>)"
    using reg_invD(1) [OF assms(1)] by (auto simp: reg_view_def map_simps fun_eq_iff)
  ultimately show ?thesis by blast
qed

lemma setThreadState_absent: "reg_view r tid = None \<Longrightarrow> setThreadState tid state r = Terminate"
  by (simp add: setThreadState_def reg_view_def)

section \<open>sendShutdown\<close>

lemma quota_step:
  fixes count sent :: u32
  assumes "sent + 1 \<noteq> count"
  shows "shutdown_quota (count - sent) = Suc (shutdown_quota (count - (sent + 1)))"
proof -
  define k where "k = count - sent"
  have "k \<noteq> 1" using assms by (auto simp: k_def diff_eq_eq add.commute)
  moreover have d: "count - (sent + 1) = k - 1" by (simp add: k_def)
  moreover have "unat (k - 1) = unat k - 1" if "k \<noteq> 0"
    using that by (rule unat_minus_one)
  moreover have "0 < unat k" if "k \<noteq> 0"
    using that by (simp add: unat_gt_0)
  ultimately show ?thesis
    unfolding k_def [symmetric] d shutdown_quota_def
    by (cases "k = 0") (simp_all add: unat_minus_one_u32)
qed

lemma quota_last: "shutdown_quota ((sent + 1) - sent) = Suc 0"
  by (simp add: shutdown_quota_def)

lemma mark_all_Cons_step:
  assumes "t \<notin> set ts"
  shows "mark_all ts (A(t \<mapsto> mark d)) = (mark_all (t # ts) (A(t \<mapsto> d)))"
  using assms by (auto simp: mark_all_def fun_eq_iff)

lemma sendShutdown_loop_spec:
  fixes tids :: "tid list" and count sent :: u32 and m :: ThreadMap
  assumes "map_inv m" and "distinct tids" and "\<forall>t\<in>set tids. map_find t m \<noteq> None"
  defines "A \<equiv> (\<lambda>t. map_find t m)"
  defines "vs \<equiv> take (shutdown_quota (count - sent)) (filter (unmarked A) tids)"
  shows "\<exists>m'. sendShutdown_loop tids count sent m = Ret (sent + of_nat (length vs), m') \<and>
           map_inv m' \<and> (\<lambda>t. map_find t m') = mark_all vs A"
  using assms(1-3) unfolding A_def vs_def
proof (induction tids arbitrary: sent m)
  case Nil
  then show ?case by (simp add: mark_all_def)
next
  case (Cons tid tids)
  from Cons.prems obtain d where d: "map_find tid m = Some d" by auto
  let ?A = "\<lambda>t. map_find t m"
  show ?case
  proof (cases "td_should_shutdown d")
    case True
    then have "\<not> unmarked ?A tid" by (simp add: unmarked_def d)
    with True d Cons.IH [of m sent] Cons.prems show ?thesis by simp
  next
    case False
    let ?m = "map_put tid (mark d) m"
    have f: "(\<lambda>t. map_find t ?m) = ?A(tid \<mapsto> mark d)"
      using Cons.prems(1) by (rule std_map.find_fun_put)
    have u: "unmarked ?A tid" using False by (simp add: unmarked_def d)
    have A: "?A(tid \<mapsto> d) = ?A" using d by auto
    have rest: "filter (unmarked (?A(tid \<mapsto> mark d))) tids = filter (unmarked ?A) tids"
      using Cons.prems(2) by (intro filter_cong) (auto simp: unmarked_def)
    show ?thesis
    proof (cases "sent + 1 = count")
      case True
      have v: "take (shutdown_quota (count - sent)) (filter (unmarked ?A) (tid # tids)) = [tid]"
        using u quota_last [of sent] by (simp add: True)
      have "mark_all [tid] ?A = ?A(tid \<mapsto> mark d)"
        using d by (auto simp: mark_all_def fun_eq_iff)
      with True False d v f Cons.prems(1) show ?thesis
        by (auto simp: mark_def Let_def)
    next
      case sent: False
      let ?vs = "take (shutdown_quota (count - (sent + 1))) (filter (unmarked ?A) tids)"
      have tid_nin: "tid \<notin> set ?vs"
        using Cons.prems(2) by (auto dest: in_set_takeD)
      have "\<exists>m'. sendShutdown_loop tids count (sent + 1) ?m = Ret (sent + 1 + of_nat (length ?vs), m') \<and>
              map_inv m' \<and> (\<lambda>t. map_find t m') = mark_all ?vs (?A(tid \<mapsto> mark d))"
      proof -
        have "\<forall>t\<in>set tids. map_find t ?m \<noteq> None"
          using Cons.prems by (simp add: map_simps)
        with Cons.IH [of ?m "sent + 1"] Cons.prems show ?thesis
          unfolding f rest by simp
      qed
      moreover have "mark_all ?vs (?A(tid \<mapsto> mark d)) = mark_all (tid # ?vs) ?A"
        using mark_all_Cons_step [OF tid_nin, of ?A d] A by simp
      moreover have "take (shutdown_quota (count - sent)) (filter (unmarked ?A) (tid # tids)) = tid # ?vs"
        using u sent by (simp add: quota_step)
      ultimately show ?thesis
        using False d sent by (simp add: mark_def Let_def add.assoc)
    qed
  qed
qed

lemma sendShutdown_view:
  fixes pool :: string and count :: u32 and r :: ThreadRegistry
  assumes "reg_inv r"
  defines "vs \<equiv> shutdown_victims pool count r"
  shows "\<exists>r'. sendShutdown pool count r = Ret (of_nat (length vs) = count, r') \<and>
           reg_inv r' \<and> reg_view r' = mark_all vs (reg_view r)"
proof -
  note inv = reg_invD [OF assms(1)]
  have A: "reg_view r = (\<lambda>t. map_find t (m_thread_map r))" by (simp add: reg_view_def fun_eq_iff)
  have "\<forall>t\<in>set (store_at pool r). map_find t (m_thread_map r) \<noteq> None"
    using inv(4) by (auto simp: reg_view_def)
  from sendShutdown_loop_spec [OF inv(1) set_inv_distinct [OF inv(3)] this, of count 0]
  obtain m' where m': "sendShutdown_loop (store_at pool r) count 0 (m_thread_map r) = Ret (of_nat (length vs), m')"
      "map_inv m'" "(\<lambda>t. map_find t m') = mark_all vs (reg_view r)"
    unfolding vs_def shutdown_victims_def A by auto
  let ?r' = "(store_touch pool r)\<lparr>m_thread_map := m'\<rparr>"
  have v: "reg_view ?r' = mark_all vs (reg_view r)"
    using m'(3) by (simp add: reg_view_def fun_eq_iff)
  have "map_find t m' = mark_all vs (reg_view r) t" for t
    using m'(3) by (metis (no_types))
  then have "reg_inv ?r'"
    using m'(2) inv by (auto simp: reg_inv_def mark_all_def)
  with v m'(1) show ?thesis
    by (simp add: sendShutdown_def)
qed

lemma shutdown_victims_sub: "set (shutdown_victims pool count r) \<subseteq> set (store_at pool r)"
  by (auto simp: shutdown_victims_def dest: in_set_takeD)

lemma shutdown_victims_unmarked: "t \<in> set (shutdown_victims pool count r) \<Longrightarrow> unmarked (reg_view r) t"
  by (auto simp: shutdown_victims_def dest: in_set_takeD)

lemma length_shutdown_victims:
  assumes "reg_inv r"
  shows "length (shutdown_victims pool count r) =
           min (shutdown_quota count) (card {t \<in> pool_members pool (reg_view r). unmarked (reg_view r) t})"
proof -
  let ?u = "filter (unmarked (reg_view r)) (store_at pool r)"
  have "distinct ?u" using reg_invD(3) [OF assms] by (simp add: set_inv_distinct)
  then have "length ?u = card (set ?u)" by (rule distinct_card [symmetric])
  also have "set ?u = {t \<in> pool_members pool (reg_view r). unmarked (reg_view r) t}"
    using store_at_members [OF assms] by auto
  finally show ?thesis by (simp add: shutdown_victims_def)
qed

text \<open>The victims come in the order of the set: they are the least of the pool's members not told yet.\<close>

lemma shutdown_victims_least:
  assumes "reg_inv r"
  shows "shutdown_victims pool count r =
    take (shutdown_quota count) (sorted_list_of_set {t \<in> pool_members pool (reg_view r). unmarked (reg_view r) t})"
proof -
  let ?u = "filter (unmarked (reg_view r)) (store_at pool r)"
  have "sorted ?u" "distinct ?u"
    using reg_invD(3) [OF assms, of pool] by (auto simp: set_inv_def strict_sorted_imp_sorted set_inv_distinct sorted_wrt_filter)
  moreover have "set ?u = {t \<in> pool_members pool (reg_view r). unmarked (reg_view r) t}"
    using store_at_members [OF assms] by auto
  ultimately show ?thesis using sorted_list_of_set.idem_if_sorted_distinct [of ?u] by (simp add: shutdown_victims_def)
qed

lemma distinct_shutdown_victims: "reg_inv r \<Longrightarrow> distinct (shutdown_victims pool count r)"
  by (simp add: shutdown_victims_def reg_invD(3) set_inv_distinct)

section \<open>The interface the workers and the watcher rely on\<close>

locale thread_table =
  fixes register :: "string \<Rightarrow> tid \<Rightarrow> 'r \<Rightarrow> 'r cxx"
    and unregister :: "string \<Rightarrow> tid \<Rightarrow> 'r \<Rightarrow> 'r cxx"
    and pool_count :: "string \<Rightarrow> 'r \<Rightarrow> u32 \<times> 'r"
    and send_shutdown :: "string \<Rightarrow> u32 \<Rightarrow> 'r \<Rightarrow> (bool \<times> 'r) cxx"
    and should_shutdown :: "tid \<Rightarrow> 'r \<Rightarrow> bool cxx"
    and set_state :: "tid \<Rightarrow> string \<Rightarrow> 'r \<Rightarrow> 'r cxx"
    and view :: "'r \<Rightarrow> tid \<rightharpoonup> ThreadData"
    and ok :: "'r \<Rightarrow> bool"
  assumes register_ok: "ok r \<Longrightarrow> view r t = None \<Longrightarrow>
      \<exists>r'. register p t r = Ret r' \<and> ok r' \<and> view r' = (view r)(t \<mapsto> fresh_data p)"
    and unregister_ok: "ok r \<Longrightarrow> view r t = Some d \<Longrightarrow> td_pool d = p \<Longrightarrow>
      \<exists>r'. unregister p t r = Ret r' \<and> ok r' \<and> view r' = (view r)(t := None)"
    and pool_count_ok: "ok r \<Longrightarrow>
      fst (pool_count p r) = of_nat (card (pool_members p (view r))) \<and>
      ok (snd (pool_count p r)) \<and> view (snd (pool_count p r)) = view r"
    and send_shutdown_ok: "ok r \<Longrightarrow>
      \<exists>b r' vs. send_shutdown p n r = Ret (b, r') \<and> ok r' \<and> view r' = mark_all vs (view r) \<and>
        set vs \<subseteq> pool_members p (view r) \<and> b = (of_nat (length vs) = n) \<and> distinct vs \<and>
        length vs = min (shutdown_quota n) (card {t \<in> pool_members p (view r). unmarked (view r) t}) \<and>
        (\<forall>t\<in>set vs. unmarked (view r) t)"
    and should_shutdown_ok: "view r t = Some d \<Longrightarrow> should_shutdown t r = Ret (td_should_shutdown d)"
    and set_state_ok: "ok r \<Longrightarrow> view r t = Some d \<Longrightarrow>
      \<exists>r'. set_state t s r = Ret r' \<and> ok r' \<and> view r' = (view r)(t \<mapsto> d\<lparr>td_state := s\<rparr>)"
begin

text \<open>A worker's constructor: an entry of its own, never a failed assertion.\<close>

lemma worker_setup:
  assumes "ok r" and "view r t = None"
  shows "\<exists>r'. cxx_bind (register p t r) (set_state t s) = Ret r' \<and> ok r' \<and>
           view r' = (view r)(t \<mapsto> (fresh_data p)\<lparr>td_state := s\<rparr>)"
proof -
  obtain r1 where r1: "register p t r = Ret r1" "ok r1" "view r1 = (view r)(t \<mapsto> fresh_data p)"
    using register_ok [OF assms] by blast
  with set_state_ok [of r1 t "fresh_data p" s] show ?thesis by auto
qed

text \<open>A worker's whole life leaves no trace in the table.\<close>

lemma worker_setup_teardown:
  assumes "ok r" and "view r t = None"
  shows "\<exists>r1 r2. cxx_bind (register p t r) (set_state t s) = Ret r1 \<and>
           unregister p t r1 = Ret r2 \<and> ok r2 \<and> view r2 = view r"
proof -
  obtain r1 where r1: "cxx_bind (register p t r) (set_state t s) = Ret r1" "ok r1"
      "view r1 = (view r)(t \<mapsto> (fresh_data p)\<lparr>td_state := s\<rparr>)"
    using worker_setup [OF assms] by blast
  have "view r1 t = Some ((fresh_data p)\<lparr>td_state := s\<rparr>)"
       "td_pool ((fresh_data p)\<lparr>td_state := s\<rparr>) = p"
    using r1(3) by (simp_all add: fresh_data_def)
  from unregister_ok [OF r1(2) this] obtain r2 where "unregister p t r1 = Ret r2" "ok r2"
      "view r2 = (view r1)(t := None)" by blast
  moreover have "(view r1)(t := None) = view r"
    using r1(3) assms(2) by auto
  ultimately show ?thesis using r1(1) by auto
qed

text \<open>A shutdown request is never withdrawn: a thread that was told is still told afterwards.\<close>

lemma told_stays_told:
  assumes "ok r" and "should_shutdown t r = Ret True" and "view r t = Some d"
    and "send_shutdown p n r = Ret (b, r')"
  shows "should_shutdown t r' = Ret True"
proof -
  obtain vs where v: "view r' = mark_all vs (view r)"
    using send_shutdown_ok [OF assms(1), of p n] assms(4) by auto
  have "td_should_shutdown d" using should_shutdown_ok [OF assms(3)] assms(2) by simp
  then obtain d' where "view r' t = Some d'" "td_should_shutdown d'"
    using v assms(3) by (cases "t \<in> set vs") (auto simp: mark_all_def)
  with should_shutdown_ok [of r' t d'] show ?thesis by simp
qed

text \<open>Asking for at least as many shutdowns as a pool has members tells every member.\<close>

lemma send_shutdown_whole_pool:
  assumes "ok r" and "finite (pool_members p (view r))" and "card (pool_members p (view r)) \<le> shutdown_quota n"
    and "t \<in> pool_members p (view r)"
  shows "\<exists>b r'. send_shutdown p n r = Ret (b, r') \<and> ok r' \<and> should_shutdown t r' = Ret True"
proof -
  let ?U = "{t \<in> pool_members p (view r). unmarked (view r) t}"
  obtain b r' vs where s: "send_shutdown p n r = Ret (b, r')" "ok r'" "view r' = mark_all vs (view r)"
      "set vs \<subseteq> pool_members p (view r)" "distinct vs"
      "length vs = min (shutdown_quota n) (card ?U)" "\<forall>t\<in>set vs. unmarked (view r) t"
    using send_shutdown_ok [OF assms(1), of p n] by auto
  have U: "finite ?U" "card ?U \<le> card (pool_members p (view r))"
    using assms(2) by (auto intro: card_mono)
  have "set vs \<subseteq> ?U" using s(4,7) by auto
  moreover have "card (set vs) = card ?U"
    using s(5,6) assms(3) U(2) by (simp add: distinct_card)
  ultimately have vs: "set vs = ?U" using U(1) by (simp add: card_subset_eq)
  obtain d where d: "view r t = Some d" using assms(4) by (auto simp: pool_members_def)
  have "t \<in> set vs \<or> td_should_shutdown d"
    using vs d assms(4) by (auto simp: unmarked_def)
  then obtain d' where "view r' t = Some d'" "td_should_shutdown d'"
    using s(3) d by (cases "t \<in> set vs") (auto simp: mark_all_def)
  with s(1,2) should_shutdown_ok [of r' t d'] show ?thesis by simp
qed

end

interpretation tt: thread_table registerThread unregisterThread poolCount sendShutdown shouldShutdown
  setThreadState reg_view reg_inv
proof
  fix r p n
  assume r: "reg_inv r"
  show "\<exists>b r' vs. sendShutdown p n r = Ret (b, r') \<and> reg_inv r' \<and> reg_view r' = mark_all vs (reg_view r) \<and>
      set vs \<subseteq> pool_members p (reg_view r) \<and> b = (of_nat (length vs) = n) \<and> distinct vs \<and>
      length vs = min (shutdown_quota n) (card {t \<in> pool_members p (reg_view r). unmarked (reg_view r) t}) \<and>
      (\<forall>t\<in>set vs. unmarked (reg_view r) t)"
  proof -
    obtain r' where "sendShutdown p n r = Ret (of_nat (length (shutdown_victims p n r)) = n, r')"
        "reg_inv r'" "reg_view r' = mark_all (shutdown_victims p n r) (reg_view r)"
      using sendShutdown_view [OF r, of p n] by blast
    then show ?thesis
      using shutdown_victims_sub [of p n r] shutdown_victims_unmarked [of _ p n r]
        length_shutdown_victims [OF r, of p n] distinct_shutdown_victims [OF r, of p n]
        store_at_members [OF r, of p]
      by (intro exI [of _ "of_nat (length (shutdown_victims p n r)) = n"] exI [of _ r']
          exI [of _ "shutdown_victims p n r"]) simp
  qed
qed (simp_all add: registerThread_ok unregisterThread_ok poolCount_view shouldShutdown_view setThreadState_ok)

end
