(* ===== verification/Metric_Proxy.thy ===== *)
theory Metric_Proxy
  imports Complex_Main Containers
begin

text \<open>
  \<^verbatim>\<open>MetricProxy\<close> and \<^verbatim>\<open>MetricProxyPoolWrapper\<close> (\<^verbatim>\<open>src/metric-proxy.h\<close>, \<^verbatim>\<open>src/metric-proxy.cpp\<close>).
  The Prometheus client library is not part of the program: the state of a \<^verbatim>\<open>MetricProxy\<close> is the
  sequence of library calls it has made, each on one metric family with one set of labels, and
  the value of a gauge or counter is what those calls add up to. The locale \<open>thread_gauges\<close>
  states what a worker relies on; it is interpreted on the proxy's own operations.
\<close>

section \<open>Library calls and readings\<close>

text \<open>
  A label set is a \<^verbatim>\<open>std::map<std::string, std::string>\<close>; the brace-enclosed list that builds it
  is inserted entry by entry.
\<close>

type_synonym labels = "(string \<times> string) list"

definition make_labels :: "(string \<times> string) list \<Rightarrow> labels" where
  "make_labels xs = fold (\<lambda>(k, v). map_put k v) xs []"

datatype metric_call =
    Observe_job_duration labels real
  | Increment_http_errors labels
  | Increment_timeouts labels
  | Increment_errors labels
  | Increment_threads labels
  | Decrement_threads labels

record MetricProxy =
  m_calls :: "metric_call list"

definition emit :: "metric_call \<Rightarrow> MetricProxy \<Rightarrow> MetricProxy" where
  "emit c m = m\<lparr>m_calls := m_calls m @ [c]\<rparr>"

definition occurrences :: "metric_call \<Rightarrow> MetricProxy \<Rightarrow> nat" where
  "occurrences c m = length (filter (\<lambda>c'. c' = c) (m_calls m))"

definition threads_gauge :: "labels \<Rightarrow> MetricProxy \<Rightarrow> int" where
  "threads_gauge l m = int (occurrences (Increment_threads l) m) - int (occurrences (Decrement_threads l) m)"

section \<open>MetricProxy\<close>

definition new_MetricProxy :: MetricProxy where
  "new_MetricProxy = \<lparr>m_calls = []\<rparr>"

definition function_labels :: "string \<Rightarrow> string \<Rightarrow> labels" where
  "function_labels pool_name function_name = make_labels [(''pool'', pool_name), (''function'', function_name)]"

definition idle_labels :: "string \<Rightarrow> labels" where
  "idle_labels pool_name = make_labels [(''pool'', pool_name), (''status'', ''idle'')]"

definition working_labels :: "string \<Rightarrow> string \<Rightarrow> labels" where
  "working_labels pool_name function_name =
     make_labels [(''pool'', pool_name), (''function'', function_name), (''status'', ''working'')]"

definition reportJobSuccess :: "string \<Rightarrow> string \<Rightarrow> real \<Rightarrow> MetricProxy \<Rightarrow> MetricProxy" where
  "reportJobSuccess pool_name function_name duration m =
     emit (Observe_job_duration (function_labels pool_name function_name) duration) m"

definition reportHttpJobError :: "string \<Rightarrow> string \<Rightarrow> u16 \<Rightarrow> MetricProxy \<Rightarrow> MetricProxy" where
  "reportHttpJobError pool_name function_name http_status m =
     (let http_status_str = to_string_nat (unat http_status) in
      emit (Increment_http_errors (make_labels [(''pool'', pool_name),
                                                (''function'', function_name),
                                                (''http_status'', http_status_str)])) m)"

definition reportJobTimeout :: "string \<Rightarrow> string \<Rightarrow> MetricProxy \<Rightarrow> MetricProxy" where
  "reportJobTimeout pool_name function_name m =
     emit (Increment_timeouts (function_labels pool_name function_name)) m"

definition reportJobError :: "string \<Rightarrow> string \<Rightarrow> MetricProxy \<Rightarrow> MetricProxy" where
  "reportJobError pool_name function_name m =
     emit (Increment_errors (function_labels pool_name function_name)) m"

definition reportThreadStartingWork :: "string \<Rightarrow> string \<Rightarrow> MetricProxy \<Rightarrow> MetricProxy" where
  "reportThreadStartingWork pool_name function_name m =
     (let active = working_labels pool_name function_name; idle = idle_labels pool_name in
      emit (Decrement_threads idle) (emit (Increment_threads active) m))"

definition reportThreadWorkComplete :: "string \<Rightarrow> string \<Rightarrow> MetricProxy \<Rightarrow> MetricProxy" where
  "reportThreadWorkComplete pool_name function_name m =
     (let active = working_labels pool_name function_name; idle = idle_labels pool_name in
      emit (Increment_threads idle) (emit (Decrement_threads active) m))"

definition reportThreadStarted :: "string \<Rightarrow> MetricProxy \<Rightarrow> MetricProxy" where
  "reportThreadStarted pool_name m = emit (Increment_threads (idle_labels pool_name)) m"

definition reportThreadEnded :: "string \<Rightarrow> MetricProxy \<Rightarrow> MetricProxy" where
  "reportThreadEnded pool_name m = emit (Decrement_threads (idle_labels pool_name)) m"

section \<open>MetricProxyInterface\<close>

text \<open>The abstract class as the table of its virtual methods, over any representation \<open>'m\<close>.\<close>

record 'm MetricProxyInterface =
  i_reportJobSuccess :: "string \<Rightarrow> string \<Rightarrow> real \<Rightarrow> 'm \<Rightarrow> 'm"
  i_reportHttpJobError :: "string \<Rightarrow> string \<Rightarrow> u16 \<Rightarrow> 'm \<Rightarrow> 'm"
  i_reportJobTimeout :: "string \<Rightarrow> string \<Rightarrow> 'm \<Rightarrow> 'm"
  i_reportJobError :: "string \<Rightarrow> string \<Rightarrow> 'm \<Rightarrow> 'm"
  i_reportThreadStarted :: "string \<Rightarrow> 'm \<Rightarrow> 'm"
  i_reportThreadEnded :: "string \<Rightarrow> 'm \<Rightarrow> 'm"
  i_reportThreadStartingWork :: "string \<Rightarrow> string \<Rightarrow> 'm \<Rightarrow> 'm"
  i_reportThreadWorkComplete :: "string \<Rightarrow> string \<Rightarrow> 'm \<Rightarrow> 'm"

definition MetricProxy_methods :: "MetricProxy MetricProxyInterface" where
  "MetricProxy_methods = \<lparr>
     i_reportJobSuccess = reportJobSuccess,
     i_reportHttpJobError = reportHttpJobError,
     i_reportJobTimeout = reportJobTimeout,
     i_reportJobError = reportJobError,
     i_reportThreadStarted = reportThreadStarted,
     i_reportThreadEnded = reportThreadEnded,
     i_reportThreadStartingWork = reportThreadStartingWork,
     i_reportThreadWorkComplete = reportThreadWorkComplete\<rparr>"

section \<open>MetricProxyPoolWrapper\<close>

text \<open>
  One wrapper per worker thread; \<^verbatim>\<open>m_active_function\<close> is a \<^verbatim>\<open>std::stack\<close>, its top the head of the
  list. The proxy behind \<^verbatim>\<open>m_metric_proxy\<close> is shared and reached through its virtual methods
  \<open>I\<close>, so its state is passed along and returned.
\<close>

record MetricProxyPoolWrapper =
  m_pool_name :: string
  m_active_function :: "string list"

definition wrap :: "string \<Rightarrow> MetricProxyPoolWrapper" where
  "wrap pool_name = \<lparr>m_pool_name = pool_name, m_active_function = []\<rparr>"

definition w_reportJobSuccess ::
  "'m MetricProxyInterface \<Rightarrow> string \<Rightarrow> real \<Rightarrow> MetricProxyPoolWrapper \<Rightarrow> 'm \<Rightarrow> 'm" where
  "w_reportJobSuccess I function_name duration w m =
     i_reportJobSuccess I (m_pool_name w) function_name duration m"

definition w_reportJobHttpError ::
  "'m MetricProxyInterface \<Rightarrow> string \<Rightarrow> u16 \<Rightarrow> MetricProxyPoolWrapper \<Rightarrow> 'm \<Rightarrow> 'm" where
  "w_reportJobHttpError I function_name http_status w m =
     i_reportHttpJobError I (m_pool_name w) function_name http_status m"

definition w_reportJobTimeout ::
  "'m MetricProxyInterface \<Rightarrow> string \<Rightarrow> MetricProxyPoolWrapper \<Rightarrow> 'm \<Rightarrow> 'm" where
  "w_reportJobTimeout I function_name w m = i_reportJobTimeout I (m_pool_name w) function_name m"

definition w_reportJobError ::
  "'m MetricProxyInterface \<Rightarrow> string \<Rightarrow> MetricProxyPoolWrapper \<Rightarrow> 'm \<Rightarrow> 'm" where
  "w_reportJobError I function_name w m = i_reportJobError I (m_pool_name w) function_name m"

definition w_reportThreadStarted ::
  "'m MetricProxyInterface \<Rightarrow> MetricProxyPoolWrapper \<Rightarrow> 'm \<Rightarrow> 'm" where
  "w_reportThreadStarted I w m = i_reportThreadStarted I (m_pool_name w) m"

definition w_reportThreadEnded ::
  "'m MetricProxyInterface \<Rightarrow> MetricProxyPoolWrapper \<Rightarrow> 'm \<Rightarrow> MetricProxyPoolWrapper \<times> 'm" where
  "w_reportThreadEnded I w m =
     (case m_active_function w of
        [] \<Rightarrow> (w, i_reportThreadEnded I (m_pool_name w) m)
      | function_name # rest \<Rightarrow>
          (w\<lparr>m_active_function := rest\<rparr>, i_reportThreadWorkComplete I (m_pool_name w) function_name m))"

definition w_reportThreadStartingWork ::
  "'m MetricProxyInterface \<Rightarrow> string \<Rightarrow> MetricProxyPoolWrapper \<Rightarrow> 'm \<Rightarrow> MetricProxyPoolWrapper \<times> 'm" where
  "w_reportThreadStartingWork I function_name w m =
     (w\<lparr>m_active_function := function_name # m_active_function w\<rparr>,
      i_reportThreadStartingWork I (m_pool_name w) function_name m)"

definition w_reportThreadWorkComplete ::
  "'m MetricProxyInterface \<Rightarrow> MetricProxyPoolWrapper \<Rightarrow> 'm \<Rightarrow> MetricProxyPoolWrapper \<times> 'm" where
  "w_reportThreadWorkComplete I w m =
     (case m_active_function w of
        [] \<Rightarrow> (w, m)
      | function_name # rest \<Rightarrow>
          (w\<lparr>m_active_function := rest\<rparr>, i_reportThreadWorkComplete I (m_pool_name w) function_name m))"

text \<open>
  The calls a running worker makes on its wrapper between its start and its end: a job begins,
  work is reported complete, or a job's result is counted.
\<close>

datatype worker_report =
    Job_begins string
  | Work_completes
  | Job_succeeds string real
  | Job_http_error string u16
  | Job_times_out string
  | Job_fails string

primrec wrapper_report ::
  "'m MetricProxyInterface \<Rightarrow> worker_report \<Rightarrow> MetricProxyPoolWrapper \<Rightarrow> 'm \<Rightarrow> MetricProxyPoolWrapper \<times> 'm" where
  "wrapper_report I (Job_begins f) w m = w_reportThreadStartingWork I f w m"
| "wrapper_report I Work_completes w m = w_reportThreadWorkComplete I w m"
| "wrapper_report I (Job_succeeds f d) w m = (w, w_reportJobSuccess I f d w m)"
| "wrapper_report I (Job_http_error f s) w m = (w, w_reportJobHttpError I f s w m)"
| "wrapper_report I (Job_times_out f) w m = (w, w_reportJobTimeout I f w m)"
| "wrapper_report I (Job_fails f) w m = (w, w_reportJobError I f w m)"

fun wrapper_run ::
  "'m MetricProxyInterface \<Rightarrow> worker_report list \<Rightarrow> MetricProxyPoolWrapper \<Rightarrow> 'm \<Rightarrow> MetricProxyPoolWrapper \<times> 'm" where
  "wrapper_run I [] w m = (w, m)"
| "wrapper_run I (e # es) w m = (let (w', m') = wrapper_report I e w m in wrapper_run I es w' m')"

section \<open>Readings after each call\<close>

abbreviation idle_gauge :: "string \<Rightarrow> MetricProxy \<Rightarrow> int" where
  "idle_gauge pool m \<equiv> threads_gauge (idle_labels pool) m"

abbreviation working_gauge :: "string \<Rightarrow> string \<Rightarrow> MetricProxy \<Rightarrow> int" where
  "working_gauge pool f m \<equiv> threads_gauge (working_labels pool f) m"

lemma label_order: "''function'' < ''pool''" "''function'' < ''status''" "''pool'' < ''status''"
    "\<not> ''pool'' < ''function''" "\<not> ''status'' < ''pool''" "\<not> ''status'' < ''function''"
    "''http_status'' < ''pool''" "''function'' < ''http_status''"
  by code_simp+

lemma idle_labels_eq: "idle_labels pool = [(''pool'', pool), (''status'', ''idle'')]"
  by (simp add: idle_labels_def make_labels_def label_order)

lemma working_labels_eq:
  "working_labels pool f = [(''function'', f), (''pool'', pool), (''status'', ''working'')]"
  by (simp add: working_labels_def make_labels_def label_order)

lemma labels_inject [simp]:
  "idle_labels p = idle_labels q \<longleftrightarrow> p = q"
  "working_labels p f = working_labels q g \<longleftrightarrow> p = q \<and> f = g"
  "idle_labels p \<noteq> working_labels q g"
  "working_labels q g \<noteq> idle_labels p"
  by (auto simp: idle_labels_eq working_labels_eq)

lemma occurrences_emit [metric_simps]:
  "occurrences c (emit c' m) = (if c' = c then Suc (occurrences c m) else occurrences c m)"
  by (simp add: occurrences_def emit_def)

lemma threads_gauge_emit [metric_simps]:
  "threads_gauge l (emit c m) =
     (case c of Increment_threads l' \<Rightarrow> (if l' = l then threads_gauge l m + 1 else threads_gauge l m)
      | Decrement_threads l' \<Rightarrow> (if l' = l then threads_gauge l m - 1 else threads_gauge l m)
      | _ \<Rightarrow> threads_gauge l m)"
  by (cases c) (simp_all add: threads_gauge_def occurrences_emit)

lemma gauge_reports [metric_simps]:
  "idle_gauge p (reportThreadStarted q m) = idle_gauge p m + (if p = q then 1 else 0)"
  "idle_gauge p (reportThreadEnded q m) = idle_gauge p m - (if p = q then 1 else 0)"
  "idle_gauge p (reportThreadStartingWork q g m) = idle_gauge p m - (if p = q then 1 else 0)"
  "idle_gauge p (reportThreadWorkComplete q g m) = idle_gauge p m + (if p = q then 1 else 0)"
  "working_gauge p f (reportThreadStarted q m) = working_gauge p f m"
  "working_gauge p f (reportThreadEnded q m) = working_gauge p f m"
  "working_gauge p f (reportThreadStartingWork q g m) = working_gauge p f m + (if p = q \<and> f = g then 1 else 0)"
  "working_gauge p f (reportThreadWorkComplete q g m) = working_gauge p f m - (if p = q \<and> f = g then 1 else 0)"
  by (auto simp: reportThreadStarted_def reportThreadEnded_def reportThreadStartingWork_def
      reportThreadWorkComplete_def Let_def threads_gauge_emit)

lemma gauge_job_reports [metric_simps]:
  "threads_gauge l (reportJobSuccess q g x m) = threads_gauge l m"
  "threads_gauge l (reportHttpJobError q g s m) = threads_gauge l m"
  "threads_gauge l (reportJobTimeout q g m) = threads_gauge l m"
  "threads_gauge l (reportJobError q g m) = threads_gauge l m"
  by (simp_all add: reportJobSuccess_def reportHttpJobError_def reportJobTimeout_def
      reportJobError_def Let_def threads_gauge_emit)

lemma MetricProxy_methods_sel [simp]:
  "i_reportJobSuccess MetricProxy_methods = reportJobSuccess"
  "i_reportHttpJobError MetricProxy_methods = reportHttpJobError"
  "i_reportJobTimeout MetricProxy_methods = reportJobTimeout"
  "i_reportJobError MetricProxy_methods = reportJobError"
  "i_reportThreadStarted MetricProxy_methods = reportThreadStarted"
  "i_reportThreadEnded MetricProxy_methods = reportThreadEnded"
  "i_reportThreadStartingWork MetricProxy_methods = reportThreadStartingWork"
  "i_reportThreadWorkComplete MetricProxy_methods = reportThreadWorkComplete"
  by (simp_all add: MetricProxy_methods_def)

section \<open>The interface's laws and the wrapper's accounting\<close>

locale thread_gauges =
  fixes I :: "'m MetricProxyInterface"
    and idle :: "string \<Rightarrow> 'm \<Rightarrow> int"
    and working :: "string \<Rightarrow> string \<Rightarrow> 'm \<Rightarrow> int"
  assumes started: "idle p (i_reportThreadStarted I q m) = idle p m + (if p = q then 1 else 0)"
      "working p f (i_reportThreadStarted I q m) = working p f m"
    and ended: "idle p (i_reportThreadEnded I q m) = idle p m - (if p = q then 1 else 0)"
      "working p f (i_reportThreadEnded I q m) = working p f m"
    and starting: "idle p (i_reportThreadStartingWork I q g m) = idle p m - (if p = q then 1 else 0)"
      "working p f (i_reportThreadStartingWork I q g m) = working p f m + (if p = q \<and> f = g then 1 else 0)"
    and complete: "idle p (i_reportThreadWorkComplete I q g m) = idle p m + (if p = q then 1 else 0)"
      "working p f (i_reportThreadWorkComplete I q g m) = working p f m - (if p = q \<and> f = g then 1 else 0)"
    and job_reports:
      "idle p (i_reportJobSuccess I q g d m) = idle p m" "working p f (i_reportJobSuccess I q g d m) = working p f m"
      "idle p (i_reportHttpJobError I q g s m) = idle p m" "working p f (i_reportHttpJobError I q g s m) = working p f m"
      "idle p (i_reportJobTimeout I q g m) = idle p m" "working p f (i_reportJobTimeout I q g m) = working p f m"
      "idle p (i_reportJobError I q g m) = idle p m" "working p f (i_reportJobError I q g m) = working p f m"
begin

text \<open>
  Accounting of one wrapper: whatever it has added to the working gauges is on its stack, and
  the idle gauge moves the other way by the height of the stack.
\<close>

lemma report_accounts:
  assumes "wrapper_report I e w m = (w', m')"
  shows "m_pool_name w' = m_pool_name w"
    and "idle p m' = idle p m +
           (if p = m_pool_name w then int (length (m_active_function w)) - int (length (m_active_function w')) else 0)"
    and "working p f m' = working p f m +
           (if p = m_pool_name w then int (count_list (m_active_function w') f) - int (count_list (m_active_function w) f) else 0)"
  using assms
  by (cases e; auto simp: w_reportThreadStartingWork_def w_reportThreadWorkComplete_def w_reportJobSuccess_def
      w_reportJobHttpError_def w_reportJobTimeout_def w_reportJobError_def starting complete job_reports
      split: list.splits)+

lemma run_accounts:
  assumes "wrapper_run I es w m = (w', m')"
  shows "m_pool_name w' = m_pool_name w \<and>
     idle p m' = idle p m +
       (if p = m_pool_name w then int (length (m_active_function w)) - int (length (m_active_function w')) else 0) \<and>
     working p f m' = working p f m +
       (if p = m_pool_name w then int (count_list (m_active_function w') f) - int (count_list (m_active_function w) f) else 0)"
  using assms
proof (induction es arbitrary: w m)
  case Nil
  then show ?case by simp
next
  case (Cons e es)
  obtain w1 m1 where r: "wrapper_report I e w m = (w1, m1)" by fastforce
  with Cons.prems have "wrapper_run I es w1 m1 = (w', m')" by simp
  from Cons.IH [OF this] report_accounts [OF r] show ?case
    by auto
qed

text \<open>A worker that ends between two jobs leaves every gauge as it found it.\<close>

lemma lifetime_balances:
  assumes "wrapper_run I es (wrap pool) (w_reportThreadStarted I (wrap pool) m) = (w, m1)"
    and "m_active_function w = []"
  shows "idle p (snd (w_reportThreadEnded I w m1)) = idle p m"
    and "working p f (snd (w_reportThreadEnded I w m1)) = working p f m"
  using run_accounts [OF assms(1), of p f] assms(2)
  by (auto simp: w_reportThreadEnded_def w_reportThreadStarted_def wrap_def started ended)

text \<open>
  A worker that ends with one job on its stack takes the job off the working gauge, but is then
  counted idle for good: the end of the thread itself is not reported on that path.
\<close>

lemma busy_end_leaks_idle:
  assumes "wrapper_run I es (wrap pool) (w_reportThreadStarted I (wrap pool) m) = (w, m1)"
    and "m_active_function w = [g]"
  shows "idle pool (snd (w_reportThreadEnded I w m1)) = idle pool m + 1"
    and "working p f (snd (w_reportThreadEnded I w m1)) = working p f m"
  using run_accounts [OF assms(1), of pool f] run_accounts [OF assms(1), of p f] assms(2)
  by (auto simp: w_reportThreadEnded_def w_reportThreadStarted_def wrap_def started complete)

end

interpretation mp: thread_gauges MetricProxy_methods idle_gauge working_gauge
  by unfold_locales (simp_all add: gauge_reports gauge_job_reports)

end
