(* ===== verification/Gearman_Client.thy ===== *)
theory Gearman_Client
  imports Json_Reader Thread_Registry Metric_Proxy
begin

text \<open>
  \<^verbatim>\<open>GearmanClient\<close> (\<^verbatim>\<open>src/gearman-client.h\<close>, \<^verbatim>\<open>src/gearman-client.cpp\<close>): one per worker thread. It
  takes a job from gearmand, posts it over HTTP and reads the JSON answer. libgearman and libcurl
  are not part of the program: what their calls return is an argument (the records \<open>gearman_lib\<close>,
  \<open>curl_lib\<close>, \<open>gearmand\<close>), and what the program hands to them is kept in the model. The callbacks
  that libcurl makes are the program's own code and are modelled; what libcurl promises about them
  is the predicate \<open>curl_contract\<close>, a hypothesis of the lemmas that need it.
\<close>

section \<open>Data\<close>

text \<open>The return codes the source names; \<open>GEARMAN_OTHER\<close> stands for every other enumerator.\<close>

datatype gearman_return_t =
    GEARMAN_SUCCESS | GEARMAN_IO_WAIT | GEARMAN_NO_JOBS
  | GEARMAN_WORK_ERROR | GEARMAN_WORK_DATA | GEARMAN_WORK_WARNING | GEARMAN_WORK_STATUS
  | GEARMAN_WORK_EXCEPTION | GEARMAN_WORK_FAIL
  | GEARMAN_TIMEOUT | GEARMAN_NOT_CONNECTED | GEARMAN_NO_ACTIVE_FDS
  | GEARMAN_OTHER int

text \<open>
  libgearman, as far as a client meets it before it runs: whether \<^verbatim>\<open>gearman_worker_create\<close> succeeds,
  what adding a server or a function returns, and the numbers of the enumerators.
\<close>

record gearman_lib =
  gl_create :: bool
  gl_add_servers :: "string \<Rightarrow> gearman_return_t"
  gl_add_function :: "string \<Rightarrow> gearman_return_t"
  gl_value :: "gearman_return_t \<Rightarrow> int"
  gl_cast :: "int \<Rightarrow> gearman_return_t"

text \<open>The first three are C strings, without a NUL; the workload is a block of bytes with its length.\<close>

record gearman_job =
  job_function_name :: string
  job_handle :: string
  job_unique :: string
  job_workload :: string

datatype State = INIT | GRAB_JOB | POLL

text \<open>
  \<open>m_worker_servers\<close>, \<open>m_worker_functions\<close>: what the \<^verbatim>\<open>gearman_worker_st\<close> behind \<^verbatim>\<open>m_worker_ptr\<close> has
  been given, and \<open>m_worker_timeout\<close> its timeout in milliseconds. The registry and the metric
  proxy are shared and passed along (\<open>shared\<close>), together with the number of libcurl objects alive.
\<close>

record GearmanClient =
  m_metrics :: MetricProxyPoolWrapper
  m_http_uri :: string
  m_worker_servers :: "string list"
  m_worker_functions :: "string list"
  m_worker_timeout :: u32
  m_json_parser :: OurFeatures
  m_state :: State

record shared =
  sh_registry :: ThreadRegistry
  sh_metrics :: MetricProxy
  sh_curl_handles :: int
  sh_curl_slists :: int
  sh_curl_forms :: int

section \<open>Callbacks\<close>

text \<open>
  The stream throws on \<^verbatim>\<open>failbit\<close> only. A write that cannot store all bytes sets \<^verbatim>\<open>badbit\<close>, which
  does not throw; the next write finds the stream not good, sets \<^verbatim>\<open>failbit\<close> and throws.
  \<open>ck_stored\<close> is how many bytes of the chunk the stream buffer could store.
\<close>

record StringstreamWriter =
  stream_buffer :: string
  stream_bad :: bool
  stream_fail :: bool

record chunk =
  ck_ptr :: string
  ck_size :: u64
  ck_nmemb :: u64
  ck_stored :: nat

definition new_StringstreamWriter :: StringstreamWriter where
  "new_StringstreamWriter = \<lparr>stream_buffer = [], stream_bad = False, stream_fail = False\<rparr>"

definition stream_write :: "nat \<Rightarrow> string \<Rightarrow> u64 \<Rightarrow> StringstreamWriter \<Rightarrow> u64 cxx \<times> StringstreamWriter" where
  "stream_write stored ptr len w =
     (if stream_bad w \<or> stream_fail w then (Throw Ios_failure, w\<lparr>stream_fail := True\<rparr>)
      else if unat len \<le> stored then (Ret len, w\<lparr>stream_buffer := stream_buffer w @ take (unat len) ptr\<rparr>)
      else (Ret len, w\<lparr>stream_buffer := stream_buffer w @ take stored ptr, stream_bad := True\<rparr>))"

definition curl_write_func :: "chunk \<Rightarrow> StringstreamWriter \<Rightarrow> u64 \<times> StringstreamWriter" where
  "curl_write_func c w =
     (let len = ck_size c * ck_nmemb c;
          (r, w') = stream_write (ck_stored c) (ck_ptr c) len w
      in case r of Ret _ \<Rightarrow> (len, w') | _ \<Rightarrow> (0, w'))"

datatype sockopt_result = CURL_SOCKOPT_OK | CURL_SOCKOPT_ERROR

definition curl_set_sockopt :: "int \<Rightarrow> sockopt_result" where
  "curl_set_sockopt setsockopt_ret = (if setsockopt_ret \<noteq> 0 then CURL_SOCKOPT_ERROR else CURL_SOCKOPT_OK)"

text \<open>\<open>g_force_shutdown\<close>, \<^verbatim>\<open>MAX_JOB_RUNNING_TIME\<close>, \<^verbatim>\<open>time(nullptr)\<close> and the job's start time.\<close>

definition curl_progress_func :: "bool \<Rightarrow> u32 \<Rightarrow> int \<Rightarrow> int \<Rightarrow> int" where
  "curl_progress_func g_force_shutdown MAX_JOB_RUNNING_TIME cur_time start_time =
     (if g_force_shutdown then 1
      else if start_time + int (unat MAX_JOB_RUNNING_TIME) < cur_time then 1
      else 0)"

section \<open>libcurl\<close>

record form_part =
  fp_name :: string
  fp_contents :: string

datatype CURLoption =
    CURLOPT_NOSIGNAL int | CURLOPT_TCP_NODELAY int | CURLOPT_SOCKOPTFUNCTION
  | CURLOPT_TCP_KEEPALIVE int | CURLOPT_TCP_KEEPIDLE int | CURLOPT_TCP_KEEPINTVL int
  | CURLOPT_URL string | CURLOPT_WRITEFUNCTION | CURLOPT_WRITEDATA | CURLOPT_NOPROGRESS int
  | CURLOPT_PROGRESSFUNCTION | CURLOPT_PROGRESSDATA int | CURLOPT_HTTPHEADER "string list"
  | CURLOPT_ERRORBUFFER | CURLOPT_HTTPPOST "form_part list"

datatype CURLcode = CURLE_OK | CURLE_ABORTED_BY_CALLBACK | CURLE_OTHER int

text \<open>
  What happened during \<^verbatim>\<open>curl_easy_perform\<close>: the return value of \<^verbatim>\<open>setsockopt\<close> for each socket, the
  chunks passed to the write function, the value of \<open>g_force_shutdown\<close> and the time at each call of
  the progress function, the final code, and the HTTP code \<^verbatim>\<open>curl_easy_getinfo\<close> then gives.
\<close>

record transfer =
  tr_sockets :: "int list"
  tr_chunks :: "chunk list"
  tr_ticks :: "(bool \<times> int) list"
  tr_code :: CURLcode
  tr_http_code :: int

text \<open>\<open>cl_perform\<close> is given the options set on the handle, in order.\<close>

record curl_lib =
  cl_easy_init :: bool
  cl_slist_append :: bool
  cl_setopt :: "CURLoption \<Rightarrow> bool"
  cl_formadd :: "form_part \<Rightarrow> bool"
  cl_perform :: "CURLoption list \<Rightarrow> transfer"

text \<open>The clock readings of one job: its start, and the time it took.\<close>

record job_clock =
  jc_start :: int
  jc_delay :: real

text \<open>What libcurl promises of the callbacks: see its documentation of the three options.\<close>

fun write_all :: "chunk list \<Rightarrow> StringstreamWriter \<Rightarrow> bool \<times> StringstreamWriter" where
  "write_all [] w = (True, w)"
| "write_all (c # cs) w =
     (let (len, w') = curl_write_func c w;
          (ok, w'') = write_all cs w'
      in (len = ck_size c * ck_nmemb c \<and> ok, w''))"

definition curl_contract :: "u32 \<Rightarrow> int \<Rightarrow> transfer \<Rightarrow> bool" where
  "curl_contract max_time start_time tr \<longleftrightarrow>
     ((\<exists>(force, now)\<in>set (tr_ticks tr). curl_progress_func force max_time now start_time \<noteq> 0) \<longrightarrow>
        tr_code tr = CURLE_ABORTED_BY_CALLBACK) \<and>
     (tr_code tr = CURLE_OK \<longrightarrow>
        fst (write_all (tr_chunks tr) new_StringstreamWriter) \<and>
        (\<forall>s\<in>set (tr_sockets tr). curl_set_sockopt s = CURL_SOCKOPT_OK))"

section \<open>Construction\<close>

fun add_servers :: "gearman_lib \<Rightarrow> string list \<Rightarrow> string list \<Rightarrow> string list cxx" where
  "add_servers G [] added = Ret added"
| "add_servers G (server # servers) added =
     (if gl_add_servers G (c_str server) \<noteq> GEARMAN_SUCCESS
      then Throw (GearmanClientException (''Unable to add server: '' @ server) True)
      else add_servers G servers (added @ [c_str server]))"

fun add_functions :: "gearman_lib \<Rightarrow> string list \<Rightarrow> string list \<Rightarrow> string list cxx" where
  "add_functions G [] added = Ret added"
| "add_functions G (job # jobs) added =
     (if gl_add_function G (c_str job) \<noteq> GEARMAN_SUCCESS
      then Throw (GearmanClientException (''Unable to add job: '' @ job) True)
      else add_functions G jobs (added @ [c_str job]))"

definition new_GearmanClient ::
  "gearman_lib \<Rightarrow> u32 \<Rightarrow> MetricProxyPoolWrapper \<Rightarrow> string list \<Rightarrow> string list \<Rightarrow> string \<Rightarrow> shared \<Rightarrow>
   (GearmanClient \<times> shared) cxx" where
  "new_GearmanClient G GEARMAND_RESPONSE_TIMEOUT metrics server_list jobs_list uri sh =
     (if \<not> gl_create G then Throw Bad_alloc
      else
        cxx_bind (add_servers G server_list []) (\<lambda>servers.
        cxx_bind (add_functions G jobs_list []) (\<lambda>functions.
        cxx_bind strict_reader (\<lambda>parser.
        Ret (\<lparr>m_metrics = metrics, m_http_uri = uri, m_worker_servers = servers,
              m_worker_functions = functions, m_worker_timeout = GEARMAND_RESPONSE_TIMEOUT * 1000,
              m_json_parser = parser, m_state = GRAB_JOB\<rparr>,
             sh\<lparr>sh_metrics := w_reportThreadStarted MetricProxy_methods metrics (sh_metrics sh)\<rparr>)))))"

definition delete_GearmanClient :: "GearmanClient \<Rightarrow> shared \<Rightarrow> shared" where
  "delete_GearmanClient cl sh =
     sh\<lparr>sh_metrics := snd (w_reportThreadEnded MetricProxy_methods (m_metrics cl) (sh_metrics sh))\<rparr>"

section \<open>processJob\<close>

text \<open>\<open>keepalive\<close> is whether the build defines \<^verbatim>\<open>HAVE_CURLOPT_TCP_KEEPALIVE\<close>.\<close>

definition curl_options :: "bool \<Rightarrow> string \<Rightarrow> int \<Rightarrow> string list \<Rightarrow> CURLoption list" where
  "curl_options keepalive uri start_ts headerlist =
     [CURLOPT_NOSIGNAL 1, CURLOPT_TCP_NODELAY 1, CURLOPT_SOCKOPTFUNCTION] @
     (if keepalive then [CURLOPT_TCP_KEEPALIVE 1, CURLOPT_TCP_KEEPIDLE 120, CURLOPT_TCP_KEEPINTVL 60] else []) @
     [CURLOPT_URL (c_str uri), CURLOPT_WRITEFUNCTION, CURLOPT_WRITEDATA, CURLOPT_NOPROGRESS 0,
      CURLOPT_PROGRESSFUNCTION, CURLOPT_PROGRESSDATA start_ts, CURLOPT_HTTPHEADER headerlist,
      CURLOPT_ERRORBUFFER]"

definition job_form :: "gearman_job \<Rightarrow> form_part list" where
  "job_form job =
     [\<lparr>fp_name = ''function_name'', fp_contents = job_function_name job\<rparr>,
      \<lparr>fp_name = ''job_handle'', fp_contents = job_handle job\<rparr>,
      \<lparr>fp_name = ''unique'', fp_contents = job_unique job\<rparr>,
      \<lparr>fp_name = ''workload'', fp_contents = job_workload job\<rparr>]"

fun setopts :: "curl_lib \<Rightarrow> CURLoption list \<Rightarrow> CURLoption list \<Rightarrow> bool \<times> CURLoption list" where
  "setopts C [] handle = (True, handle)"
| "setopts C (opt # opts) handle = (if \<not> cl_setopt C opt then (False, handle) else setopts C opts (handle @ [opt]))"

fun formadds :: "curl_lib \<Rightarrow> form_part list \<Rightarrow> form_part list \<Rightarrow> bool \<times> form_part list" where
  "formadds C [] formpost = (True, formpost)"
| "formadds C (part # parts) formpost =
     (if \<not> cl_formadd C part then (False, formpost) else formadds C parts (formpost @ [part]))"

text \<open>Everything up to \<^verbatim>\<open>curl_easy_perform\<close>: success, the handle's options, the form, the header list.\<close>

definition prepare ::
  "curl_lib \<Rightarrow> bool \<Rightarrow> string \<Rightarrow> int \<Rightarrow> gearman_job \<Rightarrow> bool \<times> CURLoption list \<times> form_part list \<times> string list" where
  "prepare C keepalive uri start_ts job =
     (if \<not> cl_easy_init C then (False, [], [], [])
      else
        let headerlist = (if cl_slist_append C then [''Expect:''] else []);
            (opts_ok, handle) = setopts C (curl_options keepalive uri start_ts headerlist) []
        in if \<not> opts_ok then (False, handle, [], headerlist)
           else
             let (form_ok, formpost) = formadds C (job_form job) []
             in if \<not> form_ok then (False, handle, formpost, headerlist)
                else
                  let (post_ok, handle') = setopts C [CURLOPT_HTTPPOST formpost] handle
                  in (post_ok, handle', formpost, headerlist))"

text \<open>\<open>tree[key]\<close> on a tree that is not constant; the member exists wherever it is used below.\<close>

definition member_ref :: "string \<Rightarrow> Value \<Rightarrow> Value cxx" where
  "member_ref key tree = cxx_bind (resolveReference key tree) (\<lambda>(tree', x). Ret x)"

definition response_ok :: "Value \<Rightarrow> bool cxx" where
  "response_ok tree =
     cxx_bind (isMember ''gearman_ret'' tree) (\<lambda>a. if \<not> a then Ret False else
     cxx_bind (isMember ''response_string'' tree) (\<lambda>b. if \<not> b then Ret False else
     cxx_bind (member_ref ''gearman_ret'' tree) (\<lambda>r. if \<not> isUInt r then Ret False else
     cxx_bind (member_ref ''response_string'' tree) (\<lambda>s. Ret (isString s)))))"

text \<open>The answer's code and string; \<open>Ret None\<close> is \<^verbatim>\<open>goto error\<close>.\<close>

definition read_response ::
  "libc \<Rightarrow> gearman_lib \<Rightarrow> OurFeatures \<Rightarrow> string \<Rightarrow> (gearman_return_t \<times> string) option cxx" where
  "read_response L G parser raw_resp_str =
     cxx_bind (OurCharReader_parse parser L raw_resp_str) (\<lambda>(ok, parse_errors, tree).
     if \<not> ok then Ret None else
     cxx_bind (response_ok tree) (\<lambda>valid.
     if \<not> valid then Ret None else
     cxx_bind (cxx_bind (member_ref ''gearman_ret'' tree) asInt) (\<lambda>code.
     cxx_bind (cxx_bind (member_ref ''response_string'' tree) (asString L)) (\<lambda>str.
     Ret (Some (gl_cast G (sint code), str))))))"

definition perform_job ::
  "libc \<Rightarrow> gearman_lib \<Rightarrow> curl_lib \<Rightarrow> job_clock \<Rightarrow> string \<Rightarrow> GearmanClient \<Rightarrow> CURLoption list \<Rightarrow> MetricProxy \<Rightarrow>
   ((gearman_return_t \<times> string) option \<times> MetricProxy) cxx" where
  "perform_job L G C clock function_name cl handle m =
     (let tr = cl_perform C handle;
          raw_resp = stream_buffer (snd (write_all (tr_chunks tr) new_StringstreamWriter))
      in if tr_code tr \<noteq> CURLE_OK then
           Ret (None, if tr_code tr = CURLE_ABORTED_BY_CALLBACK
                      then w_reportJobTimeout MetricProxy_methods function_name (m_metrics cl) m else m)
         else if tr_http_code tr \<noteq> 200 then
           Ret (None, w_reportJobHttpError MetricProxy_methods function_name (word_of_int (tr_http_code tr)) (m_metrics cl) m)
         else
           cxx_bind (read_response L G (m_json_parser cl) raw_resp) (\<lambda>answer.
             case answer of
               None \<Rightarrow> Ret (None, m)
             | Some (code, str) \<Rightarrow>
                 Ret (Some (code, str),
                      w_reportJobSuccess MetricProxy_methods function_name (jc_delay clock) (m_metrics cl) m)))"

definition job_state :: "gearman_job \<Rightarrow> string" where
  "job_state job = ''job_handle='' @ job_handle job @ '' job_unique='' @ job_unique job"

text \<open>
  The count of libcurl objects: one handle, the nodes of the header list, the parts of the form.
\<close>

definition curl_alloc :: "bool \<Rightarrow> string list \<Rightarrow> form_part list \<Rightarrow> shared \<Rightarrow> shared" where
  "curl_alloc curl headerlist formpost sh = sh\<lparr>
     sh_curl_handles := sh_curl_handles sh + (if curl then 1 else 0),
     sh_curl_slists := sh_curl_slists sh + int (length headerlist),
     sh_curl_forms := sh_curl_forms sh + int (length formpost)\<rparr>"

definition curl_cleanup :: "bool \<Rightarrow> string list \<Rightarrow> form_part list \<Rightarrow> shared \<Rightarrow> shared" where
  "curl_cleanup curl headerlist formpost sh = sh\<lparr>
     sh_curl_handles := sh_curl_handles sh - (if curl then 1 else 0),
     sh_curl_slists := sh_curl_slists sh - int (length headerlist),
     sh_curl_forms := sh_curl_forms sh - int (length formpost)\<rparr>"

definition processJob ::
  "libc \<Rightarrow> gearman_lib \<Rightarrow> curl_lib \<Rightarrow> bool \<Rightarrow> job_clock \<Rightarrow> tid \<Rightarrow> gearman_job \<Rightarrow> string \<Rightarrow> GearmanClient \<Rightarrow> shared \<Rightarrow>
   (gearman_return_t \<times> string \<times> GearmanClient \<times> shared) cxx" where
  "processJob L G C keepalive clock this_thread job return_string cl sh = noexcept (
     let f = job_function_name job in
     cxx_bind (setThreadState this_thread (job_state job) (sh_registry sh)) (\<lambda>reg.
     let (w, m) = w_reportThreadStartingWork MetricProxy_methods f (m_metrics cl) (sh_metrics sh);
         cl1 = cl\<lparr>m_metrics := w\<rparr>;
         (ready, handle, formpost, headerlist) = prepare C keepalive (m_http_uri cl) (jc_start clock) job;
         sh1 = curl_alloc (cl_easy_init C) headerlist formpost (sh\<lparr>sh_registry := reg\<rparr>)
     in
     cxx_bind (if ready then perform_job L G C clock f cl1 handle m else Ret (None, m)) (\<lambda>(answer, m').
     let (gearman_ret, str, m'') =
           (case answer of
              Some (code, str) \<Rightarrow> (code, return_string @ str, m')
            | None \<Rightarrow> (GEARMAN_WORK_FAIL, return_string, w_reportJobError MetricProxy_methods f w m'))
     in Ret (gearman_ret, str, cl1,
             curl_cleanup (cl_easy_init C) headerlist formpost (sh1\<lparr>sh_metrics := m''\<rparr>)))))"

section \<open>The worker callback and run\<close>

text \<open>
  \<open>wr_data\<close> is the memory \<^verbatim>\<open>strndup\<close> returned, with its terminating NUL; \<open>strndup_ok\<close> is whether it
  found memory.
\<close>

record worker_result =
  wr_data :: string
  wr_size :: nat
  wr_ret :: gearman_return_t

definition c_strndup :: "string \<Rightarrow> nat \<Rightarrow> string" where
  "c_strndup s n = takeWhile (\<lambda>c. c \<noteq> NUL) (take n s) @ [NUL]"

definition worker_callback ::
  "libc \<Rightarrow> gearman_lib \<Rightarrow> curl_lib \<Rightarrow> bool \<Rightarrow> job_clock \<Rightarrow> bool \<Rightarrow> tid \<Rightarrow> gearman_job \<Rightarrow> GearmanClient \<Rightarrow> shared \<Rightarrow>
   (worker_result \<times> GearmanClient \<times> shared) cxx" where
  "worker_callback L G C keepalive clock strndup_ok this_thread job cl sh = noexcept (
     cxx_bind (processJob L G C keepalive clock this_thread job [] cl sh) (\<lambda>(ret, data, cl', sh').
     if \<not> strndup_ok then Throw Bad_alloc
     else Ret (\<lparr>wr_data = c_strndup data (length data), wr_size = length data, wr_ret = ret\<rparr>, cl', sh')))"

text \<open>
  What gearmand and libgearman answer: each call of \<^verbatim>\<open>gearman_worker_work\<close> runs the callback on some
  jobs (with their clocks and what libcurl does) and returns a code, and \<^verbatim>\<open>gearman_worker_wait\<close>
  returns a code. A call that finds no answer blocks for ever: \<open>run\<close> is then \<open>None\<close>.
\<close>

record job_call =
  jq_job :: gearman_job
  jq_curl :: curl_lib
  jq_clock :: job_clock
  jq_strndup_ok :: bool

record work_call =
  wc_jobs :: "job_call list"
  wc_ret :: gearman_return_t
  wc_error :: "string option"

record gearmand =
  gd_work :: "work_call list"
  gd_wait :: "gearman_return_t list"

fun work_jobs ::
  "libc \<Rightarrow> gearman_lib \<Rightarrow> bool \<Rightarrow> tid \<Rightarrow> job_call list \<Rightarrow> GearmanClient \<Rightarrow> shared \<Rightarrow> (GearmanClient \<times> shared) cxx" where
  "work_jobs L G keepalive this_thread [] cl sh = Ret (cl, sh)"
| "work_jobs L G keepalive this_thread (j # js) cl sh =
     cxx_bind (worker_callback L G (jq_curl j) keepalive (jq_clock j) (jq_strndup_ok j) this_thread (jq_job j) cl sh)
       (\<lambda>(result, cl', sh'). work_jobs L G keepalive this_thread js cl' sh')"

definition failed_job_codes :: "gearman_return_t list" where
  "failed_job_codes = [GEARMAN_WORK_ERROR, GEARMAN_WORK_DATA, GEARMAN_WORK_WARNING, GEARMAN_WORK_STATUS,
     GEARMAN_WORK_EXCEPTION, GEARMAN_WORK_FAIL]"

definition error_details :: "string option \<Rightarrow> string" where
  "error_details err = (case err of None \<Rightarrow> ''No details'' | Some s \<Rightarrow> s)"

text \<open>\<^verbatim>\<open>reportThreadWorkComplete\<close> and \<^verbatim>\<open>setThreadState\<close> after a job.\<close>

definition finish_work :: "tid \<Rightarrow> GearmanClient \<Rightarrow> shared \<Rightarrow> unit cxx \<times> GearmanClient \<times> shared" where
  "finish_work this_thread cl sh =
     (let (w, m) = w_reportThreadWorkComplete MetricProxy_methods (m_metrics cl) (sh_metrics sh);
          cl' = cl\<lparr>m_metrics := w\<rparr>;
          sh' = sh\<lparr>sh_metrics := m\<rparr>
      in case setThreadState this_thread ''Waiting for work'' (sh_registry sh) of
           Ret reg \<Rightarrow> (Ret (), cl', sh'\<lparr>sh_registry := reg\<rparr>)
         | Throw e \<Rightarrow> (Throw e, cl', sh')
         | Terminate \<Rightarrow> (Terminate, cl', sh'))"

type_synonym run_result = "(unit cxx \<times> GearmanClient \<times> shared \<times> gearmand) option"

function run ::
  "libc \<Rightarrow> gearman_lib \<Rightarrow> bool \<Rightarrow> tid \<Rightarrow> gearmand \<Rightarrow> GearmanClient \<Rightarrow> shared \<Rightarrow> run_result" where
  "run L G keepalive this_thread gd cl sh =
     (case m_state cl of
        INIT \<Rightarrow> Some (Throw (Runtime_error ''Invalid state found in run''), cl, sh, gd)
      | GRAB_JOB \<Rightarrow>
          (case gd_work gd of
             [] \<Rightarrow> None
           | c # calls \<Rightarrow>
               let gd' = gd\<lparr>gd_work := calls\<rparr>; ret = wc_ret c in
               case work_jobs L G keepalive this_thread (wc_jobs c) cl sh of
                 Throw e \<Rightarrow> Some (Throw e, cl, sh, gd')
               | Terminate \<Rightarrow> Some (Terminate, cl, sh, gd')
               | Ret (cl', sh') \<Rightarrow>
                   if ret = GEARMAN_IO_WAIT \<or> ret = GEARMAN_NO_JOBS then
                     run L G keepalive this_thread gd' (cl'\<lparr>m_state := POLL\<rparr>) sh'
                   else if ret \<in> set failed_job_codes \<or> ret = GEARMAN_SUCCESS then
                     (let (r, cl'', sh'') = finish_work this_thread cl' sh' in Some (r, cl'', sh'', gd'))
                   else if ret = GEARMAN_TIMEOUT \<or> ret = GEARMAN_NOT_CONNECTED then
                     Some (Throw (GearmanClientException
                       (''Timeout/disconnected from work(). Error: '' @ error_details (wc_error c)) False), cl', sh', gd')
                   else
                     Some (Throw (GearmanClientException
                       (''Unexpected return code from work(): '' @ to_string_int (gl_value G ret) @ ''. Details: '' @
                        error_details (wc_error c)) False), cl', sh', gd'))
      | POLL \<Rightarrow>
          (case gd_wait gd of
             [] \<Rightarrow> None
           | ret # rets \<Rightarrow>
               let gd' = gd\<lparr>gd_wait := rets\<rparr> in
               if ret = GEARMAN_SUCCESS then run L G keepalive this_thread gd' (cl\<lparr>m_state := GRAB_JOB\<rparr>) sh
               else if ret = GEARMAN_TIMEOUT then Some (Ret (), cl, sh, gd')
               else if ret = GEARMAN_NO_ACTIVE_FDS then
                 Some (Throw (GearmanClientException ''Looks like all gearmand went away'' False), cl, sh, gd')
               else
                 Some (Throw (GearmanClientException
                   (''Unexpected return code from wait()'' @ to_string_int (gl_value G ret)) False), cl, sh, gd')))"
  by pat_completeness auto
termination
  by (relation "measure (\<lambda>(L, G, keepalive, this_thread, gd, cl, sh). length (gd_work gd) + length (gd_wait gd))") auto

declare run.simps [simp del]

section \<open>The answer of the HTTP endpoint\<close>

lemma member_ref_member: "map_find (CZString key) m = Some x \<Longrightarrow> member_ref key (ObjectV m) = Ret x"
  by (simp add: member_ref_def json_simps)

lemma response_keys [simp]:
  "CZString ''gearman_ret'' = ''gearman_ret''" "CZString ''response_string'' = ''response_string''"
  by (simp_all add: CZString_short)

lemma response_ok_object:
  "response_ok (ObjectV m) = Ret (case (map_find ''gearman_ret'' m, map_find ''response_string'' m) of
     (Some r, Some s) \<Rightarrow> isUInt r \<and> isString s | _ \<Rightarrow> False)"
  by (auto simp: response_ok_def json_simps member_ref_member split: option.split)

lemma response_ok_wrong_root:
  "\<not> isNull v \<Longrightarrow> \<not> isObject v \<Longrightarrow> \<exists>msg. response_ok v = Throw (Json_LogicError msg)"
  using json_find_wrong_type [of v "''gearman_ret''"] by (auto simp: response_ok_def isMember_def)

lemma read_response_object:
  assumes "OurCharReader_parse parser L raw = Ret (True, errs, ObjectV m)"
    and "map_find ''gearman_ret'' m = Some r" and "map_find ''response_string'' m = Some (StringV s)"
    and "isUInt r"
  shows "read_response L G parser raw =
     (if isInt r then Ret (Some (gl_cast G (the (integral_value r)), s))
      else cxx_bind (asInt r) (\<lambda>_. Ret None))"
proof -
  have "isString (StringV s)" by (simp add: isString_iff)
  then have "read_response L G parser raw = cxx_bind (asInt r) (\<lambda>code. Ret (Some (gl_cast G (sint code), s)))"
    using assms by (simp add: read_response_def response_ok_object member_ref_member json_simps)
  with isUInt_asInt_small [OF assms(4)] isUInt_asInt_large [OF assms(4)] show ?thesis by (cases "isInt r") auto
qed

lemma read_response_malformed:
  assumes "OurCharReader_parse parser L raw = Ret (ok, errs, tree)" and "\<not> ok \<or> response_ok tree = Ret False"
  shows "read_response L G parser raw = Ret None"
  using assms by (auto simp: read_response_def)

lemma read_response_wrong_root:
  assumes "OurCharReader_parse parser L raw = Ret (True, errs, tree)" and "\<not> isNull tree" and "\<not> isObject tree"
  shows "\<exists>msg. read_response L G parser raw = Throw (Json_LogicError msg)"
  using assms response_ok_wrong_root [of tree] by (auto simp: read_response_def)

section \<open>processJob\<close>

lemma curl_balance [simp]:
  "curl_cleanup c h f ((curl_alloc c h f sh)\<lparr>sh_metrics := m\<rparr>) = sh\<lparr>sh_metrics := m\<rparr>"
  by (simp add: curl_cleanup_def curl_alloc_def)

definition begin_job :: "gearman_job \<Rightarrow> GearmanClient \<Rightarrow> GearmanClient" where
  "begin_job job cl = cl\<lparr>m_metrics := (m_metrics cl)\<lparr>m_active_function :=
     job_function_name job # m_active_function (m_metrics cl)\<rparr>\<rparr>"

definition job_answer ::
  "libc \<Rightarrow> gearman_lib \<Rightarrow> curl_lib \<Rightarrow> bool \<Rightarrow> job_clock \<Rightarrow> gearman_job \<Rightarrow> GearmanClient \<Rightarrow> MetricProxy \<Rightarrow>
   ((gearman_return_t \<times> string) option \<times> MetricProxy) cxx" where
  "job_answer L G C keepalive clock job cl m =
     (let (ready, handle, formpost, headerlist) = prepare C keepalive (m_http_uri cl) (jc_start clock) job in
      if ready then perform_job L G C clock (job_function_name job) (begin_job job cl) handle m else Ret (None, m))"

definition settle :: "gearman_job \<Rightarrow> string \<Rightarrow> GearmanClient \<Rightarrow> shared \<Rightarrow>
    (gearman_return_t \<times> string) option \<times> MetricProxy \<Rightarrow> gearman_return_t \<times> string \<times> GearmanClient \<times> shared" where
  "settle job return_string cl sh x =
     (case x of
        (Some (code, str), m) \<Rightarrow> (code, return_string @ str, begin_job job cl, sh\<lparr>sh_metrics := m\<rparr>)
      | (None, m) \<Rightarrow> (GEARMAN_WORK_FAIL, return_string, begin_job job cl,
          sh\<lparr>sh_metrics := reportJobError (m_pool_name (m_metrics cl)) (job_function_name job) m\<rparr>))"

abbreviation started_metrics :: "gearman_job \<Rightarrow> GearmanClient \<Rightarrow> shared \<Rightarrow> MetricProxy" where
  "started_metrics job cl sh \<equiv>
     reportThreadStartingWork (m_pool_name (m_metrics cl)) (job_function_name job) (sh_metrics sh)"

text \<open>
  \<^verbatim>\<open>processJob\<close> in short: every path ends in the same cleanup, so the libcurl objects are as before,
  and the outcome is decided by the answer alone.
\<close>

lemma processJob_alt:
  "processJob L G C keepalive clock t job return_string cl sh = noexcept (
     cxx_bind (setThreadState t (job_state job) (sh_registry sh)) (\<lambda>reg.
     cxx_bind (job_answer L G C keepalive clock job cl (started_metrics job cl sh)) (\<lambda>x.
     Ret (settle job return_string cl (sh\<lparr>sh_registry := reg\<rparr>) x))))"
proof -
  obtain ready handle formpost headerlist
    where p: "prepare C keepalive (m_http_uri cl) (jc_start clock) job = (ready, handle, formpost, headerlist)"
    by (cases "prepare C keepalive (m_http_uri cl) (jc_start clock) job") auto
  have w: "w_reportThreadStartingWork MetricProxy_methods (job_function_name job) (m_metrics cl) (sh_metrics sh) =
      (m_metrics (begin_job job cl), started_metrics job cl sh)"
    by (simp add: w_reportThreadStartingWork_def begin_job_def)
  have b: "cl\<lparr>m_metrics := m_metrics (begin_job job cl)\<rparr> = begin_job job cl"
    by (simp add: begin_job_def)
  have e: "w_reportJobError MetricProxy_methods f (m_metrics (begin_job job cl)) m =
      reportJobError (m_pool_name (m_metrics cl)) f m" for f m
    by (simp add: w_reportJobError_def begin_job_def)
  let ?m = "started_metrics job cl sh"
  let ?answer = "if ready then perform_job L G C clock (job_function_name job) (begin_job job cl) handle ?m else Ret (None, ?m)"
  have a: "job_answer L G C keepalive clock job cl ?m = ?answer"
    by (simp add: job_answer_def p)
  show ?thesis
  proof (cases "setThreadState t (job_state job) (sh_registry sh)")
    case (Ret reg)
    show ?thesis
    proof (cases ?answer)
      case answer: (Ret x)
      obtain r m' where x: "x = (r, m')" by (cases x)
      show ?thesis
        unfolding processJob_def a using answer
        by (cases r) (auto simp: Let_def Ret w p b e x settle_def)
    qed (auto simp: processJob_def Let_def Ret w p b a split: if_splits)
  qed (simp_all add: processJob_def Let_def)
qed

lemma setopts_all: "setopts C opts handle = (True, handle') \<Longrightarrow> handle' = handle @ opts"
  by (induction opts arbitrary: handle) (fastforce split: if_splits)+

lemma formadds_all: "formadds C parts formpost = (True, formpost') \<Longrightarrow> formpost' = formpost @ parts"
  by (induction parts arbitrary: formpost) (fastforce split: if_splits)+

lemma prepare_ready:
  assumes "prepare C keepalive uri start_ts job = (True, handle, formpost, headerlist)"
  shows "handle = curl_options keepalive uri start_ts headerlist @ [CURLOPT_HTTPPOST (job_form job)]"
    and "formpost = job_form job"
proof -
  have "handle = curl_options keepalive uri start_ts headerlist @ [CURLOPT_HTTPPOST (job_form job)] \<and>
      formpost = job_form job"
    using assms unfolding prepare_def
    by (auto simp: Let_def split: if_splits prod.splits dest!: setopts_all formadds_all)
  then show "handle = curl_options keepalive uri start_ts headerlist @ [CURLOPT_HTTPPOST (job_form job)]"
    and "formpost = job_form job" by simp_all
qed

definition job_transfer :: "curl_lib \<Rightarrow> bool \<Rightarrow> job_clock \<Rightarrow> gearman_job \<Rightarrow> GearmanClient \<Rightarrow> transfer option" where
  "job_transfer C keepalive clock job cl =
     (let (ready, handle, formpost, headerlist) = prepare C keepalive (m_http_uri cl) (jc_start clock) job in
      if ready then Some (cl_perform C handle) else None)"

definition response_body :: "transfer \<Rightarrow> string" where
  "response_body tr = stream_buffer (snd (write_all (tr_chunks tr) new_StringstreamWriter))"

definition job_fails :: "libc \<Rightarrow> gearman_lib \<Rightarrow> transfer option \<Rightarrow> GearmanClient \<Rightarrow> bool" where
  "job_fails L G transfer cl \<longleftrightarrow> (case transfer of
       None \<Rightarrow> True
     | Some tr \<Rightarrow> tr_code tr \<noteq> CURLE_OK \<or> tr_http_code tr \<noteq> 200 \<or>
         read_response L G (m_json_parser cl) (response_body tr) = Ret None)"

lemma begin_job_sel [simp]:
  "m_json_parser (begin_job job cl) = m_json_parser cl"
  "m_state (begin_job job cl) = m_state cl"
  "m_http_uri (begin_job job cl) = m_http_uri cl"
  "m_pool_name (m_metrics (begin_job job cl)) = m_pool_name (m_metrics cl)"
  "m_active_function (m_metrics (begin_job job cl)) = job_function_name job # m_active_function (m_metrics cl)"
  by (simp_all add: begin_job_def)

lemma job_answer_transfer:
  "job_answer L G C keepalive clock job cl m =
     (case job_transfer C keepalive clock job cl of
        None \<Rightarrow> Ret (None, m)
      | Some tr \<Rightarrow>
          if tr_code tr \<noteq> CURLE_OK then
            Ret (None, if tr_code tr = CURLE_ABORTED_BY_CALLBACK
                       then reportJobTimeout (m_pool_name (m_metrics cl)) (job_function_name job) m else m)
          else if tr_http_code tr \<noteq> 200 then
            Ret (None, reportHttpJobError (m_pool_name (m_metrics cl)) (job_function_name job)
                         (word_of_int (tr_http_code tr)) m)
          else
            cxx_bind (read_response L G (m_json_parser cl) (response_body tr)) (\<lambda>answer.
              case answer of
                None \<Rightarrow> Ret (None, m)
              | Some (code, str) \<Rightarrow> Ret (Some (code, str),
                  reportJobSuccess (m_pool_name (m_metrics cl)) (job_function_name job) (jc_delay clock) m)))"
  by (cases "prepare C keepalive (m_http_uri cl) (jc_start clock) job")
    (simp add: job_answer_def job_transfer_def perform_job_def response_body_def Let_def
      w_reportJobTimeout_def w_reportJobHttpError_def w_reportJobSuccess_def)

abbreviation error_count :: "gearman_job \<Rightarrow> GearmanClient \<Rightarrow> MetricProxy \<Rightarrow> nat" where
  "error_count job cl m \<equiv>
     occurrences (Increment_errors (function_labels (m_pool_name (m_metrics cl)) (job_function_name job))) m"

abbreviation timeout_count :: "gearman_job \<Rightarrow> GearmanClient \<Rightarrow> MetricProxy \<Rightarrow> nat" where
  "timeout_count job cl m \<equiv>
     occurrences (Increment_timeouts (function_labels (m_pool_name (m_metrics cl)) (job_function_name job))) m"

lemma report_counts [metric_simps]:
  "occurrences (Increment_errors l) (reportThreadStartingWork p f m) = occurrences (Increment_errors l) m"
  "occurrences (Increment_timeouts l) (reportThreadStartingWork p f m) = occurrences (Increment_timeouts l) m"
  "occurrences (Increment_errors l) (reportJobTimeout p f m) = occurrences (Increment_errors l) m"
  "occurrences (Increment_errors l) (reportHttpJobError p f s m) = occurrences (Increment_errors l) m"
  "occurrences (Increment_errors l) (reportJobSuccess p f d m) = occurrences (Increment_errors l) m"
  "occurrences (Increment_timeouts l) (reportHttpJobError p f s m) = occurrences (Increment_timeouts l) m"
  "occurrences (Increment_timeouts l) (reportJobError p f m) = occurrences (Increment_timeouts l) m"
  "occurrences (Increment_errors l) (reportJobError p f m) =
     (if l = function_labels p f then Suc (occurrences (Increment_errors l) m) else occurrences (Increment_errors l) m)"
  "occurrences (Increment_timeouts l) (reportJobTimeout p f m) =
     (if l = function_labels p f then Suc (occurrences (Increment_timeouts l) m) else occurrences (Increment_timeouts l) m)"
  by (simp_all add: reportThreadStartingWork_def reportJobTimeout_def reportHttpJobError_def
      reportJobSuccess_def reportJobError_def Let_def metric_simps)

text \<open>The libcurl objects a call of \<^verbatim>\<open>processJob\<close> leaves behind: none.\<close>

definition same_curl :: "shared \<Rightarrow> shared \<Rightarrow> bool" where
  "same_curl sh sh' \<longleftrightarrow> sh_curl_handles sh' = sh_curl_handles sh \<and> sh_curl_slists sh' = sh_curl_slists sh \<and>
     sh_curl_forms sh' = sh_curl_forms sh"

lemma processJob_failure:
  assumes "setThreadState t (job_state job) (sh_registry sh) = Ret reg"
    and "job_fails L G (job_transfer C keepalive clock job cl) cl"
  shows "\<exists>sh'. processJob L G C keepalive clock t job return_string cl sh =
             Ret (GEARMAN_WORK_FAIL, return_string, begin_job job cl, sh') \<and>
           error_count job cl (sh_metrics sh') = Suc (error_count job cl (sh_metrics sh)) \<and>
           timeout_count job cl (sh_metrics sh') = timeout_count job cl (sh_metrics sh) +
             (case job_transfer C keepalive clock job cl of
                Some tr \<Rightarrow> if tr_code tr = CURLE_ABORTED_BY_CALLBACK then 1 else 0 | None \<Rightarrow> 0) \<and>
           sh_registry sh' = reg \<and> same_curl sh sh'"
  using assms
  by (auto simp: processJob_alt job_fails_def job_answer_transfer settle_def metric_simps same_curl_def
      split: option.splits)

lemma processJob_success:
  assumes "setThreadState t (job_state job) (sh_registry sh) = Ret reg"
    and "job_transfer C keepalive clock job cl = Some tr" and "tr_code tr = CURLE_OK" and "tr_http_code tr = 200"
    and "read_response L G (m_json_parser cl) (response_body tr) = Ret (Some (code, str))"
  shows "processJob L G C keepalive clock t job return_string cl sh =
           Ret (code, return_string @ str, begin_job job cl, sh\<lparr>sh_registry := reg, sh_metrics :=
             reportJobSuccess (m_pool_name (m_metrics cl)) (job_function_name job) (jc_delay clock)
               (started_metrics job cl sh)\<rparr>)"
  using assms by (simp add: processJob_alt job_answer_transfer settle_def)

lemma processJob_crash:
  assumes "job_transfer C keepalive clock job cl = Some tr" and "tr_code tr = CURLE_OK" and "tr_http_code tr = 200"
    and "\<not> returns (read_response L G (m_json_parser cl) (response_body tr))"
  shows "processJob L G C keepalive clock t job return_string cl sh = Terminate"
proof (cases "setThreadState t (job_state job) (sh_registry sh)")
  case (Ret reg)
  with assms show ?thesis
    by (cases "read_response L G (m_json_parser cl) (response_body tr)") (simp_all add: processJob_alt job_answer_transfer)
qed (simp_all add: processJob_alt)

section \<open>What a client changes in the registry\<close>

definition only_state :: "tid \<Rightarrow> ThreadRegistry \<Rightarrow> ThreadRegistry \<Rightarrow> bool" where
  "only_state t r r' \<longleftrightarrow> reg_inv r' \<and>
     (\<exists>d s. reg_view r t = Some d \<and> reg_view r' = (reg_view r)(t \<mapsto> d\<lparr>td_state := s\<rparr>))"

lemma only_state_refl: "reg_inv r \<Longrightarrow> reg_view r t = Some d \<Longrightarrow> only_state t r r"
  unfolding only_state_def by (intro conjI exI [of _ d] exI [of _ "td_state d"]) auto

lemma only_state_trans: "only_state t r r' \<Longrightarrow> only_state t r' r'' \<Longrightarrow> only_state t r r''"
  by (fastforce simp: only_state_def)

lemma only_stateD:
  assumes "only_state t r r'"
  shows "reg_inv r'" and "\<exists>d. reg_view r' t = Some d"
    and "t' \<noteq> t \<Longrightarrow> reg_view r' t' = reg_view r t'"
    and "pool_members p (reg_view r') = pool_members p (reg_view r)"
    and "shouldShutdown t' r' = shouldShutdown t' r"
proof -
  obtain d s where v: "reg_inv r'" "reg_view r t = Some d" "reg_view r' = (reg_view r)(t \<mapsto> d\<lparr>td_state := s\<rparr>)"
    using assms by (auto simp: only_state_def)
  show "reg_inv r'" "\<exists>d. reg_view r' t = Some d" "t' \<noteq> t \<Longrightarrow> reg_view r' t' = reg_view r t'"
    using v by simp_all
  show "pool_members p (reg_view r') = pool_members p (reg_view r)"
    using v by (auto simp: pool_members_def)
  show "shouldShutdown t' r' = shouldShutdown t' r"
    using v by (cases "reg_view r t'") (auto simp: shouldShutdown_view)
qed

lemma setThreadState_only:
  assumes "reg_inv r" and "reg_view r t = Some d"
  obtains r' where "setThreadState t s r = Ret r'" "only_state t r r'"
  using setThreadState_ok [OF assms, of s] assms by (auto simp: only_state_def)

lemma processJob_effect:
  assumes "reg_inv (sh_registry sh)" and "reg_view (sh_registry sh) t = Some d"
    and "processJob L G C keepalive clock t job return_string cl sh = Ret (ret, str, cl', sh')"
  shows "cl' = begin_job job cl" and "only_state t (sh_registry sh) (sh_registry sh')" and "same_curl sh sh'"
proof -
  obtain r' where r': "setThreadState t (job_state job) (sh_registry sh) = Ret r'" "only_state t (sh_registry sh) r'"
    using setThreadState_only [OF assms(1,2)] .
  then obtain x where "settle job return_string cl (sh\<lparr>sh_registry := r'\<rparr>) x = (ret, str, cl', sh')"
    using assms(3) by (auto simp: processJob_alt cxx_simps)
  then show "cl' = begin_job job cl" "only_state t (sh_registry sh) (sh_registry sh')" "same_curl sh sh'"
    using r'(2) by (auto simp: settle_def same_curl_def split: prod.splits option.splits)
qed

lemma work_jobs_effect:
  assumes "reg_inv (sh_registry sh)" and "reg_view (sh_registry sh) t = Some d"
    and "work_jobs L G keepalive t js cl sh = Ret (cl', sh')"
  shows "m_state cl' = m_state cl \<and> only_state t (sh_registry sh) (sh_registry sh') \<and> same_curl sh sh' \<and>
     m_pool_name (m_metrics cl') = m_pool_name (m_metrics cl) \<and>
     m_active_function (m_metrics cl') =
       rev (map (\<lambda>j. job_function_name (jq_job j)) js) @ m_active_function (m_metrics cl)"
  using assms
proof (induction js arbitrary: cl sh d)
  case Nil
  then show ?case by (auto simp: same_curl_def intro: only_state_refl)
next
  case (Cons j js)
  obtain ret data cl1 sh1
    where j: "processJob L G (jq_curl j) keepalive (jq_clock j) t (jq_job j) [] cl sh = Ret (ret, data, cl1, sh1)"
      and js: "work_jobs L G keepalive t js cl1 sh1 = Ret (cl', sh')"
    using Cons.prems(3) by (auto simp: worker_callback_def cxx_simps split: if_splits)
  note e = processJob_effect [OF Cons.prems(1,2) j]
  obtain d1 where "reg_view (sh_registry sh1) t = Some d1" using only_stateD(2) [OF e(2)] ..
  from Cons.IH [OF only_stateD(1) [OF e(2)] this js] e show ?case
    by (auto simp: same_curl_def intro: only_state_trans)
qed

lemma work_jobs_no_throw: "work_jobs L G keepalive t js cl sh \<noteq> Throw e"
  by (induction js arbitrary: cl sh) (auto simp: worker_callback_def cxx_simps)

lemma finish_work_effect:
  assumes "reg_inv (sh_registry sh)" and "reg_view (sh_registry sh) t = Some d"
  shows "\<exists>cl' sh'. finish_work t cl sh = (Ret (), cl', sh') \<and> only_state t (sh_registry sh) (sh_registry sh') \<and>
     same_curl sh sh' \<and> m_state cl' = m_state cl \<and>
     m_pool_name (m_metrics cl') = m_pool_name (m_metrics cl) \<and>
     m_active_function (m_metrics cl') = tl (m_active_function (m_metrics cl))"
proof -
  obtain r' where r': "setThreadState t ''Waiting for work'' (sh_registry sh) = Ret r'" "only_state t (sh_registry sh) r'"
    using setThreadState_only [OF assms] .
  then show ?thesis
    by (auto simp: finish_work_def w_reportThreadWorkComplete_def same_curl_def split: list.split)
qed

section \<open>run\<close>

text \<open>
  What one call of \<^verbatim>\<open>run\<close> promises its caller: it leaves the state machine in a working state,
  touches only its own thread's state text, and the only exception it throws is one that is not
  retriable.
\<close>

definition run_safe :: "tid \<Rightarrow> shared \<Rightarrow> unit cxx \<times> GearmanClient \<times> shared \<times> gearmand \<Rightarrow> bool" where
  "run_safe t sh res \<longleftrightarrow> (case res of (r, cl', sh', gd') \<Rightarrow>
     m_state cl' \<noteq> INIT \<and> only_state t (sh_registry sh) (sh_registry sh') \<and> same_curl sh sh' \<and>
     (r = Ret () \<or> r = Terminate \<or> (\<exists>msg. r = Throw (GearmanClientException msg False))))"

lemma run_safe_earlier:
  "only_state t (sh_registry sh) (sh_registry sh1) \<Longrightarrow> same_curl sh sh1 \<Longrightarrow> run_safe t sh1 res \<Longrightarrow> run_safe t sh res"
  by (auto simp: run_safe_def same_curl_def intro: only_state_trans split: prod.splits)

lemma run_safety:
  assumes "reg_inv (sh_registry sh)" and "reg_view (sh_registry sh) t = Some d" and "m_state cl \<noteq> INIT"
    and "run L G keepalive t gd cl sh = Some res"
  shows "run_safe t sh res"
  using assms
proof (induction "length (gd_work gd) + length (gd_wait gd)" arbitrary: gd cl sh d rule: less_induct)
  case less
  have refl: "only_state t (sh_registry sh) (sh_registry sh)" "same_curl sh sh"
    using less.prems(1,2) by (auto simp: same_curl_def intro: only_state_refl)
  show ?case
  proof (cases "m_state cl")
    case INIT
    with less.prems(3) show ?thesis by simp
  next
    case GRAB_JOB
    then obtain c calls where c: "gd_work gd = c # calls"
      using less.prems(4) by (cases "gd_work gd") (simp_all add: run.simps)
    show ?thesis
    proof (cases "work_jobs L G keepalive t (wc_jobs c) cl sh")
      case (Ret x)
      obtain cl1 sh1 where x: "x = (cl1, sh1)" by (cases x)
      note e = work_jobs_effect [OF less.prems(1,2) Ret [unfolded x]]
      then obtain d1 where d1: "reg_inv (sh_registry sh1)" "reg_view (sh_registry sh1) t = Some d1"
        using only_stateD(1,2) by blast
      let ?gd = "gd\<lparr>gd_work := calls\<rparr>"
      have poll: "run_safe t sh1 res" if "run L G keepalive t ?gd (cl1\<lparr>m_state := POLL\<rparr>) sh1 = Some res"
        by (rule less.hyps [OF _ d1 _ that]) (simp_all add: c)
      have "run_safe t sh1 res"
        using less.prems(4) poll finish_work_effect [OF d1, of cl1] e GRAB_JOB only_state_refl [OF d1]
        by (subst (asm) run.simps) (auto simp: GRAB_JOB c Ret x Let_def run_safe_def same_curl_def split: if_splits)
      with e show ?thesis by (auto intro: run_safe_earlier)
    next
      case (Throw e)
      then show ?thesis using work_jobs_no_throw by blast
    next
      case Terminate
      with less.prems(4) GRAB_JOB c refl show ?thesis by (auto simp: run.simps [of _ _ _ _ gd] run_safe_def)
    qed
  next
    case POLL
    then obtain ret rets where c: "gd_wait gd = ret # rets"
      using less.prems(4) by (cases "gd_wait gd") (simp_all add: run.simps)
    let ?gd = "gd\<lparr>gd_wait := rets\<rparr>"
    have "run_safe t sh res" if "run L G keepalive t ?gd (cl\<lparr>m_state := GRAB_JOB\<rparr>) sh = Some res"
      by (rule less.hyps [OF _ less.prems(1,2) _ that]) (simp_all add: c)
    with less.prems(4) POLL c refl show ?thesis
      by (subst (asm) run.simps) (auto simp: Let_def run_safe_def split: if_splits)
  qed
qed

text \<open>
  \<^verbatim>\<open>run\<close> returns as soon as a wait for gearmand's answer ends with anything but success, as its
  timeout does.
\<close>

lemma run_returns:
  assumes "i < length (gd_wait gd)" and "gd_wait gd ! i \<noteq> GEARMAN_SUCCESS"
    and "i + (if m_state cl = GRAB_JOB then 1 else 0) \<le> length (gd_work gd)"
  shows "run L G keepalive t gd cl sh \<noteq> None"
  using assms
proof (induction "length (gd_work gd) + length (gd_wait gd)" arbitrary: gd cl sh i rule: less_induct)
  case less
  show ?case
  proof (cases "m_state cl")
    case INIT
    then show ?thesis by (simp add: run.simps)
  next
    case GRAB_JOB
    then obtain c calls where c: "gd_work gd = c # calls"
      using less.prems(3) by (cases "gd_work gd") simp_all
    have "run L G keepalive t (gd\<lparr>gd_work := calls\<rparr>) (cl'\<lparr>m_state := POLL\<rparr>) sh' \<noteq> None" for cl' sh'
      by (rule less.hyps [of _ i]) (use less.prems GRAB_JOB in \<open>simp_all add: c\<close>)
    then show ?thesis
      by (auto simp: run.simps [of L G keepalive t gd] GRAB_JOB c Let_def split: cxx.split prod.split)
  next
    case POLL
    obtain ret rets where w: "gd_wait gd = ret # rets"
      using less.prems(1) by (cases "gd_wait gd") simp_all
    have "run L G keepalive t (gd\<lparr>gd_wait := rets\<rparr>) (cl\<lparr>m_state := GRAB_JOB\<rparr>) sh \<noteq> None" if "ret = GEARMAN_SUCCESS"
    proof -
      from that less.prems w have "i \<noteq> 0" by (cases i) simp_all
      then show ?thesis
        using less.prems POLL by (intro less.hyps [of _ "i - 1"]) (simp_all add: w nth_Cons')
    qed
    then show ?thesis by (auto simp: run.simps [of L G keepalive t gd] POLL w Let_def)
  qed
qed

text \<open>
  A gearman library that runs at most one job per call, and then returns one of the codes that
  end a job: the client has no job open after \<^verbatim>\<open>run\<close>, so its end is reported as that of an idle thread.
\<close>

definition closes_jobs :: "work_call \<Rightarrow> bool" where
  "closes_jobs c \<longleftrightarrow> wc_jobs c = [] \<or>
     (length (wc_jobs c) = 1 \<and> (wc_ret c = GEARMAN_SUCCESS \<or> wc_ret c \<in> set failed_job_codes))"

lemma run_idle:
  assumes "reg_inv (sh_registry sh)" and "reg_view (sh_registry sh) t = Some d"
    and "\<forall>c\<in>set (gd_work gd). closes_jobs c" and "m_active_function (m_metrics cl) = []"
    and "run L G keepalive t gd cl sh = Some (r, cl', sh', gd')"
  shows "m_active_function (m_metrics cl') = [] \<and> m_pool_name (m_metrics cl') = m_pool_name (m_metrics cl) \<and>
    set (gd_work gd') \<subseteq> set (gd_work gd)"
  using assms
proof (induction "length (gd_work gd) + length (gd_wait gd)" arbitrary: gd cl sh d rule: less_induct)
  case less
  show ?case
  proof (cases "m_state cl")
    case INIT
    with less.prems show ?thesis by (simp add: run.simps)
  next
    case GRAB_JOB
    then obtain c calls where c: "gd_work gd = c # calls"
      using less.prems(5) by (cases "gd_work gd") (simp_all add: run.simps)
    show ?thesis
    proof (cases "work_jobs L G keepalive t (wc_jobs c) cl sh")
      case (Ret x)
      obtain cl1 sh1 where x: "x = (cl1, sh1)" by (cases x)
      note e = work_jobs_effect [OF less.prems(1,2) Ret [unfolded x]]
      then obtain d1 where d1: "reg_inv (sh_registry sh1)" "reg_view (sh_registry sh1) t = Some d1"
        using only_stateD(1,2) by blast
      let ?gd = "gd\<lparr>gd_work := calls\<rparr>"
      have cj: "closes_jobs c" using less.prems(3) c by simp
      have tl: "tl (m_active_function (m_metrics cl1)) = []"
        using e cj less.prems(4) by (auto simp: closes_jobs_def length_Suc_conv)
      have nil: "m_active_function (m_metrics cl1) = []"
        if "wc_ret c \<noteq> GEARMAN_SUCCESS" "wc_ret c \<notin> set failed_job_codes"
        using e cj that less.prems(4) by (auto simp: closes_jobs_def)
      have poll: ?thesis if "run L G keepalive t ?gd (cl1\<lparr>m_state := POLL\<rparr>) sh1 = Some (r, cl', sh', gd')"
          "wc_ret c = GEARMAN_IO_WAIT \<or> wc_ret c = GEARMAN_NO_JOBS"
      proof -
        have "m_active_function (m_metrics cl1) = []"
          using that(2) by (intro nil) (auto simp: failed_job_codes_def)
        then show ?thesis
          using less.hyps [of ?gd sh1 d1 "cl1\<lparr>m_state := POLL\<rparr>", OF _ d1 _ _ that(1)] less.prems(3) c e by auto
      qed
      show ?thesis
        using less.prems(5) poll nil tl finish_work_effect [OF d1, of cl1] e c
        by (subst (asm) run.simps) (auto simp: GRAB_JOB Ret x Let_def split: if_splits)
    qed (use less.prems GRAB_JOB c in \<open>auto simp: run.simps [of _ _ _ _ gd]\<close>)
  next
    case POLL
    then obtain ret rets where c: "gd_wait gd = ret # rets"
      using less.prems(5) by (cases "gd_wait gd") (simp_all add: run.simps)
    have ?thesis if "run L G keepalive t (gd\<lparr>gd_wait := rets\<rparr>) (cl\<lparr>m_state := GRAB_JOB\<rparr>) sh = Some (r, cl', sh', gd')"
      using less.hyps [of "gd\<lparr>gd_wait := rets\<rparr>" sh d "cl\<lparr>m_state := GRAB_JOB\<rparr>", OF _ less.prems(1,2) _ _ that]
        less.prems(3,4) c by auto
    with less.prems(4,5) POLL c show ?thesis
      by (subst (asm) run.simps) (auto simp: Let_def split: if_splits)
  qed
qed
section \<open>What a client reports\<close>

text \<open>
  Every change a client makes to the metrics is a sequence of calls on its pool wrapper, so the
  wrapper's accounting (locale \<open>thread_gauges\<close>) applies to it.
\<close>

definition reports :: "GearmanClient \<Rightarrow> shared \<Rightarrow> GearmanClient \<Rightarrow> shared \<Rightarrow> bool" where
  "reports cl sh cl' sh' \<longleftrightarrow>
     (\<exists>es. wrapper_run MetricProxy_methods es (m_metrics cl) (sh_metrics sh) = (m_metrics cl', sh_metrics sh'))"

lemma wrapper_run_append:
  "wrapper_run I (es @ fs) w m = (let (w', m') = wrapper_run I es w m in wrapper_run I fs w' m')"
  by (induction es arbitrary: w m) (simp_all add: Let_def split: prod.split)

lemma reports_refl: "m_metrics cl' = m_metrics cl \<Longrightarrow> sh_metrics sh' = sh_metrics sh \<Longrightarrow> reports cl sh cl' sh'"
  unfolding reports_def by (intro exI [of _ "[]"]) simp

lemma reports_trans: "reports cl sh cl1 sh1 \<Longrightarrow> reports cl1 sh1 cl2 sh2 \<Longrightarrow> reports cl sh cl2 sh2"
  unfolding reports_def by (metis (no_types, lifting) wrapper_run_append prod.simps(2) Let_def)

lemma reports_one: "wrapper_report MetricProxy_methods e (m_metrics cl) (sh_metrics sh) = (m_metrics cl', sh_metrics sh') \<Longrightarrow>
    reports cl sh cl' sh'"
  unfolding reports_def by (intro exI [of _ "[e]"]) simp

lemma processJob_reports:
  assumes "processJob L G C keepalive clock t job return_string cl sh = Ret (ret, str, cl', sh')"
  shows "reports cl sh cl' sh'"
proof -
  let ?f = "job_function_name job"
  let ?p = "m_pool_name (m_metrics cl)"
  obtain reg x where x: "job_answer L G C keepalive clock job cl (started_metrics job cl sh) = Ret x"
      "settle job return_string cl (sh\<lparr>sh_registry := reg\<rparr>) x = (ret, str, cl', sh')"
    using assms by (auto simp: processJob_alt cxx_simps)
  have cl': "m_metrics cl' = m_metrics (begin_job job cl)"
    using x(2) by (auto simp: settle_def split: prod.splits option.splits)
  have w: "wrapper_report MetricProxy_methods (Job_begins ?f) (m_metrics cl) (sh_metrics sh) =
      (m_metrics (begin_job job cl), started_metrics job cl sh)"
    by (simp add: w_reportThreadStartingWork_def begin_job_def)
  have "\<exists>es. wrapper_run MetricProxy_methods es (m_metrics (begin_job job cl)) (started_metrics job cl sh) =
      (m_metrics (begin_job job cl), sh_metrics sh')"
  proof (cases "fst x")
    case (Some a)
    then obtain d where "sh_metrics sh' = reportJobSuccess ?p ?f d (started_metrics job cl sh)"
      using x by (cases x) (auto simp: job_answer_transfer settle_def cxx_simps split: option.splits if_splits)
    then show ?thesis by (intro exI [of _ "[Job_succeeds ?f d]"]) (simp add: w_reportJobSuccess_def)
  next
    case None
    then have "sh_metrics sh' = reportJobError ?p ?f (snd x)"
      using x(2) by (cases x) (auto simp: settle_def)
    moreover have "snd x = started_metrics job cl sh \<or> snd x = reportJobTimeout ?p ?f (started_metrics job cl sh) \<or>
        (\<exists>s. snd x = reportHttpJobError ?p ?f s (started_metrics job cl sh))"
      using x(1) None by (cases x) (auto simp: job_answer_transfer cxx_simps split: option.splits if_splits)
    moreover have "wrapper_run MetricProxy_methods [Job_fails ?f] (m_metrics (begin_job job cl)) m =
        (m_metrics (begin_job job cl), reportJobError ?p ?f m)"
      "wrapper_run MetricProxy_methods [Job_times_out ?f, Job_fails ?f] (m_metrics (begin_job job cl)) m =
        (m_metrics (begin_job job cl), reportJobError ?p ?f (reportJobTimeout ?p ?f m))"
      "wrapper_run MetricProxy_methods [Job_http_error ?f s, Job_fails ?f] (m_metrics (begin_job job cl)) m =
        (m_metrics (begin_job job cl), reportJobError ?p ?f (reportHttpJobError ?p ?f s m))" for m s
      by (simp_all add: w_reportJobError_def w_reportJobTimeout_def w_reportJobHttpError_def)
    ultimately show ?thesis by metis
  qed
  then obtain es where "wrapper_run MetricProxy_methods es (m_metrics (begin_job job cl)) (started_metrics job cl sh) =
      (m_metrics (begin_job job cl), sh_metrics sh')" ..
  with w cl' show ?thesis unfolding reports_def by (intro exI [of _ "Job_begins ?f # es"]) simp
qed

lemma work_jobs_reports:
  "work_jobs L G keepalive t js cl sh = Ret (cl', sh') \<Longrightarrow> reports cl sh cl' sh'"
proof (induction js arbitrary: cl sh)
  case Nil
  then show ?case by (auto intro: reports_refl)
next
  case (Cons j js)
  then obtain ret data cl1 sh1
    where "processJob L G (jq_curl j) keepalive (jq_clock j) t (jq_job j) [] cl sh = Ret (ret, data, cl1, sh1)"
      and "work_jobs L G keepalive t js cl1 sh1 = Ret (cl', sh')"
    by (auto simp: worker_callback_def cxx_simps split: if_splits)
  then show ?case by (rule reports_trans [OF processJob_reports Cons.IH])
qed

lemma finish_work_reports: "finish_work t cl sh = (r, cl', sh') \<Longrightarrow> reports cl sh cl' sh'"
  by (rule reports_one [of Work_completes])
    (auto simp: finish_work_def Let_def split: prod.splits cxx.splits)

lemma run_reports: "run L G keepalive t gd cl sh = Some (r, cl', sh', gd') \<Longrightarrow> reports cl sh cl' sh'"
proof (induction "length (gd_work gd) + length (gd_wait gd)" arbitrary: gd cl sh rule: less_induct)
  case less
  have refl: "reports cl sh cl sh" by (rule reports_refl) simp_all
  show ?case
  proof (cases "m_state cl")
    case INIT
    with less.prems refl show ?thesis by (simp add: run.simps)
  next
    case GRAB_JOB
    then obtain c calls where c: "gd_work gd = c # calls"
      using less.prems by (cases "gd_work gd") (simp_all add: run.simps)
    show ?thesis
    proof (cases "work_jobs L G keepalive t (wc_jobs c) cl sh")
      case (Ret x)
      obtain cl1 sh1 where x: "x = (cl1, sh1)" by (cases x)
      have w: "reports cl sh cl1 sh1" using Ret x work_jobs_reports by blast
      let ?cl = "cl1\<lparr>m_state := POLL\<rparr>" and ?gd = "gd\<lparr>gd_work := calls\<rparr>"
      have "reports cl1 sh1 cl' sh'" if "run L G keepalive t ?gd ?cl sh1 = Some (r, cl', sh', gd')"
        using less.hyps [OF _ that] reports_refl [of ?cl cl1 sh1 sh1] reports_trans c by auto
      then have "reports cl1 sh1 cl' sh'"
        using less.prems c finish_work_reports [of t cl1 sh1] reports_refl [of cl1 cl1 sh1 sh1]
        by (subst (asm) run.simps) (auto simp: GRAB_JOB Ret x Let_def split: if_splits prod.splits)
      with w show ?thesis by (rule reports_trans)
    qed (use less.prems GRAB_JOB c refl in \<open>auto simp: run.simps [of _ _ _ _ gd]\<close>)
  next
    case POLL
    then obtain ret rets where c: "gd_wait gd = ret # rets"
      using less.prems by (cases "gd_wait gd") (simp_all add: run.simps)
    let ?cl = "cl\<lparr>m_state := GRAB_JOB\<rparr>" and ?gd = "gd\<lparr>gd_wait := rets\<rparr>"
    have "reports cl sh cl' sh'" if "run L G keepalive t ?gd ?cl sh = Some (r, cl', sh', gd')"
      using less.hyps [OF _ that] reports_refl [of ?cl cl sh sh] reports_trans c by auto
    with less.prems POLL c refl show ?thesis
      by (subst (asm) run.simps) (auto simp: Let_def split: if_splits)
  qed
qed

section \<open>The buffer handed to gearmand\<close>

lemma strndup_covers:
  "length s \<le> length (c_strndup s (length s)) \<longleftrightarrow> NUL \<notin> set (butlast s)"
  "take (length s) (c_strndup s (length s)) = s \<longleftrightarrow> NUL \<notin> set (butlast s)"
  unfolding c_strndup_def by (induction s) auto

end
