(* ===== verification/Thread_Loop.thy ===== *)
theory Thread_Loop
  imports Gearman_Client
begin

text \<open>
  \<^verbatim>\<open>ThreadLoop\<close> (\<^verbatim>\<open>src/thread-loop.h\<close>, \<^verbatim>\<open>src/thread-loop.cpp\<close>): the body of a worker thread. It
  registers the thread, runs its client until it is told to stop, and takes the thread out of the
  registry again. Other threads work on the shared state at the same time: each turn of the loop
  starts with what they did to it (\<open>tu_shared\<close>), and \<open>rely\<close> states what a worker relies on them
  to leave alone.
\<close>

section \<open>Model\<close>

record ThreadLoop =
  m_pool :: string
  m_client :: GearmanClient

definition MAX_THREAD_LOOP_ATTEMPTS :: nat where "MAX_THREAD_LOOP_ATTEMPTS = 5"

definition new_ThreadLoop :: "tid \<Rightarrow> string \<Rightarrow> GearmanClient \<Rightarrow> shared \<Rightarrow> (ThreadLoop \<times> shared) cxx" where
  "new_ThreadLoop this_thread pool client sh = noexcept (
     cxx_bind (registerThread pool this_thread (sh_registry sh)) (\<lambda>reg.
     cxx_bind (setThreadState this_thread ''Waiting for work'' reg) (\<lambda>reg'.
     Ret (\<lparr>m_pool = pool, m_client = client\<rparr>, sh\<lparr>sh_registry := reg'\<rparr>))))"

text \<open>The destructor's body, then the destruction of the member \<^verbatim>\<open>m_client\<close>.\<close>

definition delete_ThreadLoop :: "tid \<Rightarrow> ThreadLoop \<Rightarrow> shared \<Rightarrow> shared cxx" where
  "delete_ThreadLoop this_thread loop sh = noexcept (
     cxx_bind (unregisterThread (m_pool loop) this_thread (sh_registry sh)) (\<lambda>reg.
     Ret (delete_GearmanClient (m_client loop) (sh\<lparr>sh_registry := reg\<rparr>))))"

text \<open>
  One turn of the loop: what the other threads did before it, the value of \<open>g_force_shutdown\<close>
  then, and what gearmand answers during the turn. The loop is \<open>None\<close> when it is still going
  after the turns given, or blocks in one of them.
\<close>

record turn =
  tu_shared :: "shared \<Rightarrow> shared"
  tu_force :: bool
  tu_gearmand :: gearmand

type_synonym loop_result = "(unit cxx \<times> ThreadLoop \<times> shared \<times> turn list) option"

fun loop_while ::
  "libc \<Rightarrow> gearman_lib \<Rightarrow> bool \<Rightarrow> tid \<Rightarrow> turn list \<Rightarrow> ThreadLoop \<Rightarrow> shared \<Rightarrow> loop_result" where
  "loop_while L G keepalive this_thread [] loop sh = None"
| "loop_while L G keepalive this_thread (u # us) loop sh =
     (let sh = tu_shared u sh in
      if tu_force u then Some (Ret (), loop, sh, us)
      else case shouldShutdown this_thread (sh_registry sh) of
        Throw e \<Rightarrow> Some (Throw e, loop, sh, us)
      | Terminate \<Rightarrow> Some (Terminate, loop, sh, us)
      | Ret stop \<Rightarrow>
          if stop then Some (Ret (), loop, sh, us)
          else case run L G keepalive this_thread (tu_gearmand u) (m_client loop) sh of
            None \<Rightarrow> None
          | Some (r, client, sh', gd') \<Rightarrow>
              let loop' = loop\<lparr>m_client := client\<rparr> in
              case r of
                Ret _ \<Rightarrow> loop_while L G keepalive this_thread us loop' sh'
              | _ \<Rightarrow> Some (r, loop', sh', us))"

function ThreadLoop_run ::
  "libc \<Rightarrow> gearman_lib \<Rightarrow> bool \<Rightarrow> tid \<Rightarrow> u32 \<Rightarrow> turn list \<Rightarrow> ThreadLoop \<Rightarrow> shared \<Rightarrow> loop_result" where
  "ThreadLoop_run L G keepalive this_thread attempts us loop sh =
     (if unat attempts > MAX_THREAD_LOOP_ATTEMPTS then Some (Ret (), loop, sh, us)
      else case loop_while L G keepalive this_thread us loop sh of
        None \<Rightarrow> None
      | Some (r, loop', sh', us') \<Rightarrow>
          (case r of
             Throw (GearmanClientException msg retriable) \<Rightarrow>
               if retriable then ThreadLoop_run L G keepalive this_thread (attempts + 1) us' loop' sh'
               else Some (Ret (), loop', sh', us')
           | Throw _ \<Rightarrow> Some (Ret (), loop', sh', us')
           | Ret _ \<Rightarrow> Some (Ret (), loop', sh', us')
           | Terminate \<Rightarrow> Some (Terminate, loop', sh', us')))"
  by pat_completeness auto
termination
proof (relation "measure (\<lambda>(L, G, keepalive, t, attempts, us, loop, sh). 6 - unat attempts)")
  fix attempts :: u32 and L :: libc and G :: gearman_lib and keepalive t us loop sh us' loop' sh'
  assume "\<not> MAX_THREAD_LOOP_ATTEMPTS < unat attempts"
  then have le: "unat attempts \<le> 5" by (simp add: MAX_THREAD_LOOP_ATTEMPTS_def)
  then have "unat (attempts + 1) = unat attempts + 1" by (simp add: unat_word_ariths)
  with le show "((L, G, keepalive, t, attempts + 1, us', loop', sh'), L, G, keepalive, t, attempts, us, loop, sh)
      \<in> measure (\<lambda>(L, G, keepalive, t, attempts, us, loop, sh). 6 - unat attempts)" by simp
qed simp

declare ThreadLoop_run.simps [simp del]

section \<open>What a worker relies on\<close>

definition rely :: "tid \<Rightarrow> ThreadRegistry \<Rightarrow> ThreadRegistry \<Rightarrow> bool" where
  "rely t r r' \<longleftrightarrow> reg_inv r' \<and> (\<forall>d. reg_view r t = Some d \<longrightarrow>
     (\<exists>d'. reg_view r' t = Some d' \<and> td_pool d' = td_pool d \<and> (td_should_shutdown d \<longrightarrow> td_should_shutdown d')))"

definition turn_ok :: "tid \<Rightarrow> turn \<Rightarrow> bool" where
  "turn_ok t u \<longleftrightarrow> (\<forall>sh. reg_inv (sh_registry sh) \<longrightarrow>
     rely t (sh_registry sh) (sh_registry (tu_shared u sh)) \<and> same_curl sh (tu_shared u sh))"

lemma rely_trans: "rely t r r' \<Longrightarrow> rely t r' r'' \<Longrightarrow> rely t r r''"
  by (fastforce simp: rely_def)

lemma only_state_rely: "only_state t r r' \<Longrightarrow> rely t' r r'"
  by (auto simp: only_state_def rely_def)

text \<open>A worker in its loop: registered under its pool, its client in a working state.\<close>

definition working :: "tid \<Rightarrow> ThreadLoop \<Rightarrow> shared \<Rightarrow> bool" where
  "working t loop sh \<longleftrightarrow> reg_inv (sh_registry sh) \<and> m_state (m_client loop) \<noteq> INIT \<and>
     (\<exists>d. reg_view (sh_registry sh) t = Some d \<and> td_pool d = m_pool loop)"

lemma working_rely:
  "working t loop sh \<Longrightarrow> rely t (sh_registry sh) (sh_registry sh') \<Longrightarrow> working t loop sh'"
  by (auto simp: working_def rely_def)

lemma working_shouldShutdown:
  "working t loop sh \<Longrightarrow> \<exists>b. shouldShutdown t (sh_registry sh) = Ret b"
  using tt.should_shutdown_ok [of "sh_registry sh" t] by (auto simp: working_def)

lemma working_run:
  assumes "working t loop sh" and "run L G keepalive t gd (m_client loop) sh = Some (r, cl', sh', gd')"
  shows "working t (loop\<lparr>m_client := cl'\<rparr>) sh' \<and> same_curl sh sh' \<and>
    (r = Ret () \<or> r = Terminate \<or> (\<exists>msg. r = Throw (GearmanClientException msg False)))"
proof -
  obtain d where d: "reg_inv (sh_registry sh)" "reg_view (sh_registry sh) t = Some d" "td_pool d = m_pool loop"
    using assms(1) by (auto simp: working_def)
  have "run_safe t sh (r, cl', sh', gd')"
    using run_safety [OF d(1,2) _ assms(2)] assms(1) by (simp add: working_def)
  then show ?thesis using d by (auto simp: run_safe_def working_def only_state_def)
qed

lemma loop_while_safe:
  assumes "working t loop sh" and "\<forall>u\<in>set us. turn_ok t u"
    and "loop_while L G keepalive t us loop sh = Some (r, loop', sh', us')"
  shows "working t loop' sh' \<and> same_curl sh sh' \<and> m_pool loop' = m_pool loop \<and> set us' \<subseteq> set us \<and>
    (r = Ret () \<or> r = Terminate \<or> (\<exists>msg. r = Throw (GearmanClientException msg False)))"
  using assms
proof (induction us arbitrary: loop sh)
  case (Cons u us)
  let ?sh = "tu_shared u sh"
  have inv: "reg_inv (sh_registry sh)" using Cons.prems(1) by (simp add: working_def)
  have w: "working t loop ?sh" and c: "same_curl sh ?sh"
    using Cons.prems(1,2) inv by (auto simp: turn_ok_def intro: working_rely)
  obtain b where b: "shouldShutdown t (sh_registry ?sh) = Ret b"
    using working_shouldShutdown [OF w] by blast
  show ?case
  proof (cases "tu_force u \<or> b")
    case True
    with Cons.prems(3) b w c show ?thesis by (auto simp: Let_def split: if_splits)
  next
    case False
    then obtain r1 cl1 sh1 gd1 where r1: "run L G keepalive t (tu_gearmand u) (m_client loop) ?sh = Some (r1, cl1, sh1, gd1)"
      using Cons.prems(3) b by (auto simp: Let_def split: option.splits)
    note w1 = working_run [OF w r1]
    show ?thesis
    proof (cases r1)
      case (Ret x)
      then have "loop_while L G keepalive t us (loop\<lparr>m_client := cl1\<rparr>) sh1 = Some (r, loop', sh', us')"
        using Cons.prems(3) False b r1 by (simp add: Let_def)
      from Cons.IH [OF _ _ this] w1 c Cons.prems(2) show ?thesis by (auto simp: same_curl_def)
    qed (use Cons.prems(3) False b r1 w1 c in \<open>auto simp: Let_def same_curl_def\<close>)
  qed
qed simp

text \<open>No exception that reaches \<^verbatim>\<open>ThreadLoop::run\<close> is retriable, so it never starts a second attempt.\<close>

lemma ThreadLoop_run_once:
  assumes "working t loop sh" and "\<forall>u\<in>set us. turn_ok t u" and "unat attempts \<le> MAX_THREAD_LOOP_ATTEMPTS"
  shows "ThreadLoop_run L G keepalive t attempts us loop sh =
     (case loop_while L G keepalive t us loop sh of
        None \<Rightarrow> None
      | Some (r, loop', sh', us') \<Rightarrow> Some (if r = Terminate then Terminate else Ret (), loop', sh', us'))"
proof (cases "loop_while L G keepalive t us loop sh")
  case None
  with assms(3) show ?thesis by (simp add: ThreadLoop_run.simps)
next
  case (Some x)
  obtain r loop' sh' us' where x: "x = (r, loop', sh', us')" by (cases x)
  from loop_while_safe [OF assms(1,2) Some [unfolded x]] assms(3) Some x show ?thesis
    by (subst ThreadLoop_run.simps) auto
qed

lemma ThreadLoop_run_safe:
  assumes "working t loop sh" and "\<forall>u\<in>set us. turn_ok t u"
    and "ThreadLoop_run L G keepalive t attempts us loop sh = Some (r, loop', sh', us')"
  shows "working t loop' sh' \<and> same_curl sh sh' \<and> m_pool loop' = m_pool loop \<and> (r = Ret () \<or> r = Terminate)"
proof (cases "unat attempts \<le> MAX_THREAD_LOOP_ATTEMPTS")
  case True
  with assms(3) ThreadLoop_run_once [OF assms(1,2) True] loop_while_safe [OF assms(1,2)] show ?thesis
    by (fastforce split: option.splits)
next
  case False
  with assms(1,3) show ?thesis by (auto simp: ThreadLoop_run.simps same_curl_def)
qed

section \<open>The loop stops when it is told to\<close>

text \<open>The client's calls return in every turn, and some turn finds the thread told to stop.\<close>

definition turn_returns :: "turn \<Rightarrow> bool" where
  "turn_returns u \<longleftrightarrow> (\<exists>i < length (gd_wait (tu_gearmand u)).
     gd_wait (tu_gearmand u) ! i \<noteq> GEARMAN_SUCCESS \<and> i < length (gd_work (tu_gearmand u)))"

definition tells :: "tid \<Rightarrow> turn \<Rightarrow> bool" where
  "tells t u \<longleftrightarrow> tu_force u \<or> (\<forall>sh. reg_inv (sh_registry sh) \<and> reg_view (sh_registry sh) t \<noteq> None \<longrightarrow>
     shouldShutdown t (sh_registry (tu_shared u sh)) = Ret True)"

lemma turn_returns_run:
  assumes "turn_returns u"
  shows "run L G keepalive t (tu_gearmand u) cl sh \<noteq> None"
proof -
  obtain i where "i < length (gd_wait (tu_gearmand u))" "gd_wait (tu_gearmand u) ! i \<noteq> GEARMAN_SUCCESS"
      "i < length (gd_work (tu_gearmand u))"
    using assms by (auto simp: turn_returns_def)
  then show ?thesis by (intro run_returns [of i]) auto
qed

lemma loop_while_stops:
  assumes "working t loop sh" and "\<forall>u\<in>set us. turn_ok t u \<and> turn_returns u" and "tells t stop"
  shows "loop_while L G keepalive t (us @ stop # rest) loop sh \<noteq> None"
  using assms(1,2)
proof (induction us arbitrary: loop sh)
  case Nil
  with assms(3) show ?case by (auto simp: tells_def working_def Let_def)
next
  case (Cons u us)
  let ?sh = "tu_shared u sh"
  have "reg_inv (sh_registry sh)" using Cons.prems(1) by (simp add: working_def)
  then have w: "working t loop ?sh"
    using Cons.prems by (auto simp: turn_ok_def intro: working_rely)
  obtain b where b: "shouldShutdown t (sh_registry ?sh) = Ret b"
    using working_shouldShutdown [OF w] by blast
  obtain r cl' sh' gd' where r: "run L G keepalive t (tu_gearmand u) (m_client loop) ?sh = Some (r, cl', sh', gd')"
    using turn_returns_run [of u L G keepalive t "m_client loop" ?sh] Cons.prems(2) by auto
  have "loop_while L G keepalive t (us @ stop # rest) (loop\<lparr>m_client := cl'\<rparr>) sh' \<noteq> None"
    using working_run [OF w r] Cons.prems(2) by (intro Cons.IH) auto
  with b r show ?case by (cases r) (simp_all add: Let_def)
qed

section \<open>The whole life of a worker\<close>

lemma new_ThreadLoop_ok:
  assumes "reg_inv (sh_registry sh)" and "reg_view (sh_registry sh) t = None"
  shows "\<exists>reg. new_ThreadLoop t pool cl sh = Ret (\<lparr>m_pool = pool, m_client = cl\<rparr>, sh\<lparr>sh_registry := reg\<rparr>) \<and>
    reg_inv reg \<and> reg_view reg = (reg_view (sh_registry sh))(t \<mapsto> (fresh_data pool)\<lparr>td_state := ''Waiting for work''\<rparr>)"
  using tt.worker_setup [OF assms, of pool "''Waiting for work''"]
  by (auto simp: new_ThreadLoop_def cxx_simps)

lemma new_ThreadLoop_dup:
  "reg_inv (sh_registry sh) \<Longrightarrow> reg_view (sh_registry sh) t \<noteq> None \<Longrightarrow> new_ThreadLoop t pool cl sh = Terminate"
  by (auto simp: new_ThreadLoop_def registerThread_dup)

lemma delete_ThreadLoop_ok:
  assumes "working t loop sh"
  shows "\<exists>reg. delete_ThreadLoop t loop sh = Ret (delete_GearmanClient (m_client loop) (sh\<lparr>sh_registry := reg\<rparr>)) \<and>
    reg_inv reg \<and> reg_view reg = (reg_view (sh_registry sh))(t := None)"
proof -
  obtain d where d: "reg_inv (sh_registry sh)" "reg_view (sh_registry sh) t = Some d" "td_pool d = m_pool loop"
    using assms by (auto simp: working_def)
  from unregisterThread_ok [OF this] show ?thesis by (auto simp: delete_ThreadLoop_def)
qed

section \<open>What a worker reports\<close>

definition quiet :: "turn \<Rightarrow> bool" where
  "quiet u \<longleftrightarrow> (\<forall>sh. sh_metrics (tu_shared u sh) = sh_metrics sh) \<and>
     (\<forall>c\<in>set (gd_work (tu_gearmand u)). closes_jobs c)"

lemma loop_while_reports:
  assumes "working t loop sh" and "\<forall>u\<in>set us. turn_ok t u \<and> quiet u"
    and "m_active_function (m_metrics (m_client loop)) = []"
    and "loop_while L G keepalive t us loop sh = Some (r, loop', sh', us')"
  shows "reports (m_client loop) sh (m_client loop') sh' \<and> m_active_function (m_metrics (m_client loop')) = []"
  using assms
proof (induction us arbitrary: loop sh)
  case (Cons u us)
  let ?sh = "tu_shared u sh"
  have "reg_inv (sh_registry sh)" using Cons.prems(1) by (simp add: working_def)
  then have w: "working t loop ?sh"
    using Cons.prems by (auto simp: turn_ok_def intro: working_rely)
  then obtain d where d: "reg_inv (sh_registry ?sh)" "reg_view (sh_registry ?sh) t = Some d"
    by (auto simp: working_def)
  have q: "sh_metrics ?sh = sh_metrics sh" "\<forall>c\<in>set (gd_work (tu_gearmand u)). closes_jobs c"
    using Cons.prems(2) by (auto simp: quiet_def)
  have refl: "reports (m_client loop) sh (m_client loop) ?sh" using q by (intro reports_refl) simp_all
  obtain b where b: "shouldShutdown t (sh_registry ?sh) = Ret b"
    using working_shouldShutdown [OF w] by blast
  show ?case
  proof (cases "tu_force u \<or> b")
    case True
    with Cons.prems(3,4) b refl show ?thesis by (auto simp: Let_def split: if_splits)
  next
    case False
    then obtain r1 cl1 sh1 gd1 where r1: "run L G keepalive t (tu_gearmand u) (m_client loop) ?sh = Some (r1, cl1, sh1, gd1)"
      using Cons.prems(4) b by (auto simp: Let_def split: option.splits)
    have rep: "reports (m_client loop) sh cl1 sh1" using reports_trans [OF refl run_reports [OF r1]] .
    have idle: "m_active_function (m_metrics cl1) = []" using run_idle [OF d q(2) Cons.prems(3) r1] by simp
    show ?thesis
    proof (cases r1)
      case (Ret x)
      then have "loop_while L G keepalive t us (loop\<lparr>m_client := cl1\<rparr>) sh1 = Some (r, loop', sh', us')"
        using Cons.prems(4) False b r1 by (simp add: Let_def)
      from Cons.IH [OF _ _ _ this] working_run [OF w r1] idle Cons.prems(2) rep show ?thesis
        by (auto intro: reports_trans)
    qed (use Cons.prems(4) False b r1 rep idle in \<open>auto simp: Let_def\<close>)
  qed
qed simp

end
