(* ===== verification/Main_Loop.thy ===== *)
theory Main_Loop
  imports Config Thread_Loop
begin

text \<open>
  \<^verbatim>\<open>MainLoop\<close>, \<^verbatim>\<open>ThreadPoolWatcher\<close> and \<^verbatim>\<open>gearman_thread_delegate\<close> (\<^verbatim>\<open>src/main-loop.h\<close>,
  \<^verbatim>\<open>src/main-loop.cpp\<close>): reloading the configuration, keeping the pools at their size, shutting
  down. Creating a thread is \<open>spawn\<close>: the identifier of the new thread, or \<open>None\<close> when the
  constructor of \<^verbatim>\<open>std::thread\<close> throws. The watcher is the model's instance of the locale
  \<^verbatim>\<open>pool_watcher\<close> of the theory Config.
\<close>

section \<open>Threads\<close>

datatype ThreadStartState = TS_INIT | TS_SUCCESS | TS_FAILURE

text \<open>
  What the watcher works on: the shared state, \<^verbatim>\<open>s_new_thread_wakeup\<close>, and the threads it has
  started with the loop object each of them owns.
\<close>

record watcher_state =
  ws_shared :: shared
  ws_wakeup :: ThreadStartState
  ws_threads :: "(tid \<times> ThreadLoop) list"

record host =
  h_gearman :: gearman_lib
  h_response_timeout :: u32
  h_spawn :: "watcher_state \<Rightarrow> tid option"

text \<open>
  The first half of \<^verbatim>\<open>gearman_thread_delegate\<close>, under the lock, up to the call of \<^verbatim>\<open>notify_one\<close>: the
  thread that started it waits until \<^verbatim>\<open>s_new_thread_wakeup\<close> is no longer \<^verbatim>\<open>INIT\<close>.
\<close>

definition delegate_start ::
  "host \<Rightarrow> tid \<Rightarrow> string \<Rightarrow> string list \<Rightarrow> string list \<Rightarrow> string \<Rightarrow> shared \<Rightarrow>
   (ThreadLoop \<times> shared \<times> ThreadStartState) cxx" where
  "delegate_start H this_thread pool servers_list jobs_list http_uri sh = noexcept (
     cxx_bind (new_GearmanClient (h_gearman H) (h_response_timeout H) (wrap pool) servers_list jobs_list http_uri sh)
       (\<lambda>(client, sh1).
     cxx_bind (new_ThreadLoop this_thread pool client sh1) (\<lambda>(loop, sh2).
     Ret (loop, sh2, TS_SUCCESS))))"

text \<open>The whole thread: start, loop, and the destruction of the loop object on return.\<close>

definition gearman_thread_delegate ::
  "libc \<Rightarrow> host \<Rightarrow> bool \<Rightarrow> tid \<Rightarrow> string \<Rightarrow> string list \<Rightarrow> string list \<Rightarrow> string \<Rightarrow> turn list \<Rightarrow> shared \<Rightarrow>
   shared cxx option" where
  "gearman_thread_delegate L H keepalive this_thread pool servers_list jobs_list http_uri us sh =
     (case delegate_start H this_thread pool servers_list jobs_list http_uri sh of
        Ret (loop, sh1, wakeup) \<Rightarrow>
          (case ThreadLoop_run L (h_gearman H) keepalive this_thread 0 us loop sh1 of
             None \<Rightarrow> None
           | Some (r, loop', sh2, us') \<Rightarrow>
               Some (case r of Ret _ \<Rightarrow> noexcept (delete_ThreadLoop this_thread loop' sh2) | _ \<Rightarrow> Terminate))
      | _ \<Rightarrow> Some Terminate)"

section \<open>ThreadPoolWatcher\<close>

fun start_workers ::
  "host \<Rightarrow> nat \<Rightarrow> string \<Rightarrow> string list \<Rightarrow> string list \<Rightarrow> string \<Rightarrow> watcher_state \<Rightarrow> watcher_state cxx" where
  "start_workers H 0 pool servers jobs uri w = Ret w"
| "start_workers H (Suc i) pool servers jobs uri w =
     (let w1 = w\<lparr>ws_wakeup := TS_INIT\<rparr> in
      case h_spawn H w1 of
        None \<Rightarrow> Throw System_error
      | Some t \<Rightarrow>
          cxx_bind (delegate_start H t pool servers jobs uri (ws_shared w1)) (\<lambda>(loop, sh, wakeup).
          start_workers H i pool servers jobs uri
            (w1\<lparr>ws_shared := sh, ws_wakeup := wakeup, ws_threads := ws_threads w1 @ [(t, loop)]\<rparr>)))"

definition set_registry :: "ThreadRegistry \<Rightarrow> watcher_state \<Rightarrow> watcher_state" where
  "set_registry reg w = w\<lparr>ws_shared := (ws_shared w)\<lparr>sh_registry := reg\<rparr>\<rparr>"

definition inform :: "host \<Rightarrow> watcher_state informer" where
  "inform H config_worker_count pool_name server_list jobs_list processing_uri w =
     (let (current_worker_count, reg) = poolCount pool_name (sh_registry (ws_shared w));
          w0 = set_registry reg w
      in if current_worker_count > config_worker_count then
           (let num_workers_to_stop = current_worker_count - config_worker_count in
            cxx_bind (sendShutdown pool_name num_workers_to_stop reg) (\<lambda>(all_sent, reg'). Ret (set_registry reg' w0)))
         else if current_worker_count < config_worker_count then
           (let num_workers_to_start = config_worker_count - current_worker_count in
            start_workers H (unat num_workers_to_start) pool_name server_list jobs_list processing_uri w0)
         else Ret w0)"

section \<open>MainLoop\<close>

datatype ShutdownType = NO | GRACEFUL | HARD

datatype sig_number = SIGPIPE | SIGTERM | SIGINT | SIGUSR1 | SIGHUP

datatype sig_handler = SIG_IGN | Shutdown_handler

definition shutdown_handler :: "sig_number \<Rightarrow> ShutdownType" where
  "shutdown_handler signal_arg = (if signal_arg = SIGUSR1 then GRACEFUL else HARD)"

text \<open>The handlers installed so far and success; \<open>act\<close> is whether \<^verbatim>\<open>sigaction\<close> succeeds for a signal.\<close>

fun install_handlers ::
  "(sig_number \<Rightarrow> bool) \<Rightarrow> sig_handler \<Rightarrow> sig_number list \<Rightarrow> (sig_number \<times> sig_handler) list \<Rightarrow>
   bool \<times> (sig_number \<times> sig_handler) list" where
  "install_handlers act h [] installed = (True, installed)"
| "install_handlers act h (s # ss) installed =
     (if \<not> act s then (False, installed) else install_handlers act h ss (installed @ [(s, h)]))"

definition setupSignals :: "bool \<Rightarrow> (sig_number \<Rightarrow> bool) \<Rightarrow> bool \<times> (sig_number \<times> sig_handler) list" where
  "setupSignals emptyset_ok act =
     (if \<not> emptyset_ok then (False, [])
      else
        let (ok, installed) = install_handlers act SIG_IGN [SIGPIPE] [] in
        if \<not> ok then (False, installed)
        else install_handlers act Shutdown_handler [SIGTERM, SIGINT, SIGUSR1, SIGHUP] installed)"

text \<open>
  \<open>ml_force\<close> is the global \<open>g_force_shutdown\<close>, which only \<^verbatim>\<open>doShutdown\<close> sets; \<open>ml_sleeps\<close> records the
  arguments of \<^verbatim>\<open>sleep_for\<close>, in seconds.
\<close>

record MainLoop =
  ml_config_filename :: string
  ml_config :: DriveshaftConfig
  ml_watcher :: watcher_state
  ml_force :: bool
  ml_sleeps :: "u32 list"

record durations =
  LOOP_SLEEP_DURATION :: u32
  HARD_SHUTDOWN_WAIT_DURATION :: u32
  GRACEFUL_SHUTDOWN_WAIT_DURATION :: u32

definition new_watcher :: watcher_state where
  "new_watcher = \<lparr>ws_shared = \<lparr>sh_registry = new_ThreadRegistry, sh_metrics = new_MetricProxy,
     sh_curl_handles = 0, sh_curl_slists = 0, sh_curl_forms = 0\<rparr>, ws_wakeup = TS_INIT, ws_threads = []\<rparr>"

definition new_MainLoop :: "bool \<Rightarrow> (sig_number \<Rightarrow> bool) \<Rightarrow> string \<Rightarrow> MainLoop cxx" where
  "new_MainLoop emptyset_ok act config_file =
     (if \<not> fst (setupSignals emptyset_ok act) then Throw (Runtime_error ''Unable to setup signals'')
      else Ret \<lparr>ml_config_filename = config_file, ml_config = new_DriveshaftConfig, ml_watcher = new_watcher,
                ml_force = False, ml_sleeps = []\<rparr>)"

definition sleep_for :: "u32 \<Rightarrow> MainLoop \<Rightarrow> MainLoop" where
  "sleep_for d ml = ml\<lparr>ml_sleeps := ml_sleeps ml @ [d]\<rparr>"

definition doShutdown :: "host \<Rightarrow> u32 \<Rightarrow> MainLoop \<Rightarrow> MainLoop cxx" where
  "doShutdown H wait ml = noexcept (
     let ml1 = ml\<lparr>ml_force := True\<rparr> in
     cxx_bind (clearAllWorkerCounts (inform H) (ml_config ml1) (ml_watcher ml1)) (\<lambda>(cfg, w).
     Ret (sleep_for wait (ml1\<lparr>ml_config := cfg, ml_watcher := w\<rparr>))))"

text \<open>One reload: a fresh configuration object is loaded, compared with the current one, and kept.\<close>

definition reload :: "libc \<Rightarrow> host \<Rightarrow> durations \<Rightarrow> json_parser \<Rightarrow> config_env \<Rightarrow> MainLoop \<Rightarrow> MainLoop cxx" where
  "reload L H D parse env ml =
     (let (r, new_config) = load L parse env (ml_config_filename ml) new_DriveshaftConfig in
      cxx_bind r (\<lambda>_.
      cxx_bind (supersede (inform H) new_config (ml_config ml) (ml_watcher ml)) (\<lambda>(old, w).
      Ret (sleep_for (LOOP_SLEEP_DURATION D) (ml\<lparr>ml_config := new_config, ml_watcher := w\<rparr>)))))"

text \<open>
  One iteration finds \<open>shutdown_type\<close> as a signal handler may have set it, the file system in some
  state, and the shared state as the workers left it. \<open>None\<close>: still looping after the iterations
  given.
\<close>

record iteration =
  it_shutdown :: ShutdownType
  it_env :: config_env
  it_workers :: "watcher_state \<Rightarrow> watcher_state"

fun main_iterations ::
  "libc \<Rightarrow> host \<Rightarrow> durations \<Rightarrow> json_parser \<Rightarrow> iteration list \<Rightarrow> MainLoop \<Rightarrow> MainLoop cxx option" where
  "main_iterations L H D parse [] ml = None"
| "main_iterations L H D parse (it # its) ml =
     (let ml = ml\<lparr>ml_watcher := it_workers it (ml_watcher ml)\<rparr> in
      case it_shutdown it of
        GRACEFUL \<Rightarrow> Some (doShutdown H (GRACEFUL_SHUTDOWN_WAIT_DURATION D) ml)
      | HARD \<Rightarrow> Some (doShutdown H (HARD_SHUTDOWN_WAIT_DURATION D) ml)
      | NO \<Rightarrow>
          (case reload L H D parse (it_env it) ml of
             Ret ml' \<Rightarrow> main_iterations L H D parse its ml'
           | Throw e \<Rightarrow> Some (Throw e)
           | Terminate \<Rightarrow> Some Terminate))"

definition MainLoop_run ::
  "libc \<Rightarrow> host \<Rightarrow> durations \<Rightarrow> iteration list \<Rightarrow> MainLoop \<Rightarrow> MainLoop cxx option" where
  "MainLoop_run L H D its ml =
     (case strict_reader of
        Ret F \<Rightarrow> main_iterations L H D (OurCharReader_parse F L) its ml
      | Throw e \<Rightarrow> Some (Throw e)
      | Terminate \<Rightarrow> Some Terminate)"

section \<open>Sizes of pools\<close>

abbreviation wview :: "watcher_state \<Rightarrow> tid \<rightharpoonup> ThreadData" where
  "wview w \<equiv> reg_view (sh_registry (ws_shared w))"

definition live :: "string \<Rightarrow> (tid \<rightharpoonup> ThreadData) \<Rightarrow> tid set" where
  "live p A = {t \<in> pool_members p A. unmarked A t}"

definition pool_size :: "string \<Rightarrow> watcher_state \<Rightarrow> nat" where
  "pool_size p w = card (pool_members p (wview w))"

definition active :: "string \<Rightarrow> watcher_state \<Rightarrow> nat" where
  "active p w = card (live p (wview w))"

definition watcher_ok :: "watcher_state \<Rightarrow> bool" where
  "watcher_ok w \<longleftrightarrow> reg_inv (sh_registry (ws_shared w)) \<and> (\<forall>p. pool_size p w < 2 ^ 32)"

lemma finite_members: "watcher_ok w \<Longrightarrow> finite (pool_members p (wview w))"
  by (simp add: watcher_ok_def finite_pool_members)

lemma live_upd_fresh:
  assumes "A t = None" and "td_pool d = q" and "\<not> td_should_shutdown d"
  shows "pool_members p (A(t \<mapsto> d)) = (if p = q then insert t (pool_members p A) else pool_members p A)"
    and "live p (A(t \<mapsto> d)) = (if p = q then insert t (live p A) else live p A)"
    and "t \<notin> pool_members p A"
  using assms by (auto simp: live_def pool_members_def unmarked_iff)

lemma live_mark_all:
  "live p (mark_all vs A) = live p A - set vs"
  by (auto simp: live_def pool_members_def unmarked_iff mark_all_def)

section \<open>Starting a worker\<close>

lemma add_servers_Ret: "add_servers G ss added = Ret r \<longleftrightarrow>
    r = added @ map c_str ss \<and> (\<forall>s\<in>set ss. gl_add_servers G (c_str s) = GEARMAN_SUCCESS)"
  by (induction ss arbitrary: added) auto

lemma add_functions_Ret: "add_functions G js added = Ret r \<longleftrightarrow>
    r = added @ map c_str js \<and> (\<forall>j\<in>set js. gl_add_function G (c_str j) = GEARMAN_SUCCESS)"
  by (induction js arbitrary: added) auto

definition accepts :: "gearman_lib \<Rightarrow> string list \<Rightarrow> string list \<Rightarrow> bool" where
  "accepts G servers jobs \<longleftrightarrow> gl_create G \<and> (\<forall>s\<in>set servers. gl_add_servers G (c_str s) = GEARMAN_SUCCESS) \<and>
     (\<forall>j\<in>set jobs. gl_add_function G (c_str j) = GEARMAN_SUCCESS)"

lemma new_GearmanClient_Ret:
  "new_GearmanClient G timeout metrics servers jobs uri sh = Ret (cl, sh') \<longleftrightarrow>
     accepts G servers jobs \<and>
     cl = \<lparr>m_metrics = metrics, m_http_uri = uri, m_worker_servers = map c_str servers,
           m_worker_functions = map c_str jobs,
           m_worker_timeout = timeout * 1000, m_json_parser = strict_features, m_state = GRAB_JOB\<rparr> \<and>
     sh' = sh\<lparr>sh_metrics := reportThreadStarted (m_pool_name metrics) (sh_metrics sh)\<rparr>"
  by (auto simp: new_GearmanClient_def accepts_def cxx_simps add_servers_Ret add_functions_Ret strict_reader_features
      w_reportThreadStarted_def)

abbreviation worker_data :: "string \<Rightarrow> ThreadData" where
  "worker_data pool \<equiv> (fresh_data pool)\<lparr>td_state := ''Waiting for work''\<rparr>"

text \<open>
  A start that returns has told the watcher so; it happens exactly when the library accepts the
  configuration and the thread is not in the registry yet. Otherwise the process ends.
\<close>

lemma delegate_start_iff:
  assumes "reg_inv (sh_registry sh)"
  shows "returns (delegate_start H t pool servers jobs uri sh) \<longleftrightarrow>
    accepts (h_gearman H) servers jobs \<and> reg_view (sh_registry sh) t = None"
proof -
  let ?sh = "sh\<lparr>sh_metrics := reportThreadStarted pool (sh_metrics sh)\<rparr>"
  have "returns (new_ThreadLoop t pool cl ?sh) \<longleftrightarrow> reg_view (sh_registry sh) t = None" for cl
    using new_ThreadLoop_ok [of ?sh t pool cl] new_ThreadLoop_dup [of ?sh t pool cl] assms
    by (cases "reg_view (sh_registry sh) t") auto
  then show ?thesis
    by (auto simp: returns_iff delegate_start_def cxx_simps new_GearmanClient_Ret wrap_def)
qed

lemma delegate_start_Ret:
  assumes "reg_inv (sh_registry sh)" and "delegate_start H t pool servers jobs uri sh = Ret (loop, sh', wakeup)"
  shows "wakeup = TS_SUCCESS" and "reg_view (sh_registry sh) t = None" and "reg_inv (sh_registry sh')"
    and "reg_view (sh_registry sh') = (reg_view (sh_registry sh))(t \<mapsto> worker_data pool)"
    and "working t loop sh'" and "m_pool loop = pool" and "m_metrics (m_client loop) = wrap pool"
    and "sh_metrics sh' = reportThreadStarted pool (sh_metrics sh)" and "same_curl sh sh'"
proof -
  show none: "reg_view (sh_registry sh) t = None"
    using delegate_start_iff [OF assms(1)] assms(2) by (metis returns_simps(1))
  obtain cl where cl: "new_ThreadLoop t pool cl (sh\<lparr>sh_metrics := reportThreadStarted pool (sh_metrics sh)\<rparr>) = Ret (loop, sh')"
      "m_metrics cl = wrap pool" "m_state cl = GRAB_JOB" and w: "wakeup = TS_SUCCESS"
    using assms(2) by (auto simp: delegate_start_def cxx_simps new_GearmanClient_Ret wrap_def)
  show "wakeup = TS_SUCCESS" by (rule w)
  obtain reg where l: "loop = \<lparr>m_pool = pool, m_client = cl\<rparr>"
      "sh' = sh\<lparr>sh_metrics := reportThreadStarted pool (sh_metrics sh), sh_registry := reg\<rparr>"
      and r: "reg_inv reg" "reg_view reg = (reg_view (sh_registry sh))(t \<mapsto> worker_data pool)"
    using new_ThreadLoop_ok [of "sh\<lparr>sh_metrics := reportThreadStarted pool (sh_metrics sh)\<rparr>" t pool cl]
      cl(1) assms(1) none by auto
  then show "reg_inv (sh_registry sh')" "m_pool loop = pool" "m_metrics (m_client loop) = wrap pool"
    "sh_metrics sh' = reportThreadStarted pool (sh_metrics sh)" "same_curl sh sh'"
    "reg_view (sh_registry sh') = (reg_view (sh_registry sh))(t \<mapsto> worker_data pool)"
    using cl(2) by (simp_all add: same_curl_def)
  show "working t loop sh'" using l r cl(3) by (simp add: working_def fresh_data_def)
qed

lemma start_workers_Ret:
  assumes "reg_inv (sh_registry (ws_shared w))" and "start_workers H n p servers jobs uri w = Ret w'"
  shows "reg_inv (sh_registry (ws_shared w')) \<and>
    card (pool_members q (wview w')) = card (pool_members q (wview w)) + (if q = p then n else 0) \<and>
    card (live q (wview w')) = card (live q (wview w)) + (if q = p then n else 0) \<and>
    wview w \<subseteq>\<^sub>m wview w'"
  using assms
proof (induction n arbitrary: w)
  case (Suc n)
  let ?w1 = "w\<lparr>ws_wakeup := TS_INIT\<rparr>"
  obtain t loop sh wk where t: "h_spawn H ?w1 = Some t"
      and s: "delegate_start H t p servers jobs uri (ws_shared w) = Ret (loop, sh, wk)"
      and rest: "start_workers H n p servers jobs uri
        (?w1\<lparr>ws_shared := sh, ws_wakeup := wk, ws_threads := ws_threads w @ [(t, loop)]\<rparr>) = Ret w'"
    using Suc.prems(2) by (auto simp: Let_def cxx_simps split: option.splits)
  note d = delegate_start_Ret [OF Suc.prems(1) s]
  have f: "finite (pool_members q (wview w))" using Suc.prems(1) by (rule finite_pool_members)
  then have f': "finite (live q (wview w))" by (simp add: live_def)
  have wd: "td_pool (worker_data p) = p" "\<not> td_should_shutdown (worker_data p)" by (simp_all add: fresh_data_def)
  define A where "A = (wview w)(t \<mapsto> worker_data p)"
  note u = live_upd_fresh [of "wview w" t "worker_data p" p q, OF d(2) wd, folded A_def]
  have tn: "t \<notin> live q (wview w)" using u(3) by (simp add: live_def)
  have le: "wview w \<subseteq>\<^sub>m A" using d(2) by (auto simp: A_def map_le_def dom_def)
  have ih: "reg_inv (sh_registry (ws_shared w'))"
      "card (pool_members q (wview w')) = card (pool_members q A) + (if q = p then n else 0)"
      "card (live q (wview w')) = card (live q A) + (if q = p then n else 0)" "A \<subseteq>\<^sub>m wview w'"
    using Suc.IH [OF _ rest] d(3) by (simp_all add: d(4) [folded A_def])
  show ?case
    using ih u f f' tn map_le_trans [OF le ih(4)] by auto
qed simp

text \<open>On a host whose library accepts the pool and whose threads get new identifiers, all start.\<close>

definition healthy :: "host \<Rightarrow> string list \<Rightarrow> string list \<Rightarrow> bool" where
  "healthy H servers jobs \<longleftrightarrow> accepts (h_gearman H) servers jobs \<and>
     (\<forall>w. reg_inv (sh_registry (ws_shared w)) \<longrightarrow> (\<exists>t. h_spawn H w = Some t \<and> wview w t = None))"

lemma start_workers_returns:
  assumes "healthy H servers jobs" and "reg_inv (sh_registry (ws_shared w))"
  shows "returns (start_workers H n p servers jobs uri w)"
  using assms(2)
proof (induction n arbitrary: w)
  case (Suc n)
  let ?w1 = "w\<lparr>ws_wakeup := TS_INIT\<rparr>"
  obtain t where t: "h_spawn H ?w1 = Some t" "wview w t = None"
    using assms(1) Suc.prems by (auto simp: healthy_def dest!: spec [of _ ?w1])
  then obtain loop sh wk where s: "delegate_start H t p servers jobs uri (ws_shared w) = Ret (loop, sh, wk)"
    using delegate_start_iff [OF Suc.prems, of H t p servers jobs uri] assms(1)
    by (auto simp: healthy_def returns_iff)
  with Suc.IH [of "?w1\<lparr>ws_shared := sh, ws_wakeup := wk, ws_threads := ws_threads w @ [(t, loop)]\<rparr>"]
    delegate_start_Ret(3) [OF Suc.prems s] t(1) show ?case by (simp add: Let_def)
qed simp

section \<open>inform\<close>

lemma set_registry_sel [simp]: "sh_registry (ws_shared (set_registry reg w)) = reg"
  by (simp add: set_registry_def)

text \<open>Both halves of \<^verbatim>\<open>inform\<close> on one page: the threads told, the threads started.\<close>

lemma inform_stop_case:
  assumes "watcher_ok w" and "unat n < pool_size p w"
  shows "\<exists>w' vs. inform H n p servers jobs uri w = Ret w' \<and> reg_inv (sh_registry (ws_shared w')) \<and>
    wview w' = mark_all vs (wview w) \<and> set vs \<subseteq> live p (wview w) \<and> distinct vs \<and>
    length vs = min (pool_size p w - unat n) (active p w)"
proof -
  let ?r = "sh_registry (ws_shared w)"
  have r: "reg_inv ?r" and size: "pool_size p w < 2 ^ 32" using assms(1) by (simp_all add: watcher_ok_def)
  obtain c reg where c: "poolCount p ?r = (c, reg)" by fastforce
  have c': "unat c = pool_size p w" "reg_inv reg" "reg_view reg = wview w"
    using tt.pool_count_ok [OF r, of p] size by (simp_all add: c pool_size_def unat_of_nat_u32)
  have gt: "n < c" using assms(2) by (simp add: u32_less_unat c')
  then have k: "unat (c - n) = pool_size p w - unat n" "c - n \<noteq> 0"
    using c'(1) u32_sub_unat [of n c] by auto
  obtain b r' vs where s: "sendShutdown p (c - n) reg = Ret (b, r')" "reg_inv r'"
      "reg_view r' = mark_all vs (wview w)" "set vs \<subseteq> pool_members p (wview w)" "distinct vs"
      "length vs = min (shutdown_quota (c - n)) (card {t \<in> pool_members p (wview w). unmarked (wview w) t})"
      "\<forall>t\<in>set vs. unmarked (wview w) t"
    using tt.send_shutdown_ok [OF c'(2), of p "c - n"] by (auto simp: c'(3))
  have "inform H n p servers jobs uri w = Ret (set_registry r' (set_registry reg w))"
    using gt s(1) by (simp add: inform_def c Let_def)
  moreover have "set vs \<subseteq> live p (wview w)" using s(4,7) by (auto simp: live_def)
  ultimately show ?thesis
    using s(2,3,5,6) k by (intro exI [of _ "set_registry r' (set_registry reg w)"] exI [of _ vs])
      (simp add: shutdown_quota_def active_def live_def)
qed

lemma inform_start_case:
  assumes "watcher_ok w" and "pool_size p w \<le> unat n"
  shows "\<exists>reg. reg_inv reg \<and> reg_view reg = wview w \<and>
    inform H n p servers jobs uri w =
      start_workers H (unat n - pool_size p w) p servers jobs uri (set_registry reg w)"
proof -
  let ?r = "sh_registry (ws_shared w)"
  have r: "reg_inv ?r" and size: "pool_size p w < 2 ^ 32" using assms(1) by (simp_all add: watcher_ok_def)
  obtain c reg where c: "poolCount p ?r = (c, reg)" by fastforce
  have c': "unat c = pool_size p w" "reg_inv reg" "reg_view reg = wview w"
    using tt.pool_count_ok [OF r, of p] size by (simp_all add: c pool_size_def unat_of_nat_u32)
  show ?thesis
  proof (cases "pool_size p w = unat n")
    case True
    then have "c = n" using c'(1) by (simp add: word_unat_eq_iff)
    with c' True show ?thesis by (intro exI [of _ reg]) (simp add: inform_def c)
  next
    case False
    then have "c < n" using c'(1) assms(2) by (simp add: u32_less_unat)
    moreover have "\<not> n < c" using calculation by simp
    moreover have "unat (n - c) = unat n - pool_size p w" using calculation c'(1) u32_sub_unat [of c n] by simp
    ultimately show ?thesis using c' by (intro exI [of _ reg]) (simp add: inform_def c Let_def)
  qed
qed

lemma inform_effect:
  assumes "watcher_ok w" and "inform H n p servers jobs uri w = Ret w'"
  shows "watcher_ok w' \<and>
    (\<forall>q. pool_size q w' = (if q = p then max (pool_size p w) (unat n) else pool_size q w)) \<and>
    (\<forall>q. active q w' = (if q = p then adjusted (unat n) (pool_size p w) (active p w) else active q w))"
proof (cases "unat n < pool_size p w")
  case True
  obtain vs where v: "reg_inv (sh_registry (ws_shared w'))" "wview w' = mark_all vs (wview w)"
      "set vs \<subseteq> live p (wview w)" "distinct vs" "length vs = min (pool_size p w - unat n) (active p w)"
    using inform_stop_case [OF assms(1) True, of H servers jobs uri] assms(2) by auto
  have "card (live q (wview w')) = (if q = p then active p w - (pool_size p w - unat n) else active q w)" for q
  proof (cases "q = p")
    case True
    have "finite (live p (wview w))" using finite_members [OF assms(1)] by (simp add: live_def)
    then have "card (live p (wview w) - set vs) = card (live p (wview w)) - length vs"
      using v(3,4) by (simp add: card_Diff_subset distinct_card)
    then show ?thesis using True v(5) by (simp add: v(2) live_mark_all active_def min_def)
  next
    case False
    then have "live q (wview w) \<inter> live p (wview w) = {}" by (auto simp: live_def pool_members_def)
    then have "live q (wview w) - set vs = live q (wview w)" using v(3) by auto
    then show ?thesis using False by (simp add: v(2) live_mark_all active_def)
  qed
  then have "\<forall>q. active q w' = (if q = p then adjusted (unat n) (pool_size p w) (active p w) else active q w)"
    using True by (simp add: active_def adjusted_def)
  moreover have "\<forall>q. pool_size q w' = pool_size q w" by (simp add: pool_size_def v(2))
  ultimately show ?thesis using assms(1) v(1) True by (simp add: watcher_ok_def)
next
  case False
  then obtain reg where reg: "reg_inv reg" "reg_view reg = wview w"
      "start_workers H (unat n - pool_size p w) p servers jobs uri (set_registry reg w) = Ret w'"
    using inform_start_case [OF assms(1), of p n H servers jobs uri] assms(2) by auto
  note s = start_workers_Ret [OF _ reg(3)]
  have "pool_size q w' = (if q = p then max (pool_size p w) (unat n) else pool_size q w)" for q
    using s [of q] reg(1,2) False by (simp add: pool_size_def)
  moreover have "active q w' = (if q = p then adjusted (unat n) (pool_size p w) (active p w) else active q w)" for q
    using s [of q] reg(1,2) False by (simp add: active_def adjusted_def pool_size_def)
  moreover have "unat n < 2 ^ 32" using unsigned_less [of n] by simp
  ultimately show ?thesis using assms(1) s reg(1) by (simp add: watcher_ok_def)
qed

interpretation tpw: pool_watcher "inform H" watcher_ok pool_size active for H
proof
  fix w p
  assume "watcher_ok w"
  then show "active p w \<le> pool_size p w"
    using finite_members [of w p] by (auto simp: active_def pool_size_def live_def intro!: card_mono)
qed (use inform_effect in blast)+

text \<open>
  What \<^verbatim>\<open>inform\<close> does to a thread that is already running: nothing, or it is told to stop. This is
  what a worker relies on.
\<close>

lemma inform_rely:
  assumes "watcher_ok w" and "inform H n p servers jobs uri w = Ret w'"
  shows "rely t (sh_registry (ws_shared w)) (sh_registry (ws_shared w'))"
proof (cases "unat n < pool_size p w")
  case True
  obtain vs where "reg_inv (sh_registry (ws_shared w'))" "wview w' = mark_all vs (wview w)"
    using inform_stop_case [OF assms(1) True, of H servers jobs uri] assms(2) by auto
  then show ?thesis by (auto simp: rely_def mark_all_def)
next
  case False
  then obtain reg where reg: "reg_inv reg" "reg_view reg = wview w"
      "start_workers H (unat n - pool_size p w) p servers jobs uri (set_registry reg w) = Ret w'"
    using inform_start_case [OF assms(1), of p n H servers jobs uri] assms(2) by auto
  from start_workers_Ret [OF _ reg(3)] reg(1,2) show ?thesis
    by (auto simp: rely_def map_le_def dom_def)
qed

lemma inform_returns:
  assumes "watcher_ok w" and "healthy H servers jobs"
  shows "returns (inform H n p servers jobs uri w)"
proof (cases "unat n < pool_size p w")
  case True
  from inform_stop_case [OF assms(1) True, of H servers jobs uri] show ?thesis by auto
next
  case False
  then obtain reg where "reg_inv reg" "inform H n p servers jobs uri w =
      start_workers H (unat n - pool_size p w) p servers jobs uri (set_registry reg w)"
    using inform_start_case [OF assms(1), of p n H servers jobs uri] by auto
  with start_workers_returns [OF assms(2), of "set_registry reg w"] show ?thesis by simp
qed

lemma inform_zero_returns:
  assumes "watcher_ok w"
  shows "returns (inform H 0 p servers jobs uri w)"
proof (cases "pool_size p w = 0")
  case True
  with inform_start_case [OF assms, of p 0 H servers jobs uri] show ?thesis by auto
next
  case False
  with inform_stop_case [OF assms, of 0 p H servers jobs uri] show ?thesis by auto
qed

lemma stop_calls_return:
  "watcher_ok w \<Longrightarrow> \<exists>w'. inform_all (inform H) (map (stop_call cfg) ps) w = Ret w' \<and> watcher_ok w'"
proof (induction ps arbitrary: w)
  case (Cons p ps)
  obtain w1 where w1: "inform H 0 p (m_server_list cfg) (job_list (pool_of cfg p)) (job_processing_uri (pool_of cfg p)) w = Ret w1"
    using inform_zero_returns [OF Cons.prems] by (meson returns_iff)
  from Cons.IH [OF tpw.inform_ok [OF Cons.prems w1]] w1 show ?case
    by (simp add: inform_all_calls del: inform_all.simps)
qed simp

section \<open>doShutdown\<close>

text \<open>On a host that can start every worker, no call of the watcher fails, nor does a whole reload.\<close>

lemma inform_all_returns:
  assumes "\<And>servers jobs. healthy H servers jobs"
  shows "watcher_ok w \<Longrightarrow> \<exists>w'. inform_all (inform H) cs w = Ret w' \<and> watcher_ok w'"
proof (induction cs arbitrary: w)
  case (Cons c cs)
  obtain n p s j u where c: "c = (n, p, s, j, u)" by (cases c)
  obtain w1 where w1: "inform H n p s j u w = Ret w1"
    using inform_returns [OF Cons.prems assms, of n p s j u] unfolding returns_iff by blast
  with Cons.IH [OF tpw.inform_ok [OF Cons.prems w1]] show ?case by (simp add: c)
qed simp

lemma supersede_returns:
  assumes "\<And>servers jobs. healthy H servers jobs" and "config_inv this" and "config_inv old" and "watcher_ok w"
  shows "\<exists>old' w'. supersede (inform H) this old w = Ret (old', w')"
proof -
  obtain w' where "inform_all (inform H) (supersede_calls this old) w = Ret w'"
    using inform_all_returns [of H w] assms(1,4) by blast
  then show ?thesis by (simp add: supersede_alt [OF assms(2,3)])
qed

text \<open>Every worker of a pool that is turned off is told, and stays told through the calls that size the new pools.\<close>

lemma inform_all_rely:
  assumes "watcher_ok w" and "inform_all (inform H) cs w = Ret w'"
  shows "watcher_ok w' \<and> rely t (sh_registry (ws_shared w)) (sh_registry (ws_shared w'))"
  using assms
proof (induction cs arbitrary: w)
  case Nil
  then show ?case by (simp add: rely_def watcher_ok_def)
next
  case (Cons c cs)
  obtain n p s j u where c: "c = (n, p, s, j, u)" by (cases c)
  then obtain w1 where w1: "inform H n p s j u w = Ret w1" "inform_all (inform H) cs w1 = Ret w'"
    using Cons.prems(2) by (auto simp: cxx_simps)
  from Cons.IH [OF tpw.inform_ok [OF Cons.prems(1) w1(1)] w1(2)] inform_rely [OF Cons.prems(1) w1(1), of t] show ?case
    by (blast intro: rely_trans)
qed

lemma inactive_told:
  assumes "watcher_ok w" and "active p w = 0" and "reg_view (sh_registry (ws_shared w)) t = Some d" and "td_pool d = p"
  shows "td_should_shutdown d"
proof -
  have "live p (wview w) = {}" using assms(1,2) finite_members [OF assms(1), of p] by (simp add: active_def live_def)
  then show ?thesis using assms(3,4) by (auto simp: live_def pool_members_def unmarked_def)
qed

lemma supersede_tells:
  assumes "config_inv this" and "config_inv old" and "watcher_ok w" and "supersede (inform H) this old w = Ret (old', w')"
    and "p \<in> set (fst (compare old this))" and "t \<in> pool_members p (wview w)"
  shows "shouldShutdown t (sh_registry (ws_shared w')) = Ret True"
proof -
  obtain w1 where w1: "inform_all (inform H) (map (stop_call old) (fst (compare old this))) w = Ret w1"
      and w': "inform_all (inform H) (map (size_call this) (map_keys (m_pool_map this))) w1 = Ret w'"
    using assms(4) by (auto simp: supersede_alt [OF assms(1,2)] supersede_calls_def inform_all_append cxx_simps)
  obtain d where d: "wview w t = Some d" "td_pool d = p" using assms(6) by (auto simp: pool_members_def)
  obtain d1 where d1: "wview w1 t = Some d1" "td_pool d1 = p"
    using inform_all_rely [OF assms(3) w1, of t] d by (auto simp: rely_def)
  have ok: "watcher_ok w1" "active p w1 = 0" using tpw.stop_calls [OF assms(3) w1] assms(5) by auto
  have "td_should_shutdown d1" using inactive_told [OF ok d1] .
  then show ?thesis using inform_all_rely [OF ok(1) w', of t] d1 by (auto simp: rely_def shouldShutdown_view)
qed

lemma doShutdown_effect:
  assumes "config_inv (ml_config ml)" and "watcher_ok (ml_watcher ml)"
  shows "\<exists>ml'. doShutdown H d ml = Ret ml' \<and> ml_force ml' \<and> ml_sleeps ml' = ml_sleeps ml @ [d] \<and>
    watcher_ok (ml_watcher ml') \<and>
    (\<forall>p. active p (ml_watcher ml') = (if p \<in> pool_names (ml_config ml) then 0 else active p (ml_watcher ml))) \<and>
    (\<forall>p. pool_size p (ml_watcher ml') = pool_size p (ml_watcher ml))"
proof -
  let ?cfg = "ml_config ml"
  obtain w' where "inform_all (inform H) (map (stop_call ?cfg) (map_keys (m_pool_map ?cfg))) (ml_watcher ml) = Ret w'"
    using stop_calls_return [OF assms(2)] by blast
  then obtain cfg' where c: "clearAllWorkerCounts (inform H) ?cfg (ml_watcher ml) = Ret (cfg', w')"
    by (simp add: clearAllWorkerCounts_alt [OF assms(1)])
  from tpw.clearAll_effect [OF assms this] show ?thesis
    by (simp add: doShutdown_def c sleep_for_def Let_def)
qed
section \<open>The whole life of a worker thread\<close>

text \<open>
  Whatever happens in between, a worker thread that ends takes its entry out of the registry and
  leaves no libcurl object behind; if every job it began was closed, all thread gauges are back
  where they were.
\<close>

lemma delegate_ends:
  assumes "reg_inv (sh_registry sh)" and "\<forall>u\<in>set us. turn_ok t u"
    and "gearman_thread_delegate L H keepalive t pool servers jobs uri us sh = Some (Ret sh')"
  shows "reg_inv (sh_registry sh') \<and> reg_view (sh_registry sh') t = None \<and> same_curl sh sh' \<and>
    ((\<forall>u\<in>set us. quiet u) \<longrightarrow> idle_gauge p (sh_metrics sh') = idle_gauge p (sh_metrics sh) \<and>
       working_gauge p f (sh_metrics sh') = working_gauge p f (sh_metrics sh))"
proof -
  obtain loop sh1 wk where s: "delegate_start H t pool servers jobs uri sh = Ret (loop, sh1, wk)"
    using assms(3) by (auto simp: gearman_thread_delegate_def split: cxx.splits prod.splits)
  note d = delegate_start_Ret [OF assms(1) s]
  obtain loop' sh2 us' where l: "ThreadLoop_run L (h_gearman H) keepalive t 0 us loop sh1 = Some (Ret (), loop', sh2, us')"
      and del: "delete_ThreadLoop t loop' sh2 = Ret sh'"
    using assms(3) s by (auto simp: gearman_thread_delegate_def cxx_simps split: option.splits cxx.splits)
  note safe = ThreadLoop_run_safe [OF d(5) assms(2) l]
  then obtain reg where reg: "delete_ThreadLoop t loop' sh2 = Ret (delete_GearmanClient (m_client loop') (sh2\<lparr>sh_registry := reg\<rparr>))"
      "reg_inv reg" "reg_view reg = (reg_view (sh_registry sh2))(t := None)"
    using delete_ThreadLoop_ok by blast
  then have sh': "sh' = delete_GearmanClient (m_client loop') (sh2\<lparr>sh_registry := reg\<rparr>)" using del by simp
  have "idle_gauge p (sh_metrics sh') = idle_gauge p (sh_metrics sh) \<and>
      working_gauge p f (sh_metrics sh') = working_gauge p f (sh_metrics sh)" if "\<forall>u\<in>set us. quiet u"
  proof -
    have "m_active_function (m_metrics (m_client loop)) = []" by (simp add: d(7) wrap_def)
    moreover obtain r where "loop_while L (h_gearman H) keepalive t us loop sh1 = Some (r, loop', sh2, us')"
      using l ThreadLoop_run_once [OF d(5) assms(2), of 0 L "h_gearman H" keepalive]
      by (auto split: option.splits)
    ultimately have "reports (m_client loop) sh1 (m_client loop') sh2"
        and idle: "m_active_function (m_metrics (m_client loop')) = []"
      using loop_while_reports [OF d(5)] assms(2) that by blast+
    then obtain es where "wrapper_run MetricProxy_methods es (wrap pool)
        (w_reportThreadStarted MetricProxy_methods (wrap pool) (sh_metrics sh)) = (m_metrics (m_client loop'), sh_metrics sh2)"
      by (auto simp: reports_def d(7,8) w_reportThreadStarted_def wrap_def)
    from mp.lifetime_balances [OF this idle] show ?thesis by (simp add: sh' delete_GearmanClient_def)
  qed
  with reg(2,3) safe d(9) show ?thesis
    by (auto simp: sh' delete_GearmanClient_def same_curl_def)
qed
section \<open>The main loop\<close>

lemma zero_pools_keeps:
  "config_inv cfg \<Longrightarrow> set ps \<subseteq> pool_names cfg \<Longrightarrow>
     config_inv (zero_pools ps cfg) \<and> pool_names (zero_pools ps cfg) = pool_names cfg"
proof (induction ps arbitrary: cfg)
  case Nil
  then show ?case by (simp add: zero_pools_def)
next
  case (Cons p ps)
  let ?cfg = "cfg\<lparr>m_pool_map := map_put p ((pool_of cfg p)\<lparr>worker_count := 0\<rparr>) (m_pool_map cfg)\<rparr>"
  obtain d where d: "map_find p (m_pool_map cfg) = Some d" using Cons.prems(2) by (auto simp: pool_names_def)
  have "set_inv (job_list d)" using config_invD(3) [OF Cons.prems(1) d] .
  then have "config_inv ?cfg"
    using Cons.prems(1) by (simp add: config_inv_pools pools_inv_put pool_of_def d)
  moreover have "pool_names ?cfg = pool_names cfg"
    using config_invD(2) [OF Cons.prems(1)] d by (auto simp: pool_names_def map_simps)
  moreover have "zero_pools (p # ps) cfg = zero_pools ps ?cfg" by (simp add: zero_pools_def)
  ultimately show ?case using Cons.IH [of ?cfg] Cons.prems(2) by simp
qed

definition main_inv :: "MainLoop \<Rightarrow> bool" where
  "main_inv ml \<longleftrightarrow> config_inv (ml_config ml) \<and> watcher_ok (ml_watcher ml)"

lemma main_inv_new: "new_MainLoop e act f = Ret ml \<Longrightarrow> main_inv ml"
  by (auto simp: new_MainLoop_def main_inv_def watcher_ok_def new_watcher_def pool_size_def pool_members_def split: if_splits)

lemma doShutdown_names:
  assumes "main_inv ml" and "doShutdown H d ml = Ret ml'"
  shows "config_inv (ml_config ml') \<and> pool_names (ml_config ml') = pool_names (ml_config ml)"
proof -
  have c: "config_inv (ml_config ml)" using assms(1) by (simp add: main_inv_def)
  let ?ps = "map_keys (m_pool_map (ml_config ml))"
  obtain w' where "ml' = sleep_for d (ml\<lparr>ml_force := True, ml_config := zero_pools ?ps (ml_config ml), ml_watcher := w'\<rparr>)"
    using assms(2) by (cases "inform_all (inform H) (map (stop_call (ml_config ml)) ?ps) (ml_watcher ml)")
      (auto simp: doShutdown_def clearAllWorkerCounts_alt [OF c])
  moreover have "set ?ps \<subseteq> pool_names (ml_config ml)" by (simp add: pool_names_keys)
  ultimately show ?thesis using zero_pools_keeps [OF c] by (simp add: sleep_for_def)
qed

lemma reload_effect:
  assumes "main_inv ml" and "reload L H D parse env ml = Ret ml'"
  shows "main_inv ml' \<and> ml_force ml' = ml_force ml \<and>
    (\<exists>b. load L parse env (ml_config_filename ml) new_DriveshaftConfig = (Ret b, ml_config ml')) \<and>
    (\<forall>p\<in>pool_names (ml_config ml'). pool_size p (ml_watcher ml') =
       max (pool_size p (ml_watcher ml)) (unat (worker_count (pool_of (ml_config ml') p)))) \<and>
    (\<forall>p\<in>pool_names (ml_config ml) - pool_names (ml_config ml'). active p (ml_watcher ml') = 0)"
proof -
  let ?old = "ml_config ml"
  obtain r cfg where l: "load L parse env (ml_config_filename ml) new_DriveshaftConfig = (r, cfg)" by fastforce
  obtain b old' w' where r: "r = Ret b" and s: "supersede (inform H) cfg ?old (ml_watcher ml) = Ret (old', w')"
      and ml': "ml' = sleep_for (LOOP_SLEEP_DURATION D) (ml\<lparr>ml_config := cfg, ml_watcher := w'\<rparr>)"
    using assms(2) by (auto simp: reload_def l cxx_simps)
  have inv: "config_inv cfg" "config_inv ?old" "watcher_ok (ml_watcher ml)"
    using load_inv [of new_DriveshaftConfig L parse env "ml_config_filename ml"] assms(1)
    by (simp_all add: l main_inv_def)
  note e = tpw.supersede_effect [OF inv s]
  have "p \<in> set (fst (compare ?old cfg))" if "p \<in> pool_names ?old - pool_names cfg" for p
    using that compare_spec(1) [OF inv(2,1)] by (auto simp: pool_changed_def pool_names_def split: option.splits)
  with e inv(1) show ?thesis by (auto simp: ml' sleep_for_def main_inv_def l r Let_def)
qed

definition iteration_ok :: "iteration \<Rightarrow> bool" where
  "iteration_ok it \<longleftrightarrow> (\<forall>w. watcher_ok w \<longrightarrow> watcher_ok (it_workers it w))"

text \<open>
  The loop returns only through a shutdown: then the global flag is set, and every thread of every
  pool of the configuration in force has been told to stop.
\<close>

lemma main_iterations_shutdown:
  assumes "main_inv ml" and "\<forall>it\<in>set its. iteration_ok it"
    and "main_iterations L H D parse its ml = Some (Ret ml')"
  shows "ml_force ml' \<and> (\<forall>p\<in>pool_names (ml_config ml'). active p (ml_watcher ml') = 0) \<and>
    (\<exists>it\<in>set its. it_shutdown it \<noteq> NO \<and> last (ml_sleeps ml') =
       (if it_shutdown it = GRACEFUL then GRACEFUL_SHUTDOWN_WAIT_DURATION D else HARD_SHUTDOWN_WAIT_DURATION D))"
  using assms
proof (induction its arbitrary: ml)
  case (Cons it its)
  let ?ml = "ml\<lparr>ml_watcher := it_workers it (ml_watcher ml)\<rparr>"
  have inv: "main_inv ?ml" using Cons.prems(1,2) by (simp add: main_inv_def iteration_ok_def)
  have stop: "ml_force ml' \<and> (\<forall>p\<in>pool_names (ml_config ml'). active p (ml_watcher ml') = 0) \<and> last (ml_sleeps ml') = d"
    if "doShutdown H d ?ml = Ret ml'" for d
    using doShutdown_effect [of ?ml H d] doShutdown_names [OF inv that] inv that by (auto simp: main_inv_def)
  show ?case
  proof (cases "it_shutdown it")
    case NO
    then obtain ml1 where r: "reload L H D parse (it_env it) ?ml = Ret ml1"
        and rest: "main_iterations L H D parse its ml1 = Some (Ret ml')"
      using Cons.prems(3) by (auto simp: Let_def split: cxx.splits)
    from Cons.IH [OF _ _ rest] reload_effect [OF inv r] Cons.prems(2) show ?thesis by auto
  qed (use Cons.prems(3) stop in \<open>auto simp: Let_def\<close>)
qed simp

text \<open>On a healthy host, with configurations that load, a shutdown request does end the loop.\<close>

definition loads :: "libc \<Rightarrow> json_parser \<Rightarrow> string \<Rightarrow> iteration \<Rightarrow> bool" where
  "loads L parse f it \<longleftrightarrow> returns (fst (load L parse (it_env it) f new_DriveshaftConfig))"

lemma reload_returns:
  assumes "\<And>servers jobs. healthy H servers jobs" and "main_inv ml" and "loads L parse (ml_config_filename ml) it"
  shows "\<exists>ml'. reload L H D parse (it_env it) ml = Ret ml' \<and> ml_config_filename ml' = ml_config_filename ml"
proof -
  obtain b cfg where l: "load L parse (it_env it) (ml_config_filename ml) new_DriveshaftConfig = (Ret b, cfg)"
    using assms(3) by (cases "load L parse (it_env it) (ml_config_filename ml) new_DriveshaftConfig")
      (auto simp: loads_def returns_iff)
  have "config_inv cfg" using load_inv [OF config_inv_new, of L parse "it_env it" "ml_config_filename ml"] by (simp add: l)
  then obtain old' w' where "supersede (inform H) cfg (ml_config ml) (ml_watcher ml) = Ret (old', w')"
    using supersede_returns [of H cfg "ml_config ml" "ml_watcher ml"] assms(1,2) by (auto simp: main_inv_def)
  then show ?thesis by (simp add: reload_def l Let_def sleep_for_def)
qed

lemma main_iterations_prefix:
  assumes "\<And>servers jobs. healthy H servers jobs"
  shows "main_inv ml \<Longrightarrow> \<forall>it\<in>set its. it_shutdown it = NO \<and> iteration_ok it \<and> loads L parse (ml_config_filename ml) it \<Longrightarrow>
    \<exists>ml'. main_inv ml' \<and> ml_config_filename ml' = ml_config_filename ml \<and>
      main_iterations L H D parse (its @ rest) ml = main_iterations L H D parse rest ml'"
proof (induction its arbitrary: ml)
  case (Cons it its)
  let ?ml = "ml\<lparr>ml_watcher := it_workers it (ml_watcher ml)\<rparr>"
  have inv: "main_inv ?ml" using Cons.prems by (simp add: main_inv_def iteration_ok_def)
  obtain ml1 where r: "reload L H D parse (it_env it) ?ml = Ret ml1" "ml_config_filename ml1 = ml_config_filename ml"
    using reload_returns [of H ?ml L parse it D] assms(1) inv Cons.prems(2) by auto
  have "\<exists>ml'. main_inv ml' \<and> ml_config_filename ml' = ml_config_filename ml1 \<and>
      main_iterations L H D parse (its @ rest) ml1 = main_iterations L H D parse rest ml'"
    using reload_effect [OF inv r(1)] Cons.prems(2) r(2) by (intro Cons.IH) simp_all
  with r Cons.prems(2) show ?case by (simp add: Let_def)
qed auto

lemma main_iterations_end:
  assumes "\<And>servers jobs. healthy H servers jobs" and "it_shutdown stop \<noteq> NO" and "iteration_ok stop"
    and "main_inv ml" and "\<forall>it\<in>set its. it_shutdown it = NO \<and> iteration_ok it \<and> loads L parse (ml_config_filename ml) it"
  shows "\<exists>ml'. main_iterations L H D parse (its @ stop # rest) ml = Some (Ret ml')"
proof -
  obtain ml1 where ml1: "main_inv ml1" "main_iterations L H D parse (its @ stop # rest) ml = main_iterations L H D parse (stop # rest) ml1"
    using main_iterations_prefix [of H ml its L parse D "stop # rest"] assms(1,4,5) by blast
  let ?ml = "ml1\<lparr>ml_watcher := it_workers stop (ml_watcher ml1)\<rparr>"
  have "\<exists>ml'. doShutdown H d ?ml = Ret ml'" for d
    using doShutdown_effect [of ?ml H d] ml1(1) assms(3) by (auto simp: main_inv_def iteration_ok_def)
  with ml1(2) assms(2) show ?thesis by (cases "it_shutdown stop") (simp_all add: Let_def)
qed

text \<open>A configuration that cannot be read, or is not valid, ends the loop with the exception.\<close>

lemma main_iterations_bad_config:
  assumes "\<And>servers jobs. healthy H servers jobs" and "it_shutdown bad = NO"
    and "fst (load L parse (it_env bad) (ml_config_filename ml) new_DriveshaftConfig) = Throw e"
    and "main_inv ml" and "\<forall>it\<in>set its. it_shutdown it = NO \<and> iteration_ok it \<and> loads L parse (ml_config_filename ml) it"
  shows "main_iterations L H D parse (its @ bad # rest) ml = Some (Throw e)"
proof -
  obtain ml1 where "ml_config_filename ml1 = ml_config_filename ml"
      "main_iterations L H D parse (its @ bad # rest) ml = main_iterations L H D parse (bad # rest) ml1"
    using main_iterations_prefix [of H ml its L parse D "bad # rest"] assms(1,4,5) by blast
  then show ?thesis
    using assms(2,3) by (cases "load L parse (it_env bad) (ml_config_filename ml) new_DriveshaftConfig") (simp add: Let_def reload_def)
qed

section \<open>Signals\<close>

lemma install_handlers_ok:
  "install_handlers act h ss installed =
     (let ok = takeWhile act ss in (\<forall>s\<in>set ss. act s, installed @ map (\<lambda>s. (s, h)) ok))"
  by (induction ss arbitrary: installed) (simp_all add: Let_def)

lemma setupSignals_ok:
  "fst (setupSignals e act) \<longleftrightarrow> e \<and> (\<forall>s. act s)"
  "fst (setupSignals e act) \<Longrightarrow> snd (setupSignals e act) =
     [(SIGPIPE, SIG_IGN), (SIGTERM, Shutdown_handler), (SIGINT, Shutdown_handler), (SIGUSR1, Shutdown_handler),
      (SIGHUP, Shutdown_handler)]"
  by (auto simp: setupSignals_def split: if_splits) (metis sig_number.exhaust)

section \<open>Repeated requests\<close>

text \<open>
  A thread that was told to stop stays in its pool until it ends, so it still counts in
  \<^verbatim>\<open>poolCount\<close>. A second call before it ends asks other threads of the pool to stop as well.
\<close>

lemma inform_twice:
  assumes "watcher_ok w" and "active p w = pool_size p w" and "unat n < pool_size p w"
    and "inform H n p servers jobs uri w = Ret w1" and "inform H n p servers jobs uri w1 = Ret w2"
  shows "active p w1 = unat n" and "active p w2 = unat n - (pool_size p w - unat n)"
  using inform_effect [OF assms(1,4)] inform_effect [OF _ assms(5)] assms(2,3)
  by (auto simp: adjusted_def)
end
