(* ===== verification/System.thy ===== *)
theory System
  imports Main_Loop
begin

text \<open>
  The threads of one process, interleaved (\<^verbatim>\<open>src/main-loop.cpp\<close>, \<^verbatim>\<open>src/thread-loop.cpp\<close>). Every operation of the
  thread registry holds the registry's mutex, so a step of the system is one such operation by one thread, or a
  step of the hand-over between the main thread and a thread it starts: the mutex \<^verbatim>\<open>s_new_thread_mutex\<close> with its
  owner, the condition variable \<^verbatim>\<open>s_new_thread_cond\<close> (whether the main thread is blocked on it), and the flag
  \<^verbatim>\<open>s_new_thread_wakeup\<close>. A failed assertion of the registry ends the process (\<open>s_dead\<close>); so does what is no assertion:
  an exception of the client's constructor in the \<^verbatim>\<open>noexcept\<close> delegate, of \<^verbatim>\<open>std::thread\<close>, a client that terminates, the
  return of \<^verbatim>\<open>main\<close> (\<open>s_over\<close>).
\<close>

section \<open>Steps\<close>

record start_args =
  sa_pool :: string
  sa_servers :: "string list"
  sa_jobs :: "string list"
  sa_uri :: string

text \<open>
  Where a worker thread is: created; inside the delegate with the mutex held, before and after the client is
  built, in the constructor of \<^verbatim>\<open>ThreadLoop\<close> between its two registry calls, and behind it; about to call
  \<^verbatim>\<open>notify_one\<close>; at the condition of its loop; inside \<^verbatim>\<open>m_client->run()\<close>; out of the loop with the destructor to come.
\<close>

datatype phase =
    Spawned start_args
  | Locked start_args
  | Built start_args GearmanClient
  | Registered ThreadLoop
  | Started ThreadLoop
  | Notifying ThreadLoop
  | Checking ThreadLoop
  | Working ThreadLoop
  | Leaving ThreadLoop

text \<open>
  The main thread is outside the start loop, holds the mutex before it creates the thread, holds it while it
  tests the flag, is blocked on the condition variable (without the mutex), or has been woken and needs the mutex
  again before it goes back to the test.
\<close>

datatype main_phase = Main_idle | Main_locked start_args | Main_testing tid | Main_waiting tid | Main_woken tid

datatype owner = Main_thread | Worker_thread tid

datatype action =
  Main_acts | Main_done | Spurious | Starts tid | Notifies tid | Checks tid | Works tid | Ends_run tid | Leaves tid

record sys =
  s_shared :: shared
  s_phase :: "tid \<rightharpoonup> phase"
  s_main :: main_phase
  s_mutex :: "owner option"
  s_wakeup :: ThreadStartState
  s_force :: bool
  s_dead :: bool
  s_over :: bool

definition sys_init :: sys where
  "sys_init = \<lparr>s_shared = ws_shared new_watcher, s_phase = Map.empty, s_main = Main_idle, s_mutex = None, s_wakeup = TS_INIT,
     s_force = False, s_dead = False, s_over = False\<rparr>"

abbreviation s_reg :: "sys \<Rightarrow> ThreadRegistry" where "s_reg s \<equiv> sh_registry (s_shared s)"

definition alive :: "sys \<Rightarrow> bool" where "alive s \<longleftrightarrow> \<not> s_dead s \<and> \<not> s_over s"

definition set_reg :: "ThreadRegistry \<Rightarrow> sys \<Rightarrow> sys" where
  "set_reg r s = s\<lparr>s_shared := (s_shared s)\<lparr>sh_registry := r\<rparr>\<rparr>"

definition set_phase :: "tid \<Rightarrow> phase option \<Rightarrow> sys \<Rightarrow> sys" where
  "set_phase t ph s = s\<lparr>s_phase := (s_phase s)(t := ph)\<rparr>"

text \<open>\<^verbatim>\<open>notify_one\<close> on the condition variable, which only the main thread ever waits on.\<close>

definition notify_one :: "main_phase \<Rightarrow> main_phase" where
  "notify_one m = (case m of Main_waiting t \<Rightarrow> Main_woken t | _ \<Rightarrow> m)"

inductive step :: "host \<Rightarrow> action \<Rightarrow> sys \<Rightarrow> sys \<Rightarrow> bool" for H where
  lock: "alive s \<Longrightarrow> s_main s = Main_idle \<Longrightarrow> s_mutex s = None \<Longrightarrow>
    step H Main_acts s (s\<lparr>s_main := Main_locked a, s_mutex := Some Main_thread, s_wakeup := TS_INIT\<rparr>)"
| create: "alive s \<Longrightarrow> s_main s = Main_locked a \<Longrightarrow> s_phase s t = None \<Longrightarrow>
    step H Main_acts s (set_phase t (Some (Spawned a)) (s\<lparr>s_main := Main_testing t\<rparr>))"
| create_fails: "alive s \<Longrightarrow> s_main s = Main_locked a \<Longrightarrow> step H Main_acts s (s\<lparr>s_over := True\<rparr>)"
| test_wait: "alive s \<Longrightarrow> s_main s = Main_testing t \<Longrightarrow> s_wakeup s = TS_INIT \<Longrightarrow>
    step H Main_acts s (s\<lparr>s_main := Main_waiting t, s_mutex := None\<rparr>)"
| test_done: "alive s \<Longrightarrow> s_main s = Main_testing t \<Longrightarrow> s_wakeup s \<noteq> TS_INIT \<Longrightarrow>
    step H Main_done s (s\<lparr>s_main := Main_idle, s_mutex := None\<rparr>)"
| spurious: "alive s \<Longrightarrow> s_main s = Main_waiting t \<Longrightarrow> step H Spurious s (s\<lparr>s_main := Main_woken t\<rparr>)"
| relock: "alive s \<Longrightarrow> s_main s = Main_woken t \<Longrightarrow> s_mutex s = None \<Longrightarrow>
    step H Main_acts s (s\<lparr>s_main := Main_testing t, s_mutex := Some Main_thread\<rparr>)"
| enter: "alive s \<Longrightarrow> s_phase s t = Some (Spawned a) \<Longrightarrow> s_mutex s = None \<Longrightarrow>
    step H (Starts t) s (set_phase t (Some (Locked a)) (s\<lparr>s_mutex := Some (Worker_thread t)\<rparr>))"
| build: "alive s \<Longrightarrow> s_phase s t = Some (Locked a) \<Longrightarrow>
    new_GearmanClient (h_gearman H) (h_response_timeout H) (wrap (sa_pool a)) (sa_servers a) (sa_jobs a) (sa_uri a)
      (s_shared s) = Ret (client, sh) \<Longrightarrow>
    step H (Starts t) s (set_phase t (Some (Built a client)) (s\<lparr>s_shared := sh\<rparr>))"
| build_fails: "alive s \<Longrightarrow> s_phase s t = Some (Locked a) \<Longrightarrow>
    \<not> returns (new_GearmanClient (h_gearman H) (h_response_timeout H) (wrap (sa_pool a)) (sa_servers a) (sa_jobs a) (sa_uri a)
      (s_shared s)) \<Longrightarrow>
    step H (Starts t) s (s\<lparr>s_over := True\<rparr>)"
| register: "alive s \<Longrightarrow> s_phase s t = Some (Built a client) \<Longrightarrow> registerThread (sa_pool a) t (s_reg s) = Ret r \<Longrightarrow>
    step H (Starts t) s (set_phase t (Some (Registered \<lparr>m_pool = sa_pool a, m_client = client\<rparr>)) (set_reg r s))"
| register_dies: "alive s \<Longrightarrow> s_phase s t = Some (Built a client) \<Longrightarrow> \<not> returns (registerThread (sa_pool a) t (s_reg s)) \<Longrightarrow>
    step H (Starts t) s (s\<lparr>s_dead := True\<rparr>)"
| announce: "alive s \<Longrightarrow> s_phase s t = Some (Registered loop) \<Longrightarrow> setThreadState t ''Waiting for work'' (s_reg s) = Ret r \<Longrightarrow>
    step H (Starts t) s (set_phase t (Some (Started loop)) (set_reg r s))"
| announce_dies: "alive s \<Longrightarrow> s_phase s t = Some (Registered loop) \<Longrightarrow>
    \<not> returns (setThreadState t ''Waiting for work'' (s_reg s)) \<Longrightarrow> step H (Starts t) s (s\<lparr>s_dead := True\<rparr>)"
| report: "alive s \<Longrightarrow> s_phase s t = Some (Started loop) \<Longrightarrow>
    step H (Starts t) s (set_phase t (Some (Notifying loop)) (s\<lparr>s_wakeup := TS_SUCCESS, s_mutex := None\<rparr>))"
| notify: "alive s \<Longrightarrow> s_phase s t = Some (Notifying loop) \<Longrightarrow>
    step H (Notifies t) s (set_phase t (Some (Checking loop)) (s\<lparr>s_main := notify_one (s_main s)\<rparr>))"
| check_stop: "alive s \<Longrightarrow> s_phase s t = Some (Checking loop) \<Longrightarrow> s_force s \<or> shouldShutdown t (s_reg s) = Ret True \<Longrightarrow>
    step H (Checks t) s (set_phase t (Some (Leaving loop)) s)"
| check_go: "alive s \<Longrightarrow> s_phase s t = Some (Checking loop) \<Longrightarrow> \<not> s_force s \<Longrightarrow> shouldShutdown t (s_reg s) = Ret False \<Longrightarrow>
    step H (Checks t) s (set_phase t (Some (Working loop)) s)"
| check_dies: "alive s \<Longrightarrow> s_phase s t = Some (Checking loop) \<Longrightarrow> \<not> s_force s \<Longrightarrow> \<not> returns (shouldShutdown t (s_reg s)) \<Longrightarrow>
    step H (Checks t) s (s\<lparr>s_dead := True\<rparr>)"
| set_state: "alive s \<Longrightarrow> s_phase s t = Some (Working loop) \<Longrightarrow> setThreadState t x (s_reg s) = Ret r \<Longrightarrow>
    step H (Works t) s (set_reg r s)"
| set_state_dies: "alive s \<Longrightarrow> s_phase s t = Some (Working loop) \<Longrightarrow> \<not> returns (setThreadState t x (s_reg s)) \<Longrightarrow>
    step H (Works t) s (s\<lparr>s_dead := True\<rparr>)"
| work: "alive s \<Longrightarrow> s_phase s t = Some (Working loop) \<Longrightarrow> sh_registry sh = s_reg s \<Longrightarrow>
    step H (Works t) s (set_phase t (Some (Working (loop\<lparr>m_client := client\<rparr>))) (s\<lparr>s_shared := sh\<rparr>))"
| run_ends: "alive s \<Longrightarrow> s_phase s t = Some (Working loop) \<Longrightarrow>
    step H (Ends_run t) s (set_phase t (Some (Checking loop)) s)"
| run_throws: "alive s \<Longrightarrow> s_phase s t = Some (Working loop) \<Longrightarrow>
    step H (Ends_run t) s (set_phase t (Some (Leaving loop)) s)"
| run_terminates: "alive s \<Longrightarrow> s_phase s t = Some (Working loop) \<Longrightarrow> step H (Ends_run t) s (s\<lparr>s_over := True\<rparr>)"
| leave: "alive s \<Longrightarrow> s_phase s t = Some (Leaving loop) \<Longrightarrow> delete_ThreadLoop t loop (s_shared s) = Ret sh \<Longrightarrow>
    step H (Leaves t) s (set_phase t None (s\<lparr>s_shared := sh\<rparr>))"
| leave_dies: "alive s \<Longrightarrow> s_phase s t = Some (Leaving loop) \<Longrightarrow> \<not> returns (delete_ThreadLoop t loop (s_shared s)) \<Longrightarrow>
    step H (Leaves t) s (s\<lparr>s_dead := True\<rparr>)"
| count: "alive s \<Longrightarrow> s_main s = Main_idle \<Longrightarrow> step H Main_acts s (set_reg (snd (poolCount p (s_reg s))) s)"
| shutdown: "alive s \<Longrightarrow> s_main s = Main_idle \<Longrightarrow> sendShutdown p n (s_reg s) = Ret (b, r) \<Longrightarrow>
    step H Main_acts s (set_reg r s)"
| shutdown_dies: "alive s \<Longrightarrow> s_main s = Main_idle \<Longrightarrow> \<not> returns (sendShutdown p n (s_reg s)) \<Longrightarrow>
    step H Main_acts s (s\<lparr>s_dead := True\<rparr>)"
| force: "alive s \<Longrightarrow> s_main s = Main_idle \<Longrightarrow> step H Main_acts s (s\<lparr>s_force := True\<rparr>)"
| finish: "alive s \<Longrightarrow> s_main s = Main_idle \<Longrightarrow> step H Main_acts s (s\<lparr>s_over := True\<rparr>)"

text \<open>An execution and the actions taken in it.\<close>

inductive exec :: "host \<Rightarrow> sys \<Rightarrow> action list \<Rightarrow> sys \<Rightarrow> bool" for H where
  exec_nil: "exec H s [] s"
| exec_snoc: "exec H s as s' \<Longrightarrow> step H a s' s'' \<Longrightarrow> exec H s (as @ [a]) s''"

definition reachable :: "host \<Rightarrow> sys \<Rightarrow> bool" where
  "reachable H s \<longleftrightarrow> (\<exists>as. exec H sys_init as s)"

lemma exec_append: "exec H s' bs s'' \<Longrightarrow> exec H s as s' \<Longrightarrow> exec H s (as @ bs) s''"
proof (induction rule: exec.induct)
  case (exec_snoc s' bs s'' a s3)
  from exec.exec_snoc [OF exec_snoc.IH [OF exec_snoc.prems] exec_snoc.hyps(2)] show ?case by simp
qed simp

lemma exec_Cons: "step H a s s' \<Longrightarrow> exec H s' as s'' \<Longrightarrow> exec H s (a # as) s''"
  using exec_append [of H s' as s'' s "[a]"] exec_snoc [OF exec_nil, of H a s s'] by simp

lemma reachable_exec: "reachable H s \<Longrightarrow> exec H s as s' \<Longrightarrow> reachable H s'"
  using exec_append [of H s as s' sys_init] by (auto simp: reachable_def)

lemma sys_sel [simp]:
  "s_phase (set_reg r s) = s_phase s" "s_main (set_reg r s) = s_main s" "s_mutex (set_reg r s) = s_mutex s"
  "s_wakeup (set_reg r s) = s_wakeup s" "s_force (set_reg r s) = s_force s" "s_dead (set_reg r s) = s_dead s"
  "s_over (set_reg r s) = s_over s" "s_reg (set_reg r s) = r"
  "s_phase (set_phase t ph s) = (s_phase s)(t := ph)" "s_main (set_phase t ph s) = s_main s" "s_mutex (set_phase t ph s) = s_mutex s"
  "s_wakeup (set_phase t ph s) = s_wakeup s" "s_force (set_phase t ph s) = s_force s" "s_dead (set_phase t ph s) = s_dead s"
  "s_over (set_phase t ph s) = s_over s" "s_shared (set_phase t ph s) = s_shared s"
  by (simp_all add: set_reg_def set_phase_def)

section \<open>Invariant\<close>

fun in_registry :: "phase option \<Rightarrow> string option" where
  "in_registry (Some (Registered l)) = Some (m_pool l)"
| "in_registry (Some (Started l)) = Some (m_pool l)"
| "in_registry (Some (Notifying l)) = Some (m_pool l)"
| "in_registry (Some (Checking l)) = Some (m_pool l)"
| "in_registry (Some (Working l)) = Some (m_pool l)"
| "in_registry (Some (Leaving l)) = Some (m_pool l)"
| "in_registry _ = None"

text \<open>How far the start of a thread still is from the call of \<^verbatim>\<open>notify_one\<close>; which phases hold the mutex.\<close>

fun start_rank :: "phase option \<Rightarrow> nat" where
  "start_rank (Some (Spawned a)) = 6"
| "start_rank (Some (Locked a)) = 5"
| "start_rank (Some (Built a c)) = 4"
| "start_rank (Some (Registered l)) = 3"
| "start_rank (Some (Started l)) = 2"
| "start_rank (Some (Notifying l)) = 1"
| "start_rank _ = 0"

definition starting :: "phase option \<Rightarrow> bool" where "starting ph \<longleftrightarrow> start_rank ph \<ge> 2"
definition holding :: "phase option \<Rightarrow> bool" where "holding ph \<longleftrightarrow> start_rank ph \<in> {2..5}"

fun main_target :: "main_phase \<Rightarrow> tid option" where
  "main_target (Main_testing t) = Some t"
| "main_target (Main_waiting t) = Some t"
| "main_target (Main_woken t) = Some t"
| "main_target _ = None"

fun main_holding :: "main_phase \<Rightarrow> bool" where
  "main_holding (Main_locked a) = True"
| "main_holding (Main_testing t) = True"
| "main_holding _ = False"

text \<open>
  The hand-over: only the thread the main thread waits for is being started, the mutex is held by whom the phases
  say, and a blocked main thread will be notified, since its thread has \<^verbatim>\<open>notify_one\<close> still before it.
\<close>

definition thread_ok :: "tid \<Rightarrow> phase option \<Rightarrow> main_phase \<Rightarrow> owner option \<Rightarrow> ThreadStartState \<Rightarrow> bool" where
  "thread_ok t ph m mutex wakeup \<longleftrightarrow>
     (starting ph \<longrightarrow> main_target m = Some t \<and> wakeup = TS_INIT) \<and>
     (mutex = Some (Worker_thread t) \<longleftrightarrow> holding ph) \<and>
     (main_target m = Some t \<longrightarrow> starting ph \<or> wakeup = TS_SUCCESS) \<and>
     (m = Main_waiting t \<longrightarrow> start_rank ph \<noteq> 0)"

definition main_ok :: "main_phase \<Rightarrow> owner option \<Rightarrow> ThreadStartState \<Rightarrow> bool" where
  "main_ok m mutex wakeup \<longleftrightarrow> (mutex = Some Main_thread \<longleftrightarrow> main_holding m) \<and>
     (case m of Main_locked a \<Rightarrow> wakeup = TS_INIT | _ \<Rightarrow> True)"

definition handover :: "(tid \<rightharpoonup> phase) \<Rightarrow> main_phase \<Rightarrow> owner option \<Rightarrow> ThreadStartState \<Rightarrow> bool" where
  "handover P m mutex wakeup \<longleftrightarrow> (\<forall>t. thread_ok t (P t) m mutex wakeup) \<and> main_ok m mutex wakeup"

definition table_ok :: "ThreadRegistry \<Rightarrow> (tid \<rightharpoonup> phase) \<Rightarrow> bool" where
  "table_ok r P \<longleftrightarrow> reg_inv r \<and> (\<forall>t. map_option td_pool (reg_view r t) = in_registry (P t))"

definition sys_inv :: "sys \<Rightarrow> bool" where
  "sys_inv s \<longleftrightarrow> \<not> s_dead s \<and> table_ok (s_reg s) (s_phase s) \<and> handover (s_phase s) (s_main s) (s_mutex s) (s_wakeup s)"

lemma rank_simps [simp]:
  "starting (Some (Spawned a))" "starting (Some (Locked a))" "starting (Some (Built a c))" "starting (Some (Registered l))"
  "starting (Some (Started l))" "\<not> starting (Some (Notifying l))" "\<not> starting (Some (Checking l))"
  "\<not> starting (Some (Working l))" "\<not> starting (Some (Leaving l))" "\<not> starting None"
  "\<not> holding (Some (Spawned a))" "holding (Some (Locked a))" "holding (Some (Built a c))" "holding (Some (Registered l))"
  "holding (Some (Started l))" "\<not> holding (Some (Notifying l))" "\<not> holding (Some (Checking l))"
  "\<not> holding (Some (Working l))" "\<not> holding (Some (Leaving l))" "\<not> holding None"
  by (simp_all add: starting_def holding_def)

lemma holding_starting: "holding ph \<Longrightarrow> starting ph"
  by (simp add: starting_def holding_def)

lemma sys_invD:
  assumes "sys_inv s"
  shows "\<not> s_dead s" and "reg_inv (s_reg s)" and "table_ok (s_reg s) (s_phase s)"
    and "handover (s_phase s) (s_main s) (s_mutex s) (s_wakeup s)"
    and "in_registry (s_phase s t) = None \<Longrightarrow> reg_view (s_reg s) t = None"
    and "in_registry (s_phase s t) = Some p \<Longrightarrow> \<exists>d. reg_view (s_reg s) t = Some d \<and> td_pool d = p"
proof -
  show "\<not> s_dead s" "reg_inv (s_reg s)" "table_ok (s_reg s) (s_phase s)" "handover (s_phase s) (s_main s) (s_mutex s) (s_wakeup s)"
    using assms by (simp_all add: sys_inv_def table_ok_def)
  have v: "map_option td_pool (reg_view (s_reg s) t) = in_registry (s_phase s t)" using assms by (simp add: sys_inv_def table_ok_def)
  show "reg_view (s_reg s) t = None" if "in_registry (s_phase s t) = None" using that v by simp
  show "\<exists>d. reg_view (s_reg s) t = Some d \<and> td_pool d = p" if "in_registry (s_phase s t) = Some p" using that v by auto
qed

lemma sys_inv_init: "sys_inv sys_init"
  by (simp add: sys_inv_def sys_init_def table_ok_def handover_def thread_ok_def main_ok_def new_watcher_def)

text \<open>Changes that the table of threads does not notice.\<close>

lemma table_ok_phase: "table_ok r P \<Longrightarrow> in_registry ph = in_registry (P t) \<Longrightarrow> table_ok r (P(t := ph))"
  by (simp add: table_ok_def)

lemma table_ok_reg:
  "table_ok r P \<Longrightarrow> reg_inv r' \<Longrightarrow> (\<And>t. map_option td_pool (reg_view r' t) = map_option td_pool (reg_view r t)) \<Longrightarrow> table_ok r' P"
  by (simp add: table_ok_def)

lemma table_ok_upd:
  "table_ok r P \<Longrightarrow> reg_inv r' \<Longrightarrow> reg_view r' = (reg_view r)(t := e) \<Longrightarrow> map_option td_pool e = in_registry ph \<Longrightarrow> table_ok r' (P(t := ph))"
  by (simp add: table_ok_def)

text \<open>A step of one worker, and one of the main thread: what has to be shown for each thread.\<close>

lemma handover_thread:
  assumes "handover P m mutex w" and "thread_ok t (P t) m mutex w \<Longrightarrow> main_ok m mutex w \<Longrightarrow> thread_ok t ph m' mutex' w' \<and> main_ok m' mutex' w'"
    and "\<And>u. u \<noteq> t \<Longrightarrow> thread_ok u (P u) m mutex w \<Longrightarrow> thread_ok t (P t) m mutex w \<Longrightarrow> main_ok m mutex w \<Longrightarrow> thread_ok u (P u) m' mutex' w'"
  shows "handover (P(t := ph)) m' mutex' w'"
  using assms by (simp add: handover_def)

lemma handover_main:
  assumes "handover P m mutex w" and "main_ok m mutex w \<Longrightarrow> main_ok m' mutex' w'"
    and "\<And>u. thread_ok u (P u) m mutex w \<Longrightarrow> main_ok m mutex w \<Longrightarrow> thread_ok u (P u) m' mutex' w'"
  shows "handover P m' mutex' w'"
  using assms by (simp add: handover_def)

lemma handoverD:
  assumes "handover P m mutex w"
  shows "thread_ok t (P t) m mutex w" and "main_ok m mutex w"
  using assms by (simp_all add: handover_def)

lemmas hand_defs = thread_ok_def main_ok_def

text \<open>In its loop a worker does not touch the hand-over; the other steps are its start, in order.\<close>

lemma handover_loop:
  assumes "handover P m mutex w" and "start_rank (P t) = 0" and "start_rank ph = 0"
  shows "handover (P(t := ph)) m mutex w"
  using assms(2,3) by (intro handover_thread [OF assms(1)]) (auto simp: hand_defs starting_def holding_def)

lemma handover_notify:
  assumes "handover P m mutex w" and "P t = Some (Notifying loop)"
  shows "handover (P(t \<mapsto> Checking loop)) (notify_one m) mutex w"
  using assms(2) by (intro handover_thread [OF assms(1)]; cases m) (auto simp: hand_defs notify_one_def)

lemma handover_advance:
  assumes "handover P m mutex w" and "holding (P t)" and "holding ph"
  shows "handover (P(t := ph)) m mutex w"
  using assms(2,3) holding_starting [OF assms(2)] holding_starting [OF assms(3)]
  by (intro handover_thread [OF assms(1)]) (auto simp: hand_defs starting_def)

lemma handover_report:
  assumes "handover P m mutex w" and "P t = Some (Started loop)"
  shows "handover (P(t \<mapsto> Notifying loop)) m None TS_SUCCESS"
  using assms(2) holding_starting by (intro handover_thread [OF assms(1)]; cases m) (auto simp: hand_defs)

lemma handover_create:
  assumes "handover P (Main_locked a) mutex w" and "P t = None"
  shows "handover (P(t \<mapsto> Spawned a)) (Main_testing t) mutex w"
  using assms(2) by (intro handover_thread [OF assms(1)]) (auto simp: hand_defs)

lemma handover_enter:
  assumes "handover P m None w" and "P t = Some (Spawned a)"
  shows "handover (P(t \<mapsto> Locked a)) m (Some (Worker_thread t)) w"
  using assms(2) by (intro handover_thread [OF assms(1)]; cases m) (auto simp: hand_defs)

text \<open>The steps of the main thread inside the start loop.\<close>

lemma handover_lock: "handover P Main_idle None w \<Longrightarrow> handover P (Main_locked a) (Some Main_thread) TS_INIT"
  by (erule handover_main) (auto simp: hand_defs)

lemma handover_wait: "handover P (Main_testing t) mutex TS_INIT \<Longrightarrow> handover P (Main_waiting t) None TS_INIT"
  by (erule handover_main) (auto simp: hand_defs starting_def)

lemma handover_done: "handover P (Main_testing t) mutex w \<Longrightarrow> w \<noteq> TS_INIT \<Longrightarrow> handover P Main_idle None w"
  by (erule handover_main) (auto simp: hand_defs)

lemma handover_woken: "handover P (Main_waiting t) mutex w \<Longrightarrow> handover P (Main_woken t) mutex w"
  by (erule handover_main) (auto simp: hand_defs)

lemma handover_relock: "handover P (Main_woken t) None w \<Longrightarrow> handover P (Main_testing t) (Some Main_thread) w"
  by (erule handover_main) (auto simp: hand_defs)

section \<open>Every step keeps the invariant\<close>

text \<open>The client's constructor and the work of a client leave the registry alone.\<close>

lemma build_registry:
  "new_GearmanClient G timeout metrics servers jobs uri sh = Ret (client, sh') \<Longrightarrow> sh_registry sh' = sh_registry sh"
  by (simp add: new_GearmanClient_Ret)

lemma delete_registry:
  assumes "reg_inv (sh_registry sh)" and "reg_view (sh_registry sh) t = Some d" and "td_pool d = m_pool loop"
  shows "\<exists>sh'. delete_ThreadLoop t loop sh = Ret sh' \<and> reg_inv (sh_registry sh') \<and>
    reg_view (sh_registry sh') = (reg_view (sh_registry sh))(t := None)"
proof -
  obtain r where "unregisterThread (m_pool loop) t (sh_registry sh) = Ret r" "reg_inv r" "reg_view r = (reg_view (sh_registry sh))(t := None)"
    using unregisterThread_ok [OF assms] by blast
  then show ?thesis by (simp add: delete_ThreadLoop_def delete_GearmanClient_def)
qed

lemma sys_inv_reg:
  assumes "sys_inv s" and "reg_inv r" and "\<And>t. map_option td_pool (reg_view r t) = map_option td_pool (reg_view (s_reg s) t)"
  shows "sys_inv (set_reg r s)"
  using assms(1) table_ok_reg [OF sys_invD(3) [OF assms(1)] assms(2,3)] by (simp add: sys_inv_def)

lemma sys_inv_loop:
  assumes "sys_inv s" and "in_registry ph = in_registry (s_phase s t)" and "start_rank (s_phase s t) = 0" and "start_rank ph = 0"
  shows "sys_inv (set_phase t ph s)"
  using assms(1) table_ok_phase [OF sys_invD(3) [OF assms(1)] assms(2)] handover_loop [OF sys_invD(4) [OF assms(1)] assms(3,4)]
  by (simp add: sys_inv_def)

lemma state_keeps_pools:
  assumes "sys_inv s" and "in_registry (s_phase s t) = Some p"
  shows "\<exists>r. setThreadState t x (s_reg s) = Ret r \<and> reg_inv r \<and>
    (\<forall>u. map_option td_pool (reg_view r u) = map_option td_pool (reg_view (s_reg s) u))"
proof -
  obtain d where d: "reg_view (s_reg s) t = Some d" using sys_invD(6) [OF assms] by blast
  from setThreadState_ok [OF sys_invD(2) [OF assms(1)] d, of x] d show ?thesis by auto
qed

lemma sys_inv_step_main:
  assumes "step H a s s'" and "sys_inv s" and "a \<in> {Main_acts, Main_done, Spurious}"
  shows "sys_inv s'"
  using assms(1)
proof (cases rule: step.cases)
  case (lock a)
  then show ?thesis using assms(2) handover_lock [of "s_phase s" "s_wakeup s"] by (simp add: sys_inv_def)
next
  case (create a t)
  then show ?thesis
    using assms(2) table_ok_phase [OF sys_invD(3) [OF assms(2)], of "Some (Spawned a)" t]
      handover_create [of "s_phase s" a "s_mutex s" "s_wakeup s" t] by (simp add: sys_inv_def)
next
  case (test_wait t)
  then show ?thesis using assms(2) handover_wait [of "s_phase s" t "s_mutex s"] by (simp add: sys_inv_def)
next
  case (test_done t)
  then show ?thesis using assms(2) handover_done [of "s_phase s" t "s_mutex s" "s_wakeup s"] by (simp add: sys_inv_def)
next
  case (spurious t)
  then show ?thesis using assms(2) handover_woken [of "s_phase s" t "s_mutex s" "s_wakeup s"] by (simp add: sys_inv_def)
next
  case (relock t)
  then show ?thesis using assms(2) handover_relock [of "s_phase s" t "s_wakeup s"] by (simp add: sys_inv_def)
next
  case (count p)
  then show ?thesis using sys_inv_reg [OF assms(2)] tt.pool_count_ok [OF sys_invD(2) [OF assms(2)], of p] by simp
next
  case (shutdown p n b r)
  then obtain vs where "reg_inv r" "reg_view r = mark_all vs (reg_view (s_reg s))"
    using tt.send_shutdown_ok [OF sys_invD(2) [OF assms(2)], of p n] by auto
  then show ?thesis
    using shutdown(2) by (auto intro!: sys_inv_reg [OF assms(2)] simp: mark_all_def option.map_comp comp_def)
next
  case (shutdown_dies p n)
  then show ?thesis using tt.send_shutdown_ok [OF sys_invD(2) [OF assms(2)], of p n] by auto
qed (use assms(2,3) in \<open>auto simp: sys_inv_def\<close>)

lemma sys_inv_step_start:
  assumes "step H (Starts t) s s'" and "sys_inv s"
  shows "sys_inv s'"
  using assms(1)
proof (cases rule: step.cases)
  case (enter a)
  then show ?thesis
    using assms(2) table_ok_phase [OF sys_invD(3) [OF assms(2)], of "Some (Locked a)" t] handover_enter [of "s_phase s" "s_main s" "s_wakeup s" t a]
    by (simp add: sys_inv_def)
next
  case (build a client sh)
  then show ?thesis
    using assms(2) table_ok_phase [OF sys_invD(3) [OF assms(2)], of "Some (Built a client)" t] build_registry [OF build(4)]
      handover_advance [OF sys_invD(4) [OF assms(2)], of t "Some (Built a client)"] by (simp add: sys_inv_def)
next
  case (register a client r)
  let ?loop = "\<lparr>m_pool = sa_pool a, m_client = client\<rparr>"
  have "reg_inv r \<and> reg_view r = (reg_view (s_reg s))(t \<mapsto> fresh_data (sa_pool a))"
    using registerThread_ok [OF sys_invD(2,5) [OF assms(2)], of t "sa_pool a"] register by auto
  then have "table_ok r ((s_phase s)(t \<mapsto> Registered ?loop))"
    by (intro table_ok_upd [OF sys_invD(3) [OF assms(2)]]) (auto simp: fresh_data_def)
  then show ?thesis
    using register assms(2) handover_advance [OF sys_invD(4) [OF assms(2)], of t "Some (Registered ?loop)"] by (simp add: sys_inv_def)
next
  case (register_dies a client)
  then show ?thesis using registerThread_ok [OF sys_invD(2,5) [OF assms(2)], of t "sa_pool a"] by auto
next
  case (announce loop r)
  then have "sys_inv (set_reg r s)"
    using state_keeps_pools [OF assms(2), of t "m_pool loop" "''Waiting for work''"] by (auto intro!: sys_inv_reg [OF assms(2)])
  then show ?thesis
    using announce table_ok_phase [of r "s_phase s" "Some (Started loop)" t] handover_advance [OF sys_invD(4) [OF assms(2)], of t "Some (Started loop)"]
    by (simp add: sys_inv_def)
next
  case (announce_dies loop)
  then show ?thesis using state_keeps_pools [OF assms(2), of t "m_pool loop" "''Waiting for work''"] by auto
next
  case (report loop)
  then show ?thesis
    using assms(2) table_ok_phase [OF sys_invD(3) [OF assms(2)], of "Some (Notifying loop)" t]
      handover_report [OF sys_invD(4) [OF assms(2)], of t loop] by (simp add: sys_inv_def)
qed (use assms(2) in \<open>auto simp: sys_inv_def\<close>)

lemma sys_inv_step_loop:
  assumes "step H a s s'" and "sys_inv s" and "a \<in> {Notifies t, Checks t, Works t, Ends_run t, Leaves t}"
  shows "sys_inv s'"
  using assms(1)
proof (cases rule: step.cases)
  case (notify t loop)
  then show ?thesis
    using assms(2) table_ok_phase [OF sys_invD(3) [OF assms(2)], of "Some (Checking loop)" t]
      handover_notify [OF sys_invD(4) [OF assms(2)], of t loop] by (simp add: sys_inv_def)
next
  case (check_dies t loop)
  then obtain d where "reg_view (s_reg s) t = Some d" using sys_invD(6) [OF assms(2), of t "m_pool loop"] by auto
  then show ?thesis using check_dies(6) by (simp add: shouldShutdown_view)
next
  case (set_state t loop x r)
  then show ?thesis
    using state_keeps_pools [OF assms(2), of t "m_pool loop" x] by (auto intro!: sys_inv_reg [OF assms(2)])
next
  case (set_state_dies t loop x)
  then show ?thesis using state_keeps_pools [OF assms(2), of t "m_pool loop" x] by auto
next
  case (work t loop sh client)
  then have "sys_inv (set_phase t (Some (Working (loop\<lparr>m_client := client\<rparr>))) s)" by (intro sys_inv_loop [OF assms(2)]) simp_all
  then show ?thesis using work by (simp add: sys_inv_def)
next
  case (leave t loop sh)
  then obtain d where "reg_view (s_reg s) t = Some d" "td_pool d = m_pool loop" using sys_invD(6) [OF assms(2), of t "m_pool loop"] by auto
  with leave have "reg_inv (sh_registry sh)" "reg_view (sh_registry sh) = (reg_view (s_reg s))(t := None)"
    using delete_registry [OF sys_invD(2) [OF assms(2)], of t d loop] by auto
  then have "table_ok (sh_registry sh) ((s_phase s)(t := None))"
    by (intro table_ok_upd [OF sys_invD(3) [OF assms(2)]]) auto
  then show ?thesis
    using leave assms(2) handover_loop [OF sys_invD(4) [OF assms(2)], of t None] by (simp add: sys_inv_def)
next
  case (leave_dies t loop)
  then obtain d where "reg_view (s_reg s) t = Some d" "td_pool d = m_pool loop" using sys_invD(6) [OF assms(2), of t "m_pool loop"] by auto
  with leave_dies show ?thesis using delete_registry [OF sys_invD(2) [OF assms(2)], of t d loop] by auto
next
  case (run_terminates t loop)
  then show ?thesis using assms(2) by (simp add: sys_inv_def)
qed (use assms(3) in \<open>simp_all add: sys_inv_loop [OF assms(2)]\<close>)

lemma sys_inv_step: "step H a s s' \<Longrightarrow> sys_inv s \<Longrightarrow> sys_inv s'"
  using sys_inv_step_main [of H a s s'] sys_inv_step_start [of H _ s s'] sys_inv_step_loop [of H a s s'] by (cases a) auto

lemma sys_inv_exec: "exec H s as s' \<Longrightarrow> sys_inv s \<Longrightarrow> sys_inv s'"
  by (induction rule: exec.induct) (auto intro: sys_inv_step)

lemma reachable_inv: "reachable H s \<Longrightarrow> sys_inv s"
  using sys_inv_exec sys_inv_init by (auto simp: reachable_def)

section \<open>The hand-over completes\<close>

text \<open>
  While the main thread waits for thread \<open>t\<close>, the steps of the two that belong to the hand-over lower the rank below; a
  spurious wake-up, or the notification of a thread started before, costs the main thread two steps (it takes the
  mutex, tests, and waits again); every other step leaves the rank alone.
\<close>

fun main_rank :: "main_phase \<Rightarrow> nat" where
  "main_rank (Main_woken t) = 3"
| "main_rank (Main_testing t) = 2"
| "main_rank (Main_waiting t) = 1"
| "main_rank _ = 0"

definition hand_rank :: "tid \<Rightarrow> sys \<Rightarrow> nat" where
  "hand_rank t s = 4 * start_rank (s_phase s t) + main_rank (s_main s)"

definition own_step :: "tid \<Rightarrow> action \<Rightarrow> bool" where
  "own_step t a \<longleftrightarrow> a \<in> {Main_acts, Starts t, Notifies t}"

fun stray_step :: "tid \<Rightarrow> action \<Rightarrow> bool" where
  "stray_step t Spurious = True"
| "stray_step t (Notifies u) = (u \<noteq> t)"
| "stray_step t _ = False"

lemma hand_rank_bound: "hand_rank t s \<le> 27"
proof -
  have "start_rank (s_phase s t) \<le> 6" by (cases "s_phase s t" rule: start_rank.cases) simp_all
  moreover have "main_rank (s_main s) \<le> 3" by (cases "s_main s") simp_all
  ultimately show ?thesis by (simp add: hand_rank_def)
qed

lemma starts_is_target:
  assumes "sys_inv s" and "step H (Starts u) s s'"
  shows "main_target (s_main s) = Some u"
proof -
  have "starting (s_phase s u)" using assms(2) by (cases rule: step.cases) simp_all
  then show ?thesis using handoverD(1) [OF sys_invD(4) [OF assms(1)], of u] by (simp add: thread_ok_def)
qed

lemma hand_step_main:
  assumes "step H a s s'" and "main_target (s_main s) = Some t" and "a \<in> {Main_acts, Spurious}"
  shows "main_target (s_main s') = Some t \<and> (if a = Main_acts then hand_rank t s' < hand_rank t s else hand_rank t s' \<le> hand_rank t s + 2)"
  using assms by (cases rule: step.cases) (auto simp: hand_rank_def)

lemma hand_step_start:
  assumes "step H (Starts t) s s'" and "main_target (s_main s) = Some t" and "sys_inv s'"
  shows "main_target (s_main s') = Some t \<and> (s_over s' \<or> hand_rank t s' < hand_rank t s)"
  using assms by (cases rule: step.cases) (auto simp: hand_rank_def sys_inv_def)

lemma hand_step_notify:
  assumes "step H (Notifies u) s s'" and "main_target (s_main s) = Some t"
  shows "main_target (s_main s') = Some t \<and> (if u = t then hand_rank t s' < hand_rank t s else hand_rank t s' \<le> hand_rank t s + 2)"
  using assms by (cases rule: step.cases; cases "s_main s") (auto simp: hand_rank_def notify_one_def)

lemma hand_step_loop:
  assumes "step H a s s'" and "a \<in> {Checks u, Works u, Ends_run u, Leaves u}"
  shows "s_main s' = s_main s \<and> hand_rank t s' = hand_rank t s"
  using assms by (cases rule: step.cases) (auto simp: hand_rank_def)

lemma hand_step:
  assumes "sys_inv s" and "main_target (s_main s) = Some t" and "step H a s s'" and "a \<noteq> Main_done"
  shows "main_target (s_main s') = Some t \<and> (s_over s' \<or>
    hand_rank t s' + (if own_step t a then 1 else 0) \<le> hand_rank t s + (if stray_step t a then 2 else 0))"
proof (cases a)
  case (Starts u)
  then have "u = t" using starts_is_target [OF assms(1)] assms(2,3) by simp
  then show ?thesis using hand_step_start [of H t s s'] sys_inv_step [OF assms(3,1)] assms(2,3) Starts by (auto simp: own_step_def)
next
  case (Notifies u)
  then show ?thesis using hand_step_notify [of H u s s' t] assms(2,3) by (auto simp: own_step_def split: if_splits)
qed (use assms hand_step_main [OF assms(3,2)] hand_step_loop [OF assms(3)] in \<open>auto simp: own_step_def split: if_splits\<close>)

lemma hand_exec:
  assumes "exec H s as s'" and "sys_inv s" and "main_target (s_main s) = Some t" and "Main_done \<notin> set as"
  shows "main_target (s_main s') = Some t \<and> (s_over s' \<or>
    hand_rank t s' + length (filter (own_step t) as) \<le> hand_rank t s + 2 * length (filter (stray_step t) as))"
  using assms
proof (induction rule: exec.induct)
  case (exec_snoc s as s' a s'')
  have "\<not> s_over s'" using exec_snoc.hyps(2) by (cases rule: step.cases) (simp_all add: alive_def)
  then show ?case
    using exec_snoc hand_step [OF sys_inv_exec [OF exec_snoc.hyps(1) exec_snoc.prems(1)] _ exec_snoc.hyps(2), of t] by auto
qed simp

text \<open>One of the two can always go on, so nobody waits for ever: no mutex is kept, no notification is lost.\<close>

lemma start_enabled:
  assumes "sys_inv s" and "alive s" and "starting (s_phase s t)" and "holding (s_phase s t) \<or> s_mutex s = None"
  shows "\<exists>s'. step H (Starts t) s s'"
proof -
  obtain ph where ph: "s_phase s t = Some ph" using assms(3) by (cases "s_phase s t") simp_all
  show ?thesis
  proof (cases ph)
    case (Spawned a)
    then show ?thesis using assms(2,4) ph step.enter [of s t a] by auto
  next
    case (Locked a)
    then show ?thesis
      using assms(2) ph step.build [of s t a H] step.build_fails [of s t a H] by (auto simp: returns_iff)
  next
    case (Built a client)
    then show ?thesis
      using assms(2) ph step.register [of s t a client] step.register_dies [of s t a client] unfolding returns_iff by blast
  next
    case (Registered loop)
    then show ?thesis
      using assms(2) ph step.announce [of s t loop] step.announce_dies [of s t loop] unfolding returns_iff by blast
  next
    case (Started loop)
    then show ?thesis using assms(2) ph step.report [of s t loop] by blast
  qed (use assms(3) ph in simp_all)
qed

lemma hand_enabled:
  assumes "sys_inv s" and "alive s" and "main_target (s_main s) = Some t"
  shows "\<exists>a s'. (own_step t a \<or> a = Main_done) \<and> step H a s s'"
proof -
  note ok = handoverD [OF sys_invD(4) [OF assms(1)]]
  have starts: ?thesis if "starting (s_phase s t)" "holding (s_phase s t) \<or> s_mutex s = None"
    using start_enabled [OF assms(1,2) that] by (auto simp: own_step_def)
  have free: "s_mutex s = None \<or> holding (s_phase s t)" if nh: "\<not> main_holding (s_main s)"
  proof (cases "s_mutex s")
    case (Some x)
    then obtain u where u: "x = Worker_thread u" using nh ok(2) by (cases x) (auto simp: main_ok_def)
    then have "holding (s_phase s u)" using ok(1) [of u] Some by (simp add: thread_ok_def)
    moreover then have "u = t" using ok(1) [of u] holding_starting assms(3) by (auto simp: thread_ok_def)
    ultimately show ?thesis by simp
  qed simp
  show ?thesis
  proof (cases "s_main s")
    case (Main_testing u)
    then show ?thesis using assms(2) step.test_wait [of s u] step.test_done [of s u] by (cases "s_wakeup s = TS_INIT") (auto simp: own_step_def)
  next
    case (Main_woken u)
    then show ?thesis using free starts holding_starting step.relock [OF assms(2), of u] by (auto simp: own_step_def)
  next
    case (Main_waiting u)
    then have "u = t" "start_rank (s_phase s t) \<noteq> 0" using ok(1) [of t] assms(3) by (auto simp: thread_ok_def)
    then consider "starting (s_phase s t)" | loop where "s_phase s t = Some (Notifying loop)"
      by (cases "s_phase s t" rule: start_rank.cases) auto
    then show ?thesis using free starts Main_waiting step.notify [OF assms(2), of t] by cases (auto simp: own_step_def)
  qed (use assms(3) in simp_all)
qed

text \<open>The main thread goes on only when the new thread is registered and has reported its start.\<close>

lemma hand_done:
  assumes "sys_inv s" and "main_target (s_main s) = Some t" and "step H Main_done s s'"
  shows "s_wakeup s = TS_SUCCESS \<and> \<not> starting (s_phase s t) \<and> s_main s' = Main_idle \<and> s_mutex s' = None"
  using assms(3,2) handoverD(1) [OF sys_invD(4) [OF assms(1)], of t] by (cases rule: step.cases) (auto simp: thread_ok_def)

text \<open>
  Without interference, the steps of the new thread under the mutex compute \<open>delegate_start\<close>, the function the
  watcher's start loop is modelled with.
\<close>

lemma start_steps_delegate:
  assumes "alive s" and "s_phase s t = Some (Locked a)"
    and "delegate_start H t (sa_pool a) (sa_servers a) (sa_jobs a) (sa_uri a) (s_shared s) = Ret (loop, sh, wakeup)"
  shows "\<exists>s'. exec H s [Starts t, Starts t, Starts t, Starts t] s' \<and> s_shared s' = sh \<and> s_wakeup s' = wakeup \<and> s_mutex s' = None \<and>
    s_phase s' = (s_phase s)(t \<mapsto> Notifying loop) \<and> s_main s' = s_main s \<and> alive s'"
proof -
  obtain client sh1 where c: "new_GearmanClient (h_gearman H) (h_response_timeout H) (wrap (sa_pool a)) (sa_servers a) (sa_jobs a) (sa_uri a)
      (s_shared s) = Ret (client, sh1)" and l: "new_ThreadLoop t (sa_pool a) client sh1 = Ret (loop, sh)" "wakeup = TS_SUCCESS"
    using assms(3) by (auto simp: delegate_start_def cxx_simps)
  obtain r1 r2 where r: "registerThread (sa_pool a) t (sh_registry sh1) = Ret r1" "setThreadState t ''Waiting for work'' r1 = Ret r2"
      and sh: "sh = sh1\<lparr>sh_registry := r2\<rparr>" "loop = \<lparr>m_pool = sa_pool a, m_client = client\<rparr>"
    using l(1) by (auto simp: new_ThreadLoop_def cxx_simps)
  let ?s1 = "set_phase t (Some (Built a client)) (s\<lparr>s_shared := sh1\<rparr>)"
  let ?s2 = "set_phase t (Some (Registered loop)) (set_reg r1 ?s1)"
  let ?s3 = "set_phase t (Some (Started loop)) (set_reg r2 ?s2)"
  let ?s4 = "set_phase t (Some (Notifying loop)) (?s3\<lparr>s_wakeup := TS_SUCCESS, s_mutex := None\<rparr>)"
  have "step H (Starts t) s ?s1" by (rule step.build [OF assms(1,2) c])
  moreover have "step H (Starts t) ?s1 ?s2" unfolding sh(2) by (rule step.register) (use assms(1) r in \<open>simp_all add: alive_def\<close>)
  moreover have "step H (Starts t) ?s2 ?s3" by (rule step.announce) (use assms(1) r in \<open>simp_all add: alive_def\<close>)
  moreover have "step H (Starts t) ?s3 ?s4" by (rule step.report) (use assms(1) in \<open>simp_all add: alive_def\<close>)
  ultimately have "exec H s [Starts t, Starts t, Starts t, Starts t] ?s4" by (meson exec_Cons exec_nil)
  then show ?thesis using assms(1) by (intro exI [of _ ?s4]) (simp add: sh(1) l(2) set_reg_def set_phase_def alive_def)
qed

section \<open>A worker that was told leaves\<close>

definition told :: "tid \<Rightarrow> sys \<Rightarrow> bool" where
  "told t s \<longleftrightarrow> s_force s \<or> shouldShutdown t (s_reg s) = Ret True"

text \<open>The pool of a worker inside its loop, and how many calls of \<^verbatim>\<open>m_client->run()\<close> it is in.\<close>

fun in_loop :: "phase option \<Rightarrow> string option" where
  "in_loop (Some (Checking l)) = Some (m_pool l)"
| "in_loop (Some (Working l)) = Some (m_pool l)"
| "in_loop (Some (Leaving l)) = Some (m_pool l)"
| "in_loop _ = None"

fun runs_left :: "phase option \<Rightarrow> nat" where
  "runs_left (Some (Working l)) = 1"
| "runs_left _ = 0"

fun is_leaving :: "phase option \<Rightarrow> bool" where
  "is_leaving (Some (Leaving l)) = True"
| "is_leaving _ = False"

lemma state_rely:
  assumes "sys_inv s" and "in_registry (s_phase s u) = Some p" and "setThreadState u x (s_reg s) = Ret r"
  shows "rely t (s_reg s) r"
proof -
  obtain d where d: "reg_view (s_reg s) u = Some d" using sys_invD(6) [OF assms(1,2)] by blast
  from setThreadState_ok [OF sys_invD(2) [OF assms(1)] d, of x] assms(3) d show ?thesis by (auto simp: rely_def)
qed

lemma step_rely:
  assumes "step H a s s'" and "sys_inv s" and "a \<noteq> Leaves t"
  shows "rely t (s_reg s) (s_reg s')"
proof -
  note inv = sys_invD(2) [OF sys_inv_step [OF assms(1,2)]]
  have same: ?thesis if "reg_view (s_reg s') = reg_view (s_reg s)" using that inv by (simp add: rely_def)
  show ?thesis
    using assms(1)
  proof (cases rule: step.cases)
    case (build u b client sh)
    then show ?thesis using build_registry [OF build(5)] by (intro same) simp
  next
    case (register u b client r)
    then show ?thesis
      using registerThread_ok [OF sys_invD(2,5) [OF assms(2)], of u "sa_pool b"] sys_invD(5) [OF assms(2), of u] inv by (auto simp: rely_def)
  next
    case (announce u loop r)
    then show ?thesis using state_rely [OF assms(2), of u "m_pool loop" _ r t] by simp
  next
    case (set_state u loop x r)
    then show ?thesis using state_rely [OF assms(2), of u "m_pool loop" _ r t] by simp
  next
    case (leave u loop sh)
    then obtain d where "reg_view (s_reg s) u = Some d" "td_pool d = m_pool loop" using sys_invD(6) [OF assms(2), of u "m_pool loop"] by auto
    then show ?thesis using leave assms(3) delete_registry [OF sys_invD(2) [OF assms(2)], of u d loop] inv by (auto simp: rely_def)
  next
    case (count p)
    then show ?thesis using tt.pool_count_ok [OF sys_invD(2) [OF assms(2)], of p] by (intro same) simp
  next
    case (shutdown p n b r)
    then obtain vs where "reg_view r = mark_all vs (reg_view (s_reg s))"
      using tt.send_shutdown_ok [OF sys_invD(2) [OF assms(2)], of p n] by auto
    then show ?thesis using shutdown inv by (auto simp: rely_def mark_all_def)
  qed (use same in simp_all)
qed

lemma told_step:
  assumes "step H a s s'" and "sys_inv s" and "a \<noteq> Leaves t" and "told t s"
  shows "told t s'"
proof -
  have "s_force s'" if "s_force s" using assms(1) that by (cases rule: step.cases) simp_all
  moreover have "shouldShutdown t (s_reg s') = Ret True" if "shouldShutdown t (s_reg s) = Ret True"
    using step_rely [OF assms(1-3)] that by (auto simp: rely_def shouldShutdown_view split: option.splits)
  ultimately show ?thesis using assms(4) by (auto simp: told_def)
qed

text \<open>Its own check ends the loop of a told worker, and nothing but its own steps moves a worker.\<close>

lemma told_loop_step:
  assumes "step H a s s'" and "sys_inv s'" and "a \<noteq> Leaves t" and "told t s" and "in_loop (s_phase s t) = Some p"
  shows "in_loop (s_phase s' t) = Some p \<and> (is_leaving (s_phase s t) \<or> a = Checks t \<longrightarrow> is_leaving (s_phase s' t)) \<and>
    (s_over s' \<or> runs_left (s_phase s' t) + (if a = Ends_run t then 1 else 0) \<le> runs_left (s_phase s t))"
  using assms(1)
proof (cases rule: step.cases)
  case (check_dies u loop)
  then show ?thesis using assms(2) by (simp add: sys_inv_def)
next
  case (check_go u loop)
  then show ?thesis using assms(4,5) by (auto simp: told_def)
qed (use assms(2-5) in \<open>auto simp: sys_inv_def\<close>)

lemma told_exec:
  assumes "exec H s as s'" and "sys_inv s" and "told t s" and "in_loop (s_phase s t) = Some p" and "Leaves t \<notin> set as"
  shows "told t s' \<and> in_loop (s_phase s' t) = Some p \<and>
    (is_leaving (s_phase s t) \<or> Checks t \<in> set as \<longrightarrow> is_leaving (s_phase s' t)) \<and>
    (s_over s' \<or> runs_left (s_phase s' t) + length (filter ((=) (Ends_run t)) as) \<le> runs_left (s_phase s t))"
  using assms
proof (induction rule: exec.induct)
  case (exec_snoc s as s' a s'')
  have "\<not> s_over s'" using exec_snoc.hyps(2) by (cases rule: step.cases) (simp_all add: alive_def)
  moreover have inv: "sys_inv s'" using sys_inv_exec exec_snoc by blast
  ultimately show ?case
    using exec_snoc told_step [OF exec_snoc.hyps(2) inv, of t] told_loop_step [OF exec_snoc.hyps(2) sys_inv_step [OF exec_snoc.hyps(2) inv], of t p]
    by auto
qed simp

lemma told_check_enabled:
  assumes "alive s" and "told t s" and "s_phase s t = Some (Checking loop)"
  shows "step H (Checks t) s (set_phase t (Some (Leaving loop)) s)"
  using assms by (intro step.check_stop) (auto simp: told_def)

lemma leave_enabled:
  assumes "sys_inv s" and "alive s" and "s_phase s t = Some (Leaving loop)"
  shows "\<exists>s'. step H (Leaves t) s s' \<and> s_phase s' t = None \<and> reg_view (s_reg s') t = None"
proof -
  obtain d where "reg_view (s_reg s) t = Some d" "td_pool d = m_pool loop"
    using sys_invD(6) [OF assms(1), of t "m_pool loop"] assms(3) by auto
  then obtain sh where sh: "delete_ThreadLoop t loop (s_shared s) = Ret sh" "reg_view (sh_registry sh) = (reg_view (s_reg s))(t := None)"
    using delete_registry [OF sys_invD(2) [OF assms(1)], of t d loop] by auto
  show ?thesis using step.leave [OF assms(2,3) sh(1), of H] sh(2) by (intro exI conjI) auto
qed

end
