(* ===== verification/Pidfile.thy ===== *)
theory Pidfile
  imports Prelude
begin

text \<open>
  \<^verbatim>\<open>datadifferential::util::Pidfile\<close> (\<^verbatim>\<open>src/pidfile.h\<close>, \<^verbatim>\<open>src/pidfile.cpp\<close>): the file that holds
  the daemon's process number. The file system is a map from paths to contents; which system
  calls succeed is the record \<open>fs_calls\<close>. Messages written to standard output are not modelled.
\<close>

section \<open>Model\<close>

text \<open>
  \<open>fc_access\<close>: the path can be searched; \<open>fc_unlink\<close>, \<open>fc_open\<close>: the call is permitted;
  \<open>fc_write\<close>: how many bytes \<^verbatim>\<open>write\<close> accepts (\<open>None\<close>: it fails); \<open>fc_strerror\<close>: the text for \<^verbatim>\<open>errno\<close>.
\<close>

record fs_calls =
  fc_access :: "string \<Rightarrow> bool"
  fc_unlink :: "string \<Rightarrow> bool"
  fc_open :: "string \<Rightarrow> bool"
  fc_write :: "string \<Rightarrow> nat option"
  fc_close :: bool
  fc_strerror :: string

text \<open>
  The files, the global buffer \<^verbatim>\<open>pid_file\<close> (up to its first NUL), and whether \<^verbatim>\<open>remove_pidfile\<close> is
  registered with \<^verbatim>\<open>atexit\<close>.
\<close>

record fs_state =
  fs_files :: "string \<rightharpoonup> string"
  fs_pid_file :: string
  fs_atexit :: bool

record Pidfile =
  pf_filename :: string
  pf_error_message :: string

definition sys_access :: "fs_calls \<Rightarrow> string \<Rightarrow> fs_state \<Rightarrow> bool" where
  "sys_access E path fs \<longleftrightarrow> fc_access E path \<and> fs_files fs path \<noteq> None"

definition sys_unlink :: "fs_calls \<Rightarrow> string \<Rightarrow> fs_state \<Rightarrow> bool \<times> fs_state" where
  "sys_unlink E path fs =
     (if fc_unlink E path \<and> fs_files fs path \<noteq> None then (True, fs\<lparr>fs_files := (fs_files fs)(path := None)\<rparr>)
      else (False, fs))"

definition remove_pidfile :: "fs_calls \<Rightarrow> fs_state \<Rightarrow> fs_state" where
  "remove_pidfile E fs =
     (if fs_pid_file fs \<noteq> [] then (snd (sys_unlink E (fs_pid_file fs) fs))\<lparr>fs_pid_file := []\<rparr> else fs)"

definition new_Pidfile :: "string \<Rightarrow> Pidfile" where
  "new_Pidfile arg = \<lparr>pf_filename = arg, pf_error_message = []\<rparr>"

definition delete_Pidfile :: "fs_calls \<Rightarrow> Pidfile \<Rightarrow> fs_state \<Rightarrow> fs_state" where
  "delete_Pidfile E p fs =
     (let path = c_str (pf_filename p);
          fs1 = (if pf_filename p \<noteq> [] \<and> sys_access E path fs then snd (sys_unlink E path fs) else fs)
      in fs1\<lparr>fs_pid_file := []\<rparr>)"

definition pid_text :: "nat \<Rightarrow> string" where
  "pid_text pid = to_string_nat pid @ [CHR 0x0A]"

definition pidfile_error :: "fs_calls \<Rightarrow> string \<Rightarrow> Pidfile \<Rightarrow> Pidfile" where
  "pidfile_error E msg p = p\<lparr>pf_error_message := msg @ pf_filename p @ ''('' @ fc_strerror E @ '')''\<rparr>"

text \<open>The buffer \<^verbatim>\<open>pid_file\<close> has 4096 bytes, so \<^verbatim>\<open>snprintf\<close> keeps at most 4095 of the name.\<close>

definition pid_file_buffer :: nat where "pid_file_buffer = 4096"

definition create :: "fs_calls \<Rightarrow> nat \<Rightarrow> Pidfile \<Rightarrow> fs_state \<Rightarrow> bool \<times> Pidfile \<times> fs_state" where
  "create E pid p fs =
     (if pf_filename p = [] then (True, p, fs)
      else
        let path = c_str (pf_filename p);
            (removed, fs1) = (if sys_access E path fs then sys_unlink E path fs else (True, fs))
        in if \<not> removed then (False, pidfile_error E ''Unable to remove exisiting file:'' p, fs1)
           else if \<not> fc_open E path then (False, pidfile_error E ''Could not open pid file for writing: '' p, fs1)
           else
             let text = pid_text pid;
                 written = fc_write E text;
                 fs2 = fs1\<lparr>fs_files := (fs_files fs1)(path \<mapsto> take (case written of None \<Rightarrow> 0 | Some n \<Rightarrow> n) text)\<rparr>
             in if written \<noteq> Some (length text) then (False, pidfile_error E ''Could not write pid to file: '' p, fs2)
                else if \<not> fc_close E then
                  (False, p\<lparr>pf_error_message := pf_error_message p @
                     ''Could not close() file after writing pid to it: '' @ pf_filename p\<rparr>, fs2)
                else (True, p, fs2\<lparr>fs_pid_file := take (pid_file_buffer - 1) path, fs_atexit := True\<rparr>))"

section \<open>Properties\<close>

lemma create_keeps_name: "create E pid p fs = (ok, p', fs') \<Longrightarrow> pf_filename p' = pf_filename p"
  by (auto simp: create_def pidfile_error_def Let_def split: if_splits prod.splits)

lemma create_success:
  assumes "create E pid p fs = (True, p', fs')" and "pf_filename p \<noteq> []"
  shows "fs_files fs' = (fs_files fs)(c_str (pf_filename p) \<mapsto> pid_text pid)"
    and "fs_pid_file fs' = take (pid_file_buffer - 1) (c_str (pf_filename p))" and "p' = p"
  using assms
  by (auto simp: create_def sys_unlink_def Let_def split: if_splits prod.splits)

lemma create_others:
  assumes "create E pid p fs = (ok, p', fs')" and "q \<noteq> c_str (pf_filename p)"
  shows "fs_files fs' q = fs_files fs q"
  using assms
  by (auto simp: create_def sys_unlink_def Let_def split: if_splits prod.splits)

lemma delete_removes:
  assumes "fc_access E (c_str (pf_filename p))" and "fc_unlink E (c_str (pf_filename p))" and "pf_filename p \<noteq> []"
  shows "fs_files (delete_Pidfile E p fs) = (fs_files fs)(c_str (pf_filename p) := None)"
    and "remove_pidfile E (delete_Pidfile E p fs) = delete_Pidfile E p fs"
  using assms by (auto simp: delete_Pidfile_def sys_access_def sys_unlink_def remove_pidfile_def Let_def fun_eq_iff)

text \<open>
  Success or not: once the object is destroyed no pid file is left, and the \<^verbatim>\<open>atexit\<close> handler finds
  nothing more to remove.
\<close>

lemma create_delete:
  assumes "fc_access E (c_str (pf_filename p))" and "fc_unlink E (c_str (pf_filename p))" and "pf_filename p \<noteq> []"
    and "create E pid p fs = (ok, p', fs')"
  shows "fs_files (remove_pidfile E (delete_Pidfile E p' fs')) = (fs_files fs)(c_str (pf_filename p) := None)"
proof -
  have n: "pf_filename p' = pf_filename p" using assms(4) by (rule create_keeps_name)
  have "fs_files (delete_Pidfile E p' fs') = (fs_files fs')(c_str (pf_filename p) := None)"
    using delete_removes(1) [of E p' fs'] assms(1-3) n by simp
  moreover have "(fs_files fs')(c_str (pf_filename p) := None) = (fs_files fs)(c_str (pf_filename p) := None)"
    using create_others [OF assms(4)] by (auto simp: fun_eq_iff)
  ultimately show ?thesis using delete_removes(2) [of E p' fs'] assms(1-3) n by simp
qed

end
