(* ===== verification/Daemon_Main.thy ===== *)
theory Daemon_Main
  imports Main_Loop Pidfile
begin

text \<open>
  \<^verbatim>\<open>src/main.cpp\<close>: changing the user, detaching from the terminal, the durations derived from the
  command line, and \<^verbatim>\<open>main\<close> itself. What the operating system and the option parser
  (\<^verbatim>\<open>boost::program_options\<close>) answer are arguments.
\<close>

section \<open>Durations\<close>

definition compute_durations :: "u32 \<Rightarrow> durations" where
  "compute_durations GEARMAND_RESPONSE_TIMEOUT =
     (let hard = GEARMAND_RESPONSE_TIMEOUT * 2 in
      \<lparr>LOOP_SLEEP_DURATION = GEARMAND_RESPONSE_TIMEOUT div 2,
       HARD_SHUTDOWN_WAIT_DURATION = hard,
       GRACEFUL_SHUTDOWN_WAIT_DURATION = hard * 2\<rparr>)"

section \<open>switch_user and do_daemon\<close>

record passwd =
  pw_uid :: nat
  pw_gid :: nat

record credentials =
  cr_uid :: nat
  cr_euid :: nat
  cr_gid :: nat

record user_calls =
  uc_getpwnam :: "string \<Rightarrow> passwd option"
  uc_setgid :: "nat \<Rightarrow> bool"
  uc_setuid :: "nat \<Rightarrow> bool"

text \<open>Called by root, \<^verbatim>\<open>setuid\<close> sets the real and the effective user.\<close>

definition switch_user :: "user_calls \<Rightarrow> string \<Rightarrow> credentials \<Rightarrow> bool \<times> credentials" where
  "switch_user U username cr =
     (if cr_uid cr = 0 \<or> cr_euid cr = 0 then
        (case uc_getpwnam U (c_str username) of
           None \<Rightarrow> (False, cr)
         | Some pw \<Rightarrow>
             if \<not> uc_setgid U (pw_gid pw) then (False, cr)
             else
               let cr1 = cr\<lparr>cr_gid := pw_gid pw\<rparr> in
               if \<not> uc_setuid U (pw_uid pw) then (False, cr1)
               else (True, cr1\<lparr>cr_uid := pw_uid pw, cr_euid := pw_uid pw\<rparr>))
      else (False, cr))"

text \<open>\<^verbatim>\<open>fork\<close> returns -1, 0 in the child, or the child's number in the parent, which exits.\<close>

datatype daemon_result = Daemon_returns bool | Daemon_exits int

definition do_daemon :: "int \<Rightarrow> bool \<Rightarrow> bool \<Rightarrow> daemon_result" where
  "do_daemon child setsid_ok chdir_ok =
     (if child = -1 then Daemon_returns False
      else if child \<noteq> 0 then Daemon_exits 0
      else if \<not> setsid_ok then Daemon_returns False
      else if \<not> chdir_ok then Daemon_returns False
      else Daemon_returns True)"

section \<open>main\<close>

record options =
  opt_user :: string
  opt_pid_file :: string
  opt_daemonize :: bool
  opt_jobsconfig :: string
  opt_logconfig :: string
  opt_max_running_time :: u32
  opt_loop_timeout :: u32

text \<open>What parsing the command line ends in: an exception, an early exit, or the options.\<close>

datatype parsed_options = Options_throw | Options_version | Options_help | Options options

record system =
  sy_user :: user_calls
  sy_fork :: int
  sy_setsid :: bool
  sy_chdir :: bool
  sy_pid :: nat
  sy_files :: fs_calls
  sy_log_config :: "string \<Rightarrow> bool"
  sy_sigemptyset :: bool
  sy_sigaction :: "sig_number \<Rightarrow> bool"
  sy_gearman :: gearman_lib
  sy_spawn :: "watcher_state \<Rightarrow> tid option"

record process =
  pr_cred :: credentials
  pr_fs :: fs_state
  pr_curl_global :: int

text \<open>How the process ends: an exit code, or \<^verbatim>\<open>std::terminate\<close>.\<close>

datatype ending = Exit int | Aborted

definition system_host :: "system \<Rightarrow> options \<Rightarrow> host" where
  "system_host S opts = \<lparr>h_gearman = sy_gearman S, h_response_timeout = opt_loop_timeout opts, h_spawn = sy_spawn S\<rparr>"

text \<open>The last part of \<^verbatim>\<open>main\<close>: from \<^verbatim>\<open>curl_global_init\<close> on.\<close>

definition main_loop_section ::
  "libc \<Rightarrow> system \<Rightarrow> options \<Rightarrow> iteration list \<Rightarrow> process \<Rightarrow> (ending \<times> process) option" where
  "main_loop_section L S opts its pr =
     (let pr1 = pr\<lparr>pr_curl_global := pr_curl_global pr + 1\<rparr>;
          pr2 = pr1\<lparr>pr_curl_global := pr_curl_global pr1 - 1\<rparr>;
          D = compute_durations (opt_loop_timeout opts)
      in case (case new_MainLoop (sy_sigemptyset S) (sy_sigaction S) (opt_jobsconfig opts) of
                 Ret loop \<Rightarrow> MainLoop_run L (system_host S opts) D its loop
               | Throw e \<Rightarrow> Some (Throw e)
               | Terminate \<Rightarrow> Some Terminate) of
           None \<Rightarrow> None
         | Some (Ret _) \<Rightarrow> Some (Exit 0, pr2)
         | Some (Throw e) \<Rightarrow> Some (Exit 1, pr2)
         | Some Terminate \<Rightarrow> Some (Aborted, pr1))"

text \<open>On return from \<^verbatim>\<open>main\<close> its local \<^verbatim>\<open>Pidfile\<close> is destroyed, then the \<^verbatim>\<open>atexit\<close> handlers run.\<close>

definition leave_main :: "fs_calls \<Rightarrow> Pidfile \<Rightarrow> int \<Rightarrow> process \<Rightarrow> ending \<times> process" where
  "leave_main E pid_file rc pr =
     (let fs = delete_Pidfile E pid_file (pr_fs pr) in
      (Exit rc, pr\<lparr>pr_fs := if fs_atexit fs then remove_pidfile E fs else fs\<rparr>))"

definition with_pidfile ::
  "libc \<Rightarrow> system \<Rightarrow> options \<Rightarrow> iteration list \<Rightarrow> process \<Rightarrow> (ending \<times> process) option" where
  "with_pidfile L S opts its pr =
     (let E = sy_files S;
          pid_file = new_Pidfile (opt_pid_file opts);
          (created, pid_file', fs) =
            (if opt_pid_file opts \<noteq> [] then create E (sy_pid S) pid_file (pr_fs pr) else (True, pid_file, pr_fs pr));
          pr1 = pr\<lparr>pr_fs := fs\<rparr>
      in if \<not> created then Some (leave_main E pid_file' 1 pr1)
         else if \<not> sy_log_config S (opt_logconfig opts) then Some (leave_main E pid_file' 1 pr1)
         else
           case main_loop_section L S opts its pr1 of
             None \<Rightarrow> None
           | Some (Exit rc, pr2) \<Rightarrow> Some (leave_main E pid_file' rc pr2)
           | Some (Aborted, pr2) \<Rightarrow> Some (Aborted, pr2))"

definition daemon_main ::
  "libc \<Rightarrow> system \<Rightarrow> parsed_options \<Rightarrow> iteration list \<Rightarrow> process \<Rightarrow> (ending \<times> process) option" where
  "daemon_main L S po its pr =
     (case po of
        Options_throw \<Rightarrow> Some (Exit 1, pr)
      | Options_version \<Rightarrow> Some (Exit 1, pr)
      | Options_help \<Rightarrow> Some (Exit 1, pr)
      | Options opts \<Rightarrow>
          let (switched, cred) =
                (if opt_user opts \<noteq> [] then switch_user (sy_user S) (opt_user opts) (pr_cred pr) else (True, pr_cred pr));
              pr1 = pr\<lparr>pr_cred := cred\<rparr>
          in if \<not> switched then Some (Exit 1, pr1)
             else if opt_daemonize opts then
               (case do_daemon (sy_fork S) (sy_setsid S) (sy_chdir S) of
                  Daemon_exits rc \<Rightarrow> Some (Exit rc, pr1)
                | Daemon_returns ok \<Rightarrow> if \<not> ok then Some (Exit 1, pr1) else with_pidfile L S opts its pr1)
             else with_pidfile L S opts its pr1)"

section \<open>Properties\<close>

lemma durations_exact:
  assumes "unat t < 2 ^ 30"
  shows "unat (LOOP_SLEEP_DURATION (compute_durations t)) = unat t div 2"
    and "unat (HARD_SHUTDOWN_WAIT_DURATION (compute_durations t)) = 2 * unat t"
    and "unat (GRACEFUL_SHUTDOWN_WAIT_DURATION (compute_durations t)) = 4 * unat t"
proof -
  show "unat (LOOP_SLEEP_DURATION (compute_durations t)) = unat t div 2"
    by (simp add: compute_durations_def Let_def unat_div)
  have h: "unat (t * 2) = 2 * unat t" using assms by (simp add: unat_word_ariths)
  then show "unat (HARD_SHUTDOWN_WAIT_DURATION (compute_durations t)) = 2 * unat t"
    by (simp add: compute_durations_def Let_def)
  have "unat (t * 2 * 2) = unat (t * 2) * 2 mod 2 ^ 32"
    using unat_word_ariths(2) [of "t * 2" 2] by simp
  then show "unat (GRACEFUL_SHUTDOWN_WAIT_DURATION (compute_durations t)) = 4 * unat t"
    using assms h by (simp add: compute_durations_def Let_def)
qed

lemma switch_user_success:
  assumes "switch_user U username cr = (True, cr')"
  obtains pw where "uc_getpwnam U (c_str username) = Some pw"
    "cr' = \<lparr>cr_uid = pw_uid pw, cr_euid = pw_uid pw, cr_gid = pw_gid pw\<rparr>" "cr_uid cr = 0 \<or> cr_euid cr = 0"
  using assms by (auto simp: switch_user_def Let_def split: if_splits option.splits)

lemma main_loop_section_curl:
  "main_loop_section L S opts its pr = Some (Exit rc, pr') \<Longrightarrow> pr' = pr"
  by (auto simp: main_loop_section_def Let_def split: option.splits cxx.splits)

lemma leave_main_files:
  assumes "fc_access E (c_str (pf_filename p))" and "fc_unlink E (c_str (pf_filename p))" and "pf_filename p \<noteq> []"
  shows "fs_files (pr_fs (snd (leave_main E p rc pr))) = (fs_files (pr_fs pr))(c_str (pf_filename p) := None)"
  using delete_removes [OF assms] by (simp add: leave_main_def Let_def)

lemma with_pidfile_exit:
  assumes "with_pidfile L S opts its pr = Some (Exit rc, pr')" and "opt_pid_file opts \<noteq> []"
    and "fc_access (sy_files S) (c_str (opt_pid_file opts))" and "fc_unlink (sy_files S) (c_str (opt_pid_file opts))"
  shows "fs_files (pr_fs pr') = (fs_files (pr_fs pr))(c_str (opt_pid_file opts) := None)"
    and "pr_cred pr' = pr_cred pr" and "pr_curl_global pr' = pr_curl_global pr"
proof -
  let ?E = "sy_files S" and ?path = "c_str (opt_pid_file opts)"
  obtain ok p fs where c: "create ?E (sy_pid S) (new_Pidfile (opt_pid_file opts)) (pr_fs pr) = (ok, p, fs)"
    by (cases "create ?E (sy_pid S) (new_Pidfile (opt_pid_file opts)) (pr_fs pr)")
  have n: "pf_filename p = opt_pid_file opts" using create_keeps_name [OF c] by (simp add: new_Pidfile_def)
  have l: "leave_main ?E p rc (pr\<lparr>pr_fs := fs\<rparr>) = (Exit rc, pr')"
    using assms(1,2) c main_loop_section_curl
    by (fastforce simp: with_pidfile_def Let_def leave_main_def split: if_splits option.splits ending.splits)
  have "(fs_files fs)(?path := None) = (fs_files (pr_fs pr))(?path := None)"
    using create_others [OF c] by (auto simp: fun_eq_iff new_Pidfile_def)
  then show "fs_files (pr_fs pr') = (fs_files (pr_fs pr))(?path := None)"
    using leave_main_files [of ?E p rc "pr\<lparr>pr_fs := fs\<rparr>"] assms(2-4) l n by simp
  show "pr_cred pr' = pr_cred pr" "pr_curl_global pr' = pr_curl_global pr"
    using l by (auto simp: leave_main_def Let_def)
qed

text \<open>A process that reaches the main loop has dropped its privileges first.\<close>

lemma daemon_main_reaches_loop:
  assumes "daemon_main L S (Options opts) its pr = r" and "opt_user opts \<noteq> []"
    and "\<not> fst (switch_user (sy_user S) (opt_user opts) (pr_cred pr))"
  shows "\<exists>cred. r = Some (Exit 1, pr\<lparr>pr_cred := cred\<rparr>)"
  using assms by (auto simp: daemon_main_def split: prod.splits)

section \<open>The exit code\<close>

text \<open>Everything main does before its loop succeeds.\<close>

definition startup_ok :: "system \<Rightarrow> options \<Rightarrow> process \<Rightarrow> bool" where
  "startup_ok S opts pr \<longleftrightarrow>
     (opt_user opts \<noteq> [] \<longrightarrow> fst (switch_user (sy_user S) (opt_user opts) (pr_cred pr))) \<and>
     (opt_daemonize opts \<longrightarrow> do_daemon (sy_fork S) (sy_setsid S) (sy_chdir S) = Daemon_returns True) \<and>
     (opt_pid_file opts \<noteq> [] \<longrightarrow> fst (create (sy_files S) (sy_pid S) (new_Pidfile (opt_pid_file opts)) (pr_fs pr))) \<and>
     sy_log_config S (opt_logconfig opts) \<and> sy_sigemptyset S \<and> (\<forall>s. sy_sigaction S s)"

lemma daemon_main_with_pidfile:
  assumes "startup_ok S opts pr"
  shows "\<exists>cred. daemon_main L S (Options opts) its pr = with_pidfile L S opts its (pr\<lparr>pr_cred := cred\<rparr>)"
proof -
  let ?s = "if opt_user opts \<noteq> [] then switch_user (sy_user S) (opt_user opts) (pr_cred pr) else (True, pr_cred pr)"
  obtain switched cred where s: "?s = (switched, cred)" by fastforce
  then have "switched" using assms by (auto simp: startup_ok_def split: if_splits)
  then show ?thesis using assms s by (intro exI [of _ cred]) (simp add: daemon_main_def startup_ok_def Let_def)
qed

text \<open>The loop as the program enters it, and its three endings as exit codes.\<close>

definition start_loop :: "options \<Rightarrow> MainLoop" where
  "start_loop opts = \<lparr>ml_config_filename = opt_jobsconfig opts, ml_config = new_DriveshaftConfig, ml_watcher = new_watcher,
     ml_force = False, ml_sleeps = []\<rparr>"

lemma start_loop_inv: "main_inv (start_loop opts)"
  by (simp add: main_inv_def start_loop_def watcher_ok_def pool_size_def pool_members_def new_watcher_def)

lemma main_loop_section_code:
  assumes "sy_sigemptyset S" and "\<forall>s. sy_sigaction S s"
    and "main_iterations L (system_host S opts) (compute_durations (opt_loop_timeout opts)) (OurCharReader_parse strict_features L) its
      (start_loop opts) = Some r" and "r \<noteq> Terminate"
  shows "main_loop_section L S opts its pr = Some (Exit (if returns r then 0 else 1), pr)"
  using assms by (cases r) (simp_all add: main_loop_section_def new_MainLoop_def setupSignals_ok MainLoop_run_def strict_reader_features start_loop_def Let_def)

lemma with_pidfile_code:
  assumes "startup_ok S opts pr" and "\<And>pr. main_loop_section L S opts its pr = Some (Exit rc, pr)"
  shows "\<exists>pr'. with_pidfile L S opts its (pr\<lparr>pr_cred := cred\<rparr>) = Some (Exit rc, pr') \<and> pr_curl_global pr' = pr_curl_global pr"
  using assms by (auto simp: with_pidfile_def startup_ok_def leave_main_def Let_def split: prod.splits)

lemma daemon_exit:
  assumes "startup_ok S opts pr"
    and "main_iterations L (system_host S opts) (compute_durations (opt_loop_timeout opts)) (OurCharReader_parse strict_features L) its
      (start_loop opts) = Some r" and "r \<noteq> Terminate"
  shows "\<exists>pr'. daemon_main L S (Options opts) its pr = Some (Exit (if returns r then 0 else 1), pr') \<and>
    pr_curl_global pr' = pr_curl_global pr \<and>
    (opt_pid_file opts \<noteq> [] \<and> fc_access (sy_files S) (c_str (opt_pid_file opts)) \<and> fc_unlink (sy_files S) (c_str (opt_pid_file opts)) \<longrightarrow>
       fs_files (pr_fs pr') = (fs_files (pr_fs pr))(c_str (opt_pid_file opts) := None))"
proof -
  obtain cred where d: "daemon_main L S (Options opts) its pr = with_pidfile L S opts its (pr\<lparr>pr_cred := cred\<rparr>)"
    using daemon_main_with_pidfile [OF assms(1)] by blast
  have s: "sy_sigemptyset S" "\<forall>s. sy_sigaction S s" using assms(1) by (simp_all add: startup_ok_def)
  obtain pr' where w: "with_pidfile L S opts its (pr\<lparr>pr_cred := cred\<rparr>) = Some (Exit (if returns r then 0 else 1), pr')"
      "pr_curl_global pr' = pr_curl_global pr"
    using with_pidfile_code [OF assms(1) main_loop_section_code [OF s assms(2,3)], of cred] by blast
  then show ?thesis using with_pidfile_exit(1) [OF w(1)] d by (intro exI [of _ pr']) auto
qed

end
