(* ===== verification/Config_Document.thy ===== *)
theory Config_Document
  imports Config
begin

text \<open>
  What a configuration document means (\<^verbatim>\<open>src/driveshaft-config.cpp\<close>, \<^verbatim>\<open>README.md\<close>): when a JSON tree describes a
  configuration is stated without the parsing loops, and \<^verbatim>\<open>load\<close> is shown to accept exactly the trees that describe
  one, to give back that one, and to leave the object's servers and pools alone when it rejects the file early.
\<close>

section \<open>Meaning\<close>

definition pool_described :: "libc \<Rightarrow> Value \<Rightarrow> PoolData \<Rightarrow> bool" where
  "pool_described L node d \<longleftrightarrow> (\<exists>m n jobs. node = ObjectV m \<and>
     map_find POOL_WORKER_COUNT m = Some n \<and> integral_value n = Some (uint (worker_count d)) \<and>
     map_find POOL_JOB_PROCESSING_URI m = Some (StringV (job_processing_uri d)) \<and>
     map_find POOL_JOB_LIST m = Some (ArrayV jobs) \<and>
     (\<forall>j\<in>snd ` set jobs. returns (asString L j)) \<and> set (job_list d) = {s. \<exists>j\<in>snd ` set jobs. asString L j = Ret s})"

definition describes :: "libc \<Rightarrow> Value \<Rightarrow> DriveshaftConfig \<Rightarrow> bool" where
  "describes L tree cfg \<longleftrightarrow> (\<exists>m servers pools. tree = ObjectV m \<and>
     map_find GEARMAN_SERVERS_LIST m = Some (ArrayV servers) \<and> map_find POOLS_LIST m = Some (ObjectV pools) \<and> map_inv pools \<and>
     snd ` set servers = StringV ` set (m_server_list cfg) \<and> pool_names cfg = set (map_keys pools) \<and>
     (\<forall>p node. map_find p pools = Some node \<longrightarrow> pool_described L node (pool_of cfg p)))"

section \<open>The loops\<close>

lemma server_loop_spec:
  assumes "set_inv acc"
  shows "fst (server_loop L vs acc) = Ret () \<longleftrightarrow> (\<forall>v\<in>set vs. isString v)"
    and "\<forall>v\<in>set vs. isString v \<Longrightarrow> set_inv (snd (server_loop L vs acc)) \<and>
      set (snd (server_loop L vs acc)) = set acc \<union> {s. StringV s \<in> set vs}"
  using assms by (induction vs arbitrary: acc) (auto simp: json_simps isString_iff)

lemma string_values:
  assumes "\<forall>v\<in>A. \<exists>s. v = StringV s" and "S = {s. StringV s \<in> A}"
  shows "A = StringV ` S"
proof -
  have "v \<in> StringV ` S" if "v \<in> A" for v using assms that by (cases v) auto
  then show ?thesis using assms(2) by auto
qed

lemma job_loop_spec:
  assumes "set_inv acc"
  shows "fst (job_loop L vs acc) = Ret () \<longleftrightarrow> (\<forall>v\<in>set vs. returns (asString L v))"
    and "\<forall>v\<in>set vs. returns (asString L v) \<Longrightarrow> set_inv (snd (job_loop L vs acc)) \<and>
      set (snd (job_loop L vs acc)) = set acc \<union> {s. \<exists>v\<in>set vs. asString L v = Ret s}"
  using assms by (induction vs arbitrary: acc) (auto simp: returns_iff split: cxx.splits)

lemma asUInt_integral:
  assumes "isUInt n"
  shows "asUInt n = Ret c \<longleftrightarrow> integral_value n = Some (uint c)"
proof -
  obtain k where k: "integral_value n = Some k" "0 \<le> k" "k \<le> maxUInt" using assms by (auto simp: isUInt_iff)
  then have "uint (word_of_int k :: u32) = k" by (simp add: uint_word_of_int_eq take_bit_int_eq_self maxUInt_def)
  then show ?thesis using converted_UInt [OF k] k(1) by auto
qed

lemma integral_isUInt: "integral_value n = Some (uint (c :: u32)) \<Longrightarrow> isUInt n"
  using uint_bounded [of c] by (auto simp: isUInt_iff maxUInt_def)

text \<open>The test of a pool's node and the reading of its three fields, which either both succeed or throw.\<close>

lemma pool_header:
  "cxx_bind (pool_node_ok node) (\<lambda>valid. if \<not> valid then Throw (Runtime_error ''config jobs list parse failure'') else pool_fields L node) =
     Ret (count, uri, js) \<longleftrightarrow>
   (\<exists>m n jobs. node = ObjectV m \<and> map_find POOL_WORKER_COUNT m = Some n \<and> integral_value n = Some (uint count) \<and>
      map_find POOL_JOB_PROCESSING_URI m = Some (StringV uri) \<and> map_find POOL_JOB_LIST m = Some (ArrayV jobs) \<and> js = ArrayV jobs)"
proof (cases node)
  case (ObjectV m)
  then show ?thesis
    by (auto simp: pool_node_ok_def pool_fields_def cxx_simps json_simps isString_iff isArray_iff asUInt_integral integral_isUInt)
qed (auto simp: pool_node_ok_def json_simps cxx_simps isMember_def json_find_def isNull_iff isObject_iff JSON_ASSERT_MESSAGE_def)

lemma parsePool_spec:
  assumes "map_find p pools = None"
  shows "pool_described L node d \<Longrightarrow> set_inv (job_list d) \<Longrightarrow> parsePool L p node pools = (Ret (), map_put p d pools)"
    and "fst (parsePool L p node pools) = Ret () \<Longrightarrow>
      \<exists>d. pool_described L node d \<and> set_inv (job_list d) \<and> snd (parsePool L p node pools) = map_put p d pools"
proof -
  let ?head = "cxx_bind (pool_node_ok node) (\<lambda>valid. if \<not> valid then Throw (Runtime_error ''config jobs list parse failure'') else pool_fields L node)"
  have parse: "parsePool L p node pools = (fst (job_loop L (iter_values js) []),
      map_put p \<lparr>worker_count = count, job_processing_uri = uri, job_list = snd (job_loop L (iter_values js) [])\<rparr> pools)"
    if "?head = Ret (count, uri, js)" for count uri js
    using assms that by (simp add: parsePool_def case_prod_beta Let_def)
  show "parsePool L p node pools = (Ret (), map_put p d pools)" if d: "pool_described L node d" "set_inv (job_list d)"
  proof -
    obtain m n jobs where m: "node = ObjectV m" "map_find POOL_WORKER_COUNT m = Some n" "integral_value n = Some (uint (worker_count d))"
        "map_find POOL_JOB_PROCESSING_URI m = Some (StringV (job_processing_uri d))" "map_find POOL_JOB_LIST m = Some (ArrayV jobs)"
        and jobs: "\<forall>j\<in>snd ` set jobs. returns (asString L j)" "set (job_list d) = {s. \<exists>j\<in>snd ` set jobs. asString L j = Ret s}"
      using d(1) unfolding pool_described_def by blast
    have h: "?head = Ret (worker_count d, job_processing_uri d, ArrayV jobs)" unfolding pool_header using m by blast
    have l: "fst (job_loop L (map snd jobs) []) = Ret ()" "snd (job_loop L (map snd jobs) []) = job_list d"
      using job_loop_spec [where acc = "[]" and L = L and vs = "map snd jobs"] jobs d(2) by (simp, intro set_inv_unique [THEN iffD1]) auto
    show ?thesis unfolding parse [OF h] using l by (cases d) (simp add: iter_values_def)
  qed
  assume ret: "fst (parsePool L p node pools) = Ret ()"
  then obtain count uri js where h: "?head = Ret (count, uri, js)"
    by (cases ?head) (auto simp: parsePool_def)
  then obtain m n jobs where m: "node = ObjectV m" "map_find POOL_WORKER_COUNT m = Some n" "integral_value n = Some (uint count)"
      "map_find POOL_JOB_PROCESSING_URI m = Some (StringV uri)" "map_find POOL_JOB_LIST m = Some (ArrayV jobs)" "js = ArrayV jobs"
    unfolding pool_header by blast
  have "fst (job_loop L (map snd jobs) []) = Ret ()" using ret by (simp add: parse [OF h] m(6) iter_values_def)
  then have "\<forall>j\<in>snd ` set jobs. returns (asString L j)" "set_inv (snd (job_loop L (map snd jobs) []))"
      "set (snd (job_loop L (map snd jobs) [])) = {s. \<exists>j\<in>snd ` set jobs. asString L j = Ret s}"
    using job_loop_spec [where acc = "[]" and L = L and vs = "map snd jobs"] by auto
  then have "pool_described L node \<lparr>worker_count = count, job_processing_uri = uri, job_list = snd (job_loop L (iter_values js) [])\<rparr>"
      "set_inv (snd (job_loop L (iter_values js) []))"
    using m by (auto simp: pool_described_def iter_values_def)
  then show "\<exists>d. pool_described L node d \<and> set_inv (job_list d) \<and> snd (parsePool L p node pools) = map_put p d pools"
    unfolding parse [OF h] by (intro exI [of _ "\<lparr>worker_count = count, job_processing_uri = uri, job_list = snd (job_loop L (iter_values js) [])\<rparr>"]) simp
qed

definition pool_entry :: "libc \<Rightarrow> string \<times> Value \<Rightarrow> string \<times> PoolData \<Rightarrow> bool" where
  "pool_entry L e e' \<longleftrightarrow> fst e = fst e' \<and> pool_described L (snd e) (snd e') \<and> set_inv (job_list (snd e'))"

lemma pool_loop_sound:
  assumes "list_all2 (pool_entry L) xs out" and "map_inv xs" and "\<forall>k\<in>set (map_keys acc). \<forall>k'\<in>set (map_keys xs). k < k'"
  shows "pool_loop L xs acc = (Ret (), acc @ out)"
  using assms
proof (induction xs out arbitrary: acc rule: list_all2_induct)
  case (Cons e xs e' out)
  have above: "\<forall>k\<in>set (map_keys acc). k < fst e" using Cons.prems(2) by simp
  then have "map_find (fst e) acc = None" by (auto simp: map_find_None)
  then have "parsePool L (fst e) (snd e) acc = (Ret (), acc @ [e'])"
    using parsePool_spec(1) [of "fst e" acc L "snd e" "snd e'"] Cons.hyps(1) map_put_last [OF above, of "snd e'"] by (cases e') (simp add: pool_entry_def)
  moreover have "pool_loop L xs (acc @ [e']) = (Ret (), (acc @ [e']) @ out)"
    using Cons.prems Cons.hyps(1) by (intro Cons.IH) (auto simp: map_inv_Cons pool_entry_def map_keys_def)
  ultimately show ?case by simp
qed simp

lemma pool_loop_complete:
  assumes "fst (pool_loop L xs acc) = Ret ()" and "map_inv xs" and "\<forall>k\<in>set (map_keys acc). \<forall>k'\<in>set (map_keys xs). k < k'"
  shows "\<exists>out. list_all2 (pool_entry L) xs out \<and> snd (pool_loop L xs acc) = acc @ out"
  using assms
proof (induction xs arbitrary: acc)
  case (Cons e xs)
  have above: "\<forall>k\<in>set (map_keys acc). k < fst e" using Cons.prems(3) by simp
  then have "map_find (fst e) acc = None" by (auto simp: map_find_None)
  moreover have "fst (parsePool L (fst e) (snd e) acc) = Ret ()" using Cons.prems(1) by (auto split: prod.splits cxx.splits)
  ultimately obtain d where d: "pool_described L (snd e) d" "set_inv (job_list d)" "snd (parsePool L (fst e) (snd e) acc) = map_put (fst e) d acc"
    using parsePool_spec(2) by blast
  then have step: "pool_loop L (e # xs) acc = pool_loop L xs (acc @ [(fst e, d)])"
    using \<open>fst (parsePool L (fst e) (snd e) acc) = Ret ()\<close> map_put_last [OF above, of d] by (simp add: case_prod_beta)
  obtain out where "list_all2 (pool_entry L) xs out" "snd (pool_loop L xs (acc @ [(fst e, d)])) = (acc @ [(fst e, d)]) @ out"
    using Cons.IH [of "acc @ [(fst e, d)]"] Cons.prems step by (auto simp: map_inv_Cons map_keys_def simp del: pool_loop.simps)
  moreover have "pool_entry L e (fst e, d)" using d by (simp add: pool_entry_def)
  ultimately show ?case by (intro exI [of _ "(fst e, d) # out"]) (simp add: step del: pool_loop.simps)
qed simp

lemma pool_entries_keys: "list_all2 (pool_entry L) xs out \<Longrightarrow> map_keys out = map_keys xs"
  by (induction rule: list_all2_induct) (simp_all add: pool_entry_def map_keys_def)

lemma pool_entries_find:
  "list_all2 (pool_entry L) xs out \<Longrightarrow> map_find p xs = Some node \<Longrightarrow> \<exists>d. map_find p out = Some d \<and> pool_described L node d"
  by (induction rule: list_all2_induct) (auto simp: pool_entry_def split: if_splits)

lemma pool_entries_jobs: "list_all2 (pool_entry L) xs out \<Longrightarrow> map_find p out = Some d \<Longrightarrow> set_inv (job_list d)"
  by (induction rule: list_all2_induct) (auto simp: pool_entry_def split: if_splits)

lemma pool_entries_described:
  assumes "map_inv xs" and "config_inv cfg"
  shows "list_all2 (pool_entry L) xs (m_pool_map cfg) \<longleftrightarrow>
    pool_names cfg = set (map_keys xs) \<and> (\<forall>p node. map_find p xs = Some node \<longrightarrow> pool_described L node (pool_of cfg p))"
proof
  assume e: "list_all2 (pool_entry L) xs (m_pool_map cfg)"
  show "pool_names cfg = set (map_keys xs) \<and> (\<forall>p node. map_find p xs = Some node \<longrightarrow> pool_described L node (pool_of cfg p))"
    using pool_entries_keys [OF e] pool_entries_find [OF e] by (fastforce simp: pool_names_keys [symmetric] pool_of_def)
next
  assume d: "pool_names cfg = set (map_keys xs) \<and> (\<forall>p node. map_find p xs = Some node \<longrightarrow> pool_described L node (pool_of cfg p))"
  note inv = config_invD [OF assms(2)]
  have "set_inv (map_keys xs)" using assms(1) by (simp add: map_inv_def)
  then have keys: "map_keys xs = map_keys (m_pool_map cfg)"
    using d inv(4) set_inv_unique [of "map_keys xs" "map_keys (m_pool_map cfg)"] by (simp add: pool_names_keys)
  then have len: "length xs = length (m_pool_map cfg)" unfolding map_keys_def by (metis length_map)
  show "list_all2 (pool_entry L) xs (m_pool_map cfg)"
  proof (rule list_all2_all_nthI [OF len])
    fix i assume i: "i < length xs"
    obtain p node q e where xi: "xs ! i = (p, node)" "m_pool_map cfg ! i = (q, e)" by (meson surj_pair)
    have "q = p" using arg_cong [OF keys, of "\<lambda>ks. ks ! i"] i len xi by (simp add: map_keys_def)
    moreover have f: "map_find p xs = Some node" "map_find q (m_pool_map cfg) = Some e"
      using map_entries_find [OF assms(1)] map_entries_find [OF inv(2)] nth_mem [OF i] nth_mem [of i "m_pool_map cfg"] i len xi by simp_all
    moreover have "pool_described L node (pool_of cfg p)" using d f(1) by blast
    ultimately show "pool_entry L (xs ! i) (m_pool_map cfg ! i)" using inv(3) xi by (simp add: pool_entry_def pool_of_def)
  qed
qed

section \<open>The whole document\<close>

lemma validate_spec:
  "validateConfigNode tree = Ret True \<longleftrightarrow> (\<exists>m servers pools. tree = ObjectV m \<and> map_find GEARMAN_SERVERS_LIST m = Some (ArrayV servers) \<and>
     map_find POOLS_LIST m = Some (ObjectV pools))"
proof (cases tree)
  case (ObjectV m)
  then show ?thesis by (auto simp: validateConfigNode_def cxx_simps json_simps isArray_iff isObject_iff)
qed (auto simp: validateConfigNode_def json_simps cxx_simps isMember_def json_find_def isNull_iff isObject_iff JSON_ASSERT_MESSAGE_def)

text \<open>A tree whose pools are a map is read exactly if it describes a configuration, into that one.\<close>

lemma read_tree_sound:
  assumes "describes L tree cfg" and "config_inv cfg" and "m_server_list c0 = []" and "m_pool_map c0 = []"
  shows "validateConfigNode tree = Ret True"
    and "read_tree L tree c0 = (Ret True, c0\<lparr>m_server_list := m_server_list cfg, m_pool_map := m_pool_map cfg\<rparr>)"
proof -
  obtain m servers pools where t: "tree = ObjectV m" "map_find GEARMAN_SERVERS_LIST m = Some (ArrayV servers)"
      "map_find POOLS_LIST m = Some (ObjectV pools)" "map_inv pools"
      and d: "snd ` set servers = StringV ` set (m_server_list cfg)" "list_all2 (pool_entry L) pools (m_pool_map cfg)"
    using assms(1) pool_entries_described [OF _ assms(2), of _ L] unfolding describes_def by blast
  show "validateConfigNode tree = Ret True" unfolding validate_spec using t by blast
  have str: "\<forall>v\<in>set (map snd servers). isString v" using d(1) by (auto simp: isString_iff)
  have "{s. StringV s \<in> set (map snd servers)} = set (m_server_list cfg)" using d(1) by auto
  then have s: "server_loop L (map snd servers) [] = (Ret (), m_server_list cfg)"
    using server_loop_spec [where acc = "[]" and L = L and vs = "map snd servers"] str config_invD(1) [OF assms(2)]
      set_inv_unique [of "snd (server_loop L (map snd servers) [])" "m_server_list cfg"] by (simp add: prod_eq_iff)
  have "pool_loop L pools [] = (Ret (), [] @ m_pool_map cfg)" by (rule pool_loop_sound [OF d(2) t(4)]) simp
  then show "read_tree L tree c0 = (Ret True, c0\<lparr>m_server_list := m_server_list cfg, m_pool_map := m_pool_map cfg\<rparr>)"
    using assms(3,4) t s by (simp add: read_tree_def parseServerList_def parsePoolList_def json_simps iter_values_def iter_names_def)
qed

lemma read_tree_complete:
  assumes "validateConfigNode tree = Ret True" and "fst (read_tree L tree c0) = Ret True" and "m_server_list c0 = []" and "m_pool_map c0 = []"
    and "\<And>m pools. tree = ObjectV m \<Longrightarrow> map_find POOLS_LIST m = Some (ObjectV pools) \<Longrightarrow> map_inv pools"
  shows "describes L tree (snd (read_tree L tree c0))"
proof -
  obtain m servers pools where t: "tree = ObjectV m" "map_find GEARMAN_SERVERS_LIST m = Some (ArrayV servers)"
      "map_find POOLS_LIST m = Some (ObjectV pools)" "map_inv pools" using assms(1,5) unfolding validate_spec by blast
  let ?s = "server_loop L (map snd servers) []" and ?p = "pool_loop L pools []"
  have r: "fst ?s = Ret ()" "fst ?p = Ret ()" "snd (read_tree L tree c0) = c0\<lparr>m_server_list := snd ?s, m_pool_map := snd ?p\<rparr>"
    using assms(2-4) t by (auto simp: read_tree_def parseServerList_def parsePoolList_def json_simps iter_values_def iter_names_def
        cxx_simps split: prod.splits cxx.splits)
  have str: "\<forall>v\<in>snd ` set servers. \<exists>s. v = StringV s" "set (snd ?s) = {s. StringV s \<in> snd ` set servers}" "set_inv (snd ?s)"
    using server_loop_spec [where acc = "[]" and L = L and vs = "map snd servers"] r(1) by (simp_all add: isString_iff)
  then have servers: "snd ` set servers = StringV ` set (snd ?s)" by (intro string_values)
  obtain out where out: "list_all2 (pool_entry L) pools out" "snd ?p = out" using pool_loop_complete [OF r(2) t(4)] by auto
  let ?cfg = "c0\<lparr>m_server_list := snd ?s, m_pool_map := snd ?p\<rparr>"
  have "map_inv out" using t(4) pool_entries_keys [OF out(1)] by (simp add: map_inv_def)
  then have "config_inv ?cfg" using str(3) pool_entries_jobs [OF out(1)] out(2) by (auto simp: config_inv_def)
  then have "pool_names ?cfg = set (map_keys pools) \<and> (\<forall>p node. map_find p pools = Some node \<longrightarrow> pool_described L node (pool_of ?cfg p))"
    using pool_entries_described [OF t(4), of ?cfg L] out by simp
  then show ?thesis unfolding r(3) describes_def using t servers by auto
qed

lemma describes_cong:
  "m_server_list cfg = m_server_list cfg' \<Longrightarrow> m_pool_map cfg = m_pool_map cfg' \<Longrightarrow> describes L tree cfg = describes L tree cfg'"
  by (simp add: describes_def pool_names_def pool_of_def)

lemma load_validated:
  assumes "env_mtime env f = Some modified" and "modified > m_load_time c0" and "env_read env f = Some contents"
    and "parse contents = Ret (True, errors, tree)"
  shows "load L parse env f c0 = (case validateConfigNode tree of Ret b \<Rightarrow>
      if b then read_tree L tree (c0\<lparr>m_config_filename := f, m_load_time := env_now env, m_server_list := [], m_pool_map := []\<rparr>)
      else (Throw (Runtime_error ''config parse failure''), c0\<lparr>m_config_filename := f\<rparr>)
    | Throw e \<Rightarrow> (Throw e, c0\<lparr>m_config_filename := f\<rparr>) | Terminate \<Rightarrow> (Terminate, c0\<lparr>m_config_filename := f\<rparr>))"
  using assms
  by (cases "validateConfigNode tree") (simp_all add: load_def needsConfigUpdate_def fetchFileContents_def parseConfig_def parsed_tree_def)

lemma load_tree:
  assumes "env_mtime env f = Some modified" and "modified > m_load_time c0" and "env_read env f = Some contents"
    and "parse contents = Ret (True, errors, tree)" and "config_inv cfg"
    and "\<And>m pools. tree = ObjectV m \<Longrightarrow> map_find POOLS_LIST m = Some (ObjectV pools) \<Longrightarrow> map_inv pools"
  shows "load L parse env f c0 = (Ret True, cfg\<lparr>m_config_filename := f, m_load_time := env_now env\<rparr>) \<longleftrightarrow> describes L tree cfg"
proof
  let ?c0 = "c0\<lparr>m_config_filename := f, m_load_time := env_now env, m_server_list := [], m_pool_map := []\<rparr>"
  note l = load_validated [where parse = parse and L = L, OF assms(1-4)]
  have same: "?c0\<lparr>m_server_list := m_server_list cfg, m_pool_map := m_pool_map cfg\<rparr> = cfg\<lparr>m_config_filename := f, m_load_time := env_now env\<rparr>"
    by (cases cfg) simp
  show "load L parse env f c0 = (Ret True, cfg\<lparr>m_config_filename := f, m_load_time := env_now env\<rparr>)" if "describes L tree cfg"
    using read_tree_sound [OF that assms(5), of ?c0] same l by simp
  assume r: "load L parse env f c0 = (Ret True, cfg\<lparr>m_config_filename := f, m_load_time := env_now env\<rparr>)"
  then have v: "validateConfigNode tree = Ret True" using l by (auto split: cxx.splits if_splits)
  then have "read_tree L tree ?c0 = (Ret True, cfg\<lparr>m_config_filename := f, m_load_time := env_now env\<rparr>)" using r l by simp
  then show "describes L tree cfg"
    using read_tree_complete [OF v, of L ?c0] assms(6) describes_cong [of cfg "cfg\<lparr>m_config_filename := f, m_load_time := env_now env\<rparr>" L tree] by simp
qed

lemma load_accepts:
  assumes "env_mtime env f = Some modified" and "modified > m_load_time c0" and "env_read env f = Some contents"
    and "parse contents = Ret (True, errors, tree)" and "returns (fst (load L parse env f c0))" and "config_inv c0"
    and "\<And>m pools. tree = ObjectV m \<Longrightarrow> map_find POOLS_LIST m = Some (ObjectV pools) \<Longrightarrow> map_inv pools"
  shows "config_inv (snd (load L parse env f c0)) \<and> describes L tree (snd (load L parse env f c0))"
proof -
  let ?c0 = "c0\<lparr>m_config_filename := f, m_load_time := env_now env, m_server_list := [], m_pool_map := []\<rparr>"
  have "validateConfigNode tree = Ret True" and l: "load L parse env f c0 = read_tree L tree ?c0"
    using assms(5) load_validated [where parse = parse and L = L, OF assms(1-4)] by (auto simp: returns_iff split: cxx.splits if_splits)
  moreover have "fst (read_tree L tree ?c0) = Ret True"
    using assms(5) l by (auto simp: returns_iff read_tree_def cxx_simps split: cxx.splits prod.splits)
  ultimately show ?thesis using read_tree_complete [of tree L ?c0] assms(7) load_inv [OF assms(6), of L parse env f] by simp
qed

text \<open>A file that is not read at all, or is rejected as a whole, leaves the servers and the pools of the object alone.\<close>

lemma load_rejected:
  assumes "env_mtime env f = None \<or> env_read env f = None \<or>
    (\<exists>contents. env_read env f = Some contents \<and> \<not> returns (parsed_tree parse contents))"
  shows "m_server_list (snd (load L parse env f c0)) = m_server_list c0 \<and> m_pool_map (snd (load L parse env f c0)) = m_pool_map c0"
  using assms by (auto simp: load_def needsConfigUpdate_def fetchFileContents_def parseConfig_invalid split: option.splits)

lemma load_old: "env_mtime env f = Some modified \<Longrightarrow> modified \<le> m_load_time c0 \<Longrightarrow> load L parse env f c0 = (Ret False, c0)"
  by (simp add: load_def needsConfigUpdate_def)

end
