(* ===== verification/Json_Writer.thy ===== *)
theory Json_Writer
  imports Json_Ops Json_Reader
begin

text \<open>
  Writing of values by jsoncpp: quoting of strings (\<^verbatim>\<open>valueToQuotedStringN\<close>) and \<^verbatim>\<open>FastWriter\<close>, from
  \<^verbatim>\<open>src/dist/jsoncpp.cpp\<close>. A quoted string is one token of the reader, and decoding that token gives
  the string back, whatever bytes it holds.
\<close>

section \<open>Quoting\<close>

text \<open>\<^verbatim>\<open>char\<close> is signed, so a byte from 128 on is negative and no control character.\<close>

definition isControlCharacter :: "char \<Rightarrow> bool" where
  "isControlCharacter ch \<longleftrightarrow> 0 < (of_char ch :: nat) \<and> (of_char ch :: nat) \<le> 0x1F"

fun containsControlCharacter0 :: "string \<Rightarrow> bool" where
  "containsControlCharacter0 [] = False"
| "containsControlCharacter0 (c # s) = (if isControlCharacter c \<or> c = NUL then True else containsControlCharacter0 s)"

text \<open>\<^verbatim>\<open>strnpbrk\<close>: the rest of the block from the first byte of \<open>accept\<close>.\<close>

fun strnpbrk :: "string \<Rightarrow> string \<Rightarrow> string option" where
  "strnpbrk [] accept = None"
| "strnpbrk (c # s) accept = (if c \<in> set accept then Some (c # s) else strnpbrk s accept)"

definition quote_specials :: string where
  "quote_specials = [CHR 0x22, CHR 0x5C, CHR 0x08, CHR 0x0C, CHR 0x0A, CHR 0x0D, CHR 0x09]"

definition hex_digit :: "nat \<Rightarrow> char" where
  "hex_digit n = (if n < 10 then char_of (48 + n) else char_of (55 + n))"

fun hex_string :: "nat \<Rightarrow> string" where
  "hex_string n = (if n < 16 then [hex_digit n] else hex_string (n div 16) @ [hex_digit (n mod 16)])"

declare hex_string.simps [simp del]

text \<open>\<^verbatim>\<open>std::setfill('0') << std::setw(4)\<close>.\<close>

definition padded_hex :: "nat \<Rightarrow> string" where
  "padded_hex n = replicate (4 - length (hex_string n)) (CHR ''0'') @ hex_string n"

definition escape_char :: "char \<Rightarrow> string" where
  "escape_char c =
     (if c = CHR 0x22 then [CHR 0x5C, CHR 0x22]
      else if c = CHR 0x5C then [CHR 0x5C, CHR 0x5C]
      else if c = CHR 0x08 then [CHR 0x5C, CHR ''b'']
      else if c = CHR 0x0C then [CHR 0x5C, CHR ''f'']
      else if c = CHR 0x0A then [CHR 0x5C, CHR ''n'']
      else if c = CHR 0x0D then [CHR 0x5C, CHR ''r'']
      else if c = CHR 0x09 then [CHR 0x5C, CHR ''t'']
      else if isControlCharacter c \<or> c = NUL then [CHR 0x5C, CHR ''u''] @ padded_hex (of_char c)
      else [c])"

fun escape_loop :: "string \<Rightarrow> string \<Rightarrow> string" where
  "escape_loop [] result = result"
| "escape_loop (c # s) result = escape_loop s (result @ escape_char c)"

text \<open>
  The first branch appends the block as a C string: it holds no NUL there, so that is the whole
  block.
\<close>

definition valueToQuotedStringN :: "string \<Rightarrow> string" where
  "valueToQuotedStringN s =
     (if strnpbrk s quote_specials = None \<and> \<not> containsControlCharacter0 s
      then [CHR 0x22] @ s @ [CHR 0x22]
      else escape_loop s [CHR 0x22] @ [CHR 0x22])"

section \<open>FastWriter\<close>

record FastWriter =
  yamlCompatiblityEnabled :: bool
  dropNullPlaceholders :: bool
  omitEndingLineFeed :: bool

definition new_FastWriter :: FastWriter where
  "new_FastWriter = \<lparr>yamlCompatiblityEnabled = False, dropNullPlaceholders = False, omitEndingLineFeed = False\<rparr>"

text \<open>\<open>value[index]\<close> and \<open>value[name]\<close> on a const value: null when there is no such entry.\<close>

definition entry_or_null :: "'k \<Rightarrow> ('k \<times> Value) list \<Rightarrow> Value" where
  "entry_or_null k m = (case map_find k m of Some x \<Rightarrow> x | None \<Rightarrow> NullV)"

fun comma_separated :: "string list \<Rightarrow> string" where
  "comma_separated [] = []"
| "comma_separated [s] = s"
| "comma_separated (s # t # ss) = s @ '','' @ comma_separated (t # ss)"

lemma map_find_size: "map_find k m = Some x \<Longrightarrow> size x < Suc (size_list (size_prod (\<lambda>k. 0) size) m)"
  by (induction m) (auto split: if_splits)

lemma entry_or_null_size: "size (entry_or_null k m) < Suc (size_list (size_prod (\<lambda>k. 0) size) m)"
  by (auto simp: entry_or_null_def map_find_size split: option.splits)

function (sequential) writeValue :: "libc \<Rightarrow> FastWriter \<Rightarrow> Value \<Rightarrow> string" where
  "writeValue L W NullV = (if \<not> dropNullPlaceholders W then ''null'' else '''')"
| "writeValue L W (IntV i) = valueToString_int i"
| "writeValue L W (UIntV u) = valueToString_uint u"
| "writeValue L W (RealV d) = valueToString_double L d False"
| "writeValue L W (StringV s) = valueToQuotedStringN s"
| "writeValue L W (BoolV b) = valueToString_bool b"
| "writeValue L W (ArrayV m) =
     ''['' @ comma_separated (map (\<lambda>index. writeValue L W (entry_or_null index m)) [0..<int_bound (json_size (ArrayV m))]) @ '']''"
| "writeValue L W (ObjectV m) =
     ''{'' @ comma_separated (map (\<lambda>name. valueToQuotedStringN name @
         (if yamlCompatiblityEnabled W then '': '' else '':'') @
         writeValue L W (entry_or_null (CZString name) m)) (map_keys m)) @ ''}''"
  by pat_completeness auto
termination
  by (relation "measure (\<lambda>(L, W, v). size v)") (auto simp: entry_or_null_size)

definition FastWriter_write :: "libc \<Rightarrow> FastWriter \<Rightarrow> Value \<Rightarrow> string" where
  "FastWriter_write L W v = writeValue L W v @ (if \<not> omitEndingLineFeed W then [CHR 0x0A] else [])"

section \<open>A quoted string is read back\<close>

lemma of_char_hex_digit: "d < 16 \<Longrightarrow> of_char (hex_digit d) = (if d < 10 then 48 + d else 55 + d)"
  by (simp add: hex_digit_def)

lemma hex_digit_facts:
  assumes "d < 16"
  shows "hex_value (hex_digit d) = Some (of_nat d)"
    and "hex_digit d \<noteq> CHR 0x22" and "hex_digit d \<noteq> CHR 0x5C"
proof -
  note o = of_char_hex_digit [OF assms]
  show "hex_value (hex_digit d) = Some (of_nat d)"
    using assms by (auto simp: hex_value_def less_eq_char_def o)
  have "(of_char (hex_digit d) :: nat) \<noteq> 34" "(of_char (hex_digit d) :: nat) \<noteq> 92" using assms o by auto
  then show "hex_digit d \<noteq> CHR 0x22" "hex_digit d \<noteq> CHR 0x5C" by auto
qed

lemma hex_digit_0: "hex_digit 0 = CHR ''0''"
  by (rule of_char_eq_iff [where 'a = nat, THEN iffD1]) (simp add: of_char_hex_digit)

lemma padded_hex_byte:
  assumes "n < 32"
  shows "padded_hex n = [hex_digit 0, hex_digit 0, hex_digit (n div 16), hex_digit (n mod 16)]"
proof (cases "n < 16")
  case True
  then show ?thesis by (simp add: padded_hex_def hex_string.simps [of n] hex_digit_0 numeral_3_eq_3)
next
  case False
  with assms have "n div 16 < 16" by simp
  with False show ?thesis by (simp add: padded_hex_def hex_string.simps [of n] hex_string.simps [of "n div 16"] hex_digit_0 numeral_2_eq_2)
qed

lemma hex_loop_four:
  assumes "hex_value a = Some u" "hex_value b = Some v" "hex_value c = Some w" "hex_value d = Some x"
  shows "decodeUnicodeEscapeSequence (a # b # c # d # r) = Inr ((((u * 16) + v) * 16 + w) * 16 + x, r)"
proof -
  have "hex_loop (Suc (Suc (Suc (Suc 0)))) (a # b # c # d # r) 0 = Inr ((((u * 16) + v) * 16 + w) * 16 + x, r)"
    by (simp only: hex_loop.simps assms option.case mult_zero_left add_0)
  then show ?thesis by (simp add: decodeUnicodeEscapeSequence_def numeral_eq_Suc)
qed

lemma escaped_control:
  assumes "isControlCharacter c \<or> c = NUL"
  shows "decodeUnicodeCodePoint (padded_hex (of_char c) @ r) = Inr (of_nat (of_char c), r)"
    and "codePointToUTF8 (of_nat (of_char c)) = [c]"
    and "list_all (\<lambda>d. d \<noteq> CHR 0x22 \<and> d \<noteq> CHR 0x5C) (padded_hex (of_char c))"
proof -
  let ?n = "of_char c :: nat"
  have n: "?n < 32" using assms by (auto simp: isControlCharacter_def NUL_def)
  then have d: "?n div 16 < 16" "?n mod 16 < 16" "(0::nat) < 16" by simp_all
  have "of_nat (?n div 16) * 16 + of_nat (?n mod 16) = (of_nat ?n :: u32)"
    by (metis div_mult_mod_eq of_nat_add of_nat_mult of_nat_numeral)
  moreover have u: "unat (of_nat ?n :: u32) = ?n" using n by (simp add: unat_of_nat take_bit_nat_eq_self_iff)
  ultimately show "decodeUnicodeCodePoint (padded_hex (of_char c) @ r) = Inr (of_nat ?n, r)"
    using n d by (simp add: padded_hex_byte decodeUnicodeCodePoint_def hex_loop_four [OF hex_digit_facts(1) hex_digit_facts(1)
        hex_digit_facts(1) hex_digit_facts(1)] word_le_nat_alt)
  show "codePointToUTF8 (of_nat ?n) = [c]"
    using n u by (simp add: codePointToUTF8_def word_le_nat_alt)
  show "list_all (\<lambda>d. d \<noteq> CHR 0x22 \<and> d \<noteq> CHR 0x5C) (padded_hex ?n)"
    using n d by (simp add: padded_hex_byte hex_digit_facts)
qed

lemma escape_loop_eq: "escape_loop s result = result @ concat (map escape_char s)"
  by (induction s arbitrary: result) simp_all

text \<open>Either way the body is a string of units, each a plain byte or an escape.\<close>

lemma quoted_body:
  "valueToQuotedStringN s = [CHR 0x22] @ concat (map escape_char s) @ [CHR 0x22]"
proof -
  have "strnpbrk s quote_specials = None \<Longrightarrow> \<not> containsControlCharacter0 s \<Longrightarrow> concat (map escape_char s) = s"
    by (induction s) (auto simp: escape_char_def quote_specials_def split: if_splits)
  then show ?thesis by (auto simp: valueToQuotedStringN_def escape_loop_eq)
qed

lemma decode_escaped:
  "decodeString_loop (escape_char c @ r) decoded = decodeString_loop r (decoded @ [c])"
  by (simp add: escape_char_def simple_escape_def escaped_control)

lemma decode_escaped_all:
  "decodeString_loop (concat (map escape_char s)) decoded = Inr (decoded @ s)"
  by (induction s arbitrary: decoded) (simp_all add: decode_escaped)

lemma decodeString_quoted:
  assumes "token_text token = valueToQuotedStringN s"
  shows "decodeString token st = (Some s, st)"
  by (simp add: decodeString_def string_body_def assms quoted_body decode_escaped_all butlast_append)

lemma readString_plain:
  "list_all (\<lambda>d. d \<noteq> CHR 0x22 \<and> d \<noteq> CHR 0x5C) p \<Longrightarrow>
     \<exists>c'. readString_loop (CHR 0x22) c (p @ r) = readString_loop (CHR 0x22) c' r"
  by (induction p arbitrary: c) auto

lemma readString_escaped:
  "\<exists>c'. readString_loop (CHR 0x22) c0 (escape_char c @ r) = readString_loop (CHR 0x22) c' r"
proof (cases "c \<in> set quote_specials")
  case True
  then have "\<exists>x. escape_char c = [CHR 0x5C, x]"
    unfolding quote_specials_def by (simp only: list.set insert_iff empty_iff) (elim disjE; simp add: escape_char_def)
  then obtain x where "escape_char c = [CHR 0x5C, x]" ..
  then have "readString_loop (CHR 0x22) c0 (escape_char c @ r) = readString_loop (CHR 0x22) (CHR 0x5C) r" by simp
  then show ?thesis ..
next
  case False
  then have e: "escape_char c = (if isControlCharacter c \<or> c = NUL then [CHR 0x5C, CHR ''u''] @ padded_hex (of_char c) else [c])"
    and plain: "c \<noteq> CHR 0x22" "c \<noteq> CHR 0x5C" by (simp_all add: quote_specials_def escape_char_def)
  show ?thesis
  proof (cases "isControlCharacter c \<or> c = NUL")
    case True
    then show ?thesis using readString_plain [OF escaped_control(3), of c "CHR 0x5C" r] by (simp add: e)
  qed (use plain in \<open>simp add: e\<close>, blast)
qed

lemma readString_quoted:
  "readString_loop (CHR 0x22) c0 (concat (map escape_char s) @ CHR 0x22 # r) = (True, r)"
proof (induction s arbitrary: c0)
  case (Cons c s)
  obtain c' where "readString_loop (CHR 0x22) c0 (escape_char c @ concat (map escape_char s) @ CHR 0x22 # r) =
      readString_loop (CHR 0x22) c' (concat (map escape_char s) @ CHR 0x22 # r)"
    using readString_escaped by blast
  with Cons.IH [of c'] show ?case by simp
qed simp

text \<open>The quoted string, followed by anything, is read as one string token that decodes to it.\<close>

lemma readToken_quoted:
  fixes s
  defines "q \<equiv> valueToQuotedStringN s"
  shows "readToken F (q @ r) = (\<lparr>tok_type = tokenString, tok_start = q @ r, tok_end = r\<rparr>, r)"
proof -
  have q: "q @ r = CHR 0x22 # concat (map escape_char s) @ CHR 0x22 # r" by (simp add: q_def quoted_body)
  have "lex_case F (CHR 0x22) (concat (map escape_char s) @ CHR 0x22 # r) = (True, tokenString, r)"
    by (simp add: lex_case_def readString_def readString_quoted)
  then show ?thesis by (simp add: readToken_def q getNextChar_def is_space_def)
qed

lemma token_text_append [simp]: "token_text \<lparr>tok_type = ty, tok_start = s @ r, tok_end = r\<rparr> = s"
  by (simp add: token_text_def)

end
