(* ===== verification/Json_Gap.thy ===== *)
theory Json_Gap
  imports Json_Reader
begin

text \<open>
  The texts between the tokens of a document: white space and comments. \<open>gap\<close> generates those that a
  reader with comments on skips, \<open>sep\<close> those that a given reader skips. The comments of a value, which
  the writers put between its tokens, are gaps but for the line feed that \<^verbatim>\<open>setComment\<close> drops.
\<close>

section \<open>White space and comments\<close>

abbreviation blank :: "string \<Rightarrow> bool" where
  "blank \<equiv> list_all is_space"

text \<open>Whether a text holds the end of a block comment.\<close>

fun closes :: "string \<Rightarrow> bool" where
  "closes [] \<longleftrightarrow> False"
| "closes (c # s) \<longleftrightarrow> c = CHR ''*'' \<and> peekChar s = CHR ''/'' \<or> closes s"

inductive gap :: "string \<Rightarrow> bool" where
  empty: "gap []"
| space: "is_space c \<Longrightarrow> gap s \<Longrightarrow> gap (c # s)"
| line: "CHR 0x0A \<notin> set t \<Longrightarrow> CHR 0x0D \<notin> set t \<Longrightarrow> gap s \<Longrightarrow> gap (CHR ''/'' # CHR ''/'' # t @ CHR 0x0A # s)"
| block: "\<not> closes t \<Longrightarrow> gap s \<Longrightarrow> gap (CHR ''/'' # CHR ''*'' # t @ CHR ''*'' # CHR ''/'' # s)"

definition sep :: "bool \<Rightarrow> string \<Rightarrow> bool" where
  "sep comments s \<longleftrightarrow> blank s \<or> comments \<and> gap s"

lemma is_space_NL: "is_space (CHR 0x0A)"
  by (simp add: is_space_def)

lemma gap_append: "gap s \<Longrightarrow> gap r \<Longrightarrow> gap (s @ r)"
  by (induction rule: gap.induct) (auto intro: gap.intros)

lemma gap_blank: "blank s \<Longrightarrow> gap s"
  by (induction s) (auto intro: gap.intros)

lemma sep_append: "sep cm s \<Longrightarrow> sep cm r \<Longrightarrow> sep cm (s @ r)"
  by (auto simp: sep_def intro: gap_append gap_blank)

lemma sep_blank: "blank s \<Longrightarrow> sep cm s"
  by (simp add: sep_def)

lemma sep_Nil [simp]: "sep cm []"
  by (simp add: sep_def)

lemma sep_NL: "blank a \<Longrightarrow> sep cm (u @ [CHR 0x0A]) \<Longrightarrow> sep cm (u @ CHR 0x0A # a)"
  using sep_append [of cm "u @ [CHR 0x0A]" a] by (simp add: sep_blank)

text \<open>A gap begins with white space or with a comment.\<close>

lemma gap_ConsE:
  assumes "gap (c # s)"
  obtains "is_space c" "gap s" | "\<not> is_space c" "c = CHR ''/''"
  using assms by cases (auto simp: is_space_def)

lemma gap_skipSpaces: "gap s \<Longrightarrow> gap (skipSpaces s)"
  by (induction s) (auto elim: gap_ConsE)

lemma sep_skipSpaces: "sep cm s \<Longrightarrow> sep cm (skipSpaces s)"
  by (induction s) (auto simp: sep_def gap_skipSpaces elim: gap_ConsE)

section \<open>Comments on lines of their own\<close>

text \<open>\<open>comment_lines indentString s\<close> is \<open>s\<close> with the indentation put before every line that begins with a slash.\<close>

fun comment_lines :: "string \<Rightarrow> string \<Rightarrow> string" where
  "comment_lines indentString [] = []"
| "comment_lines indentString (c # s) =
     c # (if c = CHR 0x0A \<and> peekChar s = CHR ''/'' then indentString else []) @ comment_lines indentString s"

lemma comment_lines_flat: "CHR 0x0A \<notin> set t \<Longrightarrow> comment_lines i (t @ s) = t @ comment_lines i s"
  by (induction t) auto

lemma peek_comment_lines: "peekChar (comment_lines i s) = peekChar s"
  by (cases s) (simp_all add: peekChar_def)

lemma comment_lines_block:
  assumes "blank i"
  shows "\<exists>t'. comment_lines i (t @ CHR ''*'' # s) = t' @ CHR ''*'' # comment_lines i s \<and> closes t' = closes t \<and>
    (t = [] \<longleftrightarrow> t' = []) \<and> peekChar t' = peekChar t"
proof (induction t)
  case (Cons c t)
  then obtain t' where t': "comment_lines i (t @ CHR ''*'' # s) = t' @ CHR ''*'' # comment_lines i s"
      "closes t' = closes t" "t = [] \<longleftrightarrow> t' = []" "peekChar t' = peekChar t" by blast
  let ?i = "if c = CHR 0x0A \<and> peekChar (t @ CHR ''*'' # s) = CHR ''/'' then i else []"
  have "closes (a @ t') = closes t'" if "blank a" for a
    using that by (induction a) (auto simp: is_space_def)
  then have "closes (c # ?i @ t') = closes (c # t)" using t'(2,4) assms by auto
  with t' show ?case by (intro exI [of _ "c # ?i @ t'"]) (simp add: peekChar_def)
qed (simp add: peekChar_def)

lemma gap_comment_lines: "gap s \<Longrightarrow> blank i \<Longrightarrow> gap (comment_lines i s)"
proof (induction s rule: gap.induct)
  case (space c s)
  then show ?case by (auto intro: gap.space gap_append gap_blank)
next
  case (line t s)
  let ?i = "if peekChar s = CHR ''/'' then i else []"
  have "gap (CHR ''/'' # CHR ''/'' # t @ CHR 0x0A # ?i @ comment_lines i s)"
    using line gap_append [OF gap_blank [of ?i]] by (intro gap.line) auto
  then show ?case using line(1) by (simp add: comment_lines_flat peekChar_def)
next
  case (block t s)
  obtain t' where t': "comment_lines i (t @ CHR ''*'' # CHR ''/'' # s) = t' @ CHR ''*'' # comment_lines i (CHR ''/'' # s)"
      "closes t' = closes t" using comment_lines_block [OF block.prems] by blast
  have "gap (CHR ''/'' # CHR ''*'' # t' @ CHR ''*'' # CHR ''/'' # comment_lines i s)"
    using block t' by (intro gap.block) auto
  then show ?case using t' by simp
qed (auto intro: gap.intros)

lemma comment_lines_NL: "comment_lines i (s @ [CHR 0x0A]) = comment_lines i s @ [CHR 0x0A]"
  by (induction s) (auto simp: peekChar_def NUL_def hd_append split: list.splits)

section \<open>A reader skips them\<close>

lemma readCpp_line: "CHR 0x0A \<notin> set t \<Longrightarrow> CHR 0x0D \<notin> set t \<Longrightarrow> readCppStyleComment (t @ CHR 0x0A # s) = s"
  by (induction t) auto

lemma cStyle_block: "\<not> closes t \<Longrightarrow> cStyle_loop (t @ CHR ''*'' # CHR ''/'' # s) = CHR ''/'' # s"
  by (induction t) (auto simp: peekChar_def hd_append split: if_splits list.splits)

lemma readToken_slash:
  assumes "readComment s = (True, s')"
  shows "readToken F (CHR ''/'' # s) = (\<lparr>tok_type = tokenComment, tok_start = CHR ''/'' # s, tok_end = s'\<rparr>, s')"
  using assms by (simp add: readToken_def getNextChar_def lex_case_def is_space_def is_digit_def less_eq_char_def)

lemma skipComments_same: "readToken F s = readToken F s' \<Longrightarrow> skipComments F s = skipComments F s'"
  by (simp add: skipComments.simps [of F s] skipComments.simps [of F s'])

lemma skipSpaces_blank: "blank a \<Longrightarrow> skipSpaces (a @ s) = skipSpaces s"
  by (induction a) simp_all

lemma readToken_blank: "blank a \<Longrightarrow> readToken F (a @ s) = readToken F s"
  by (simp add: readToken_def skipSpaces_blank)

lemma skipComments_gap: "gap a \<Longrightarrow> skipComments F (a @ s) = skipComments F s"
proof (induction a rule: gap.induct)
  case (space c a)
  then show ?case using skipComments_same [OF readToken_blank [of "[c]" F "a @ s"]] by simp
next
  case (line t a)
  then have "readComment (CHR ''/'' # t @ CHR 0x0A # a @ s) = (True, a @ s)"
    by (simp add: readComment_def getNextChar_def readCpp_line)
  from readToken_slash [OF this] line.IH show ?case
    by (simp add: skipComments.simps [of F "CHR ''/'' # x" for x])
next
  case (block t a)
  then have "readComment (CHR ''*'' # t @ CHR ''*'' # CHR ''/'' # a @ s) = (True, a @ s)"
    by (simp add: readComment_def getNextChar_def readCStyleComment_def cStyle_block)
  from readToken_slash [OF this] block.IH show ?case
    by (simp add: skipComments.simps [of F "CHR ''/'' # x" for x])
qed simp

text \<open>At the end of the document the last line feed may be missing.\<close>

lemma skipComments_end: "gap a \<Longrightarrow> a = b @ [CHR 0x0A] \<Longrightarrow> skipComments F b = skipComments F []"
proof (induction a arbitrary: b rule: gap.induct)
  case (space c a)
  show ?case
  proof (cases b)
    case (Cons d b')
    then show ?thesis using space skipComments_same [OF readToken_blank [of "[c]" F b']] by simp
  qed simp
next
  case (line t a)
  show ?case
  proof (cases a rule: rev_cases)
    case Nil
    then have b: "b = CHR ''/'' # CHR ''/'' # t" using line.prems by simp
    have "readCppStyleComment t = []" using line.hyps(1,2) by (induction t) auto
    then have "readComment (CHR ''/'' # t) = (True, [])" by (simp add: readComment_def getNextChar_def)
    from readToken_slash [OF this] show ?thesis by (simp add: b skipComments.simps [of F "CHR ''/'' # x" for x])
  next
    case (snoc a' d)
    then have b: "b = CHR ''/'' # CHR ''/'' # t @ CHR 0x0A # a'" "a = a' @ [CHR 0x0A]" using line.prems by auto
    have "gap (CHR ''/'' # CHR ''/'' # t @ [CHR 0x0A])" using gap.line [OF line.hyps(1,2) gap.empty] .
    from skipComments_gap [OF this, of F a'] line.IH [OF b(2)] show ?thesis by (simp add: b)
  qed
next
  case (block t a)
  then obtain a' where b: "b = CHR ''/'' # CHR ''*'' # t @ CHR ''*'' # CHR ''/'' # a'" "a = a' @ [CHR 0x0A]"
    by (cases a rule: rev_cases) auto
  have "gap (CHR ''/'' # CHR ''*'' # t @ CHR ''*'' # ''/'')" using gap.block [OF block.hyps(1) gap.empty] .
  from skipComments_gap [OF this, of F a'] block.IH [OF b(2)] show ?case by (simp add: b)
qed simp

lemma skipComments_sep:
  assumes "sep (allowComments F) a"
  shows "skipComments F (a @ s) = skipComments F s" and "skipCommentTokens F (a @ s) = skipCommentTokens F s"
proof -
  have blank: "skipComments F (a @ s) = skipComments F s" if "blank a"
    using skipComments_same [OF readToken_blank [OF that]] .
  with assms skipComments_gap show "skipComments F (a @ s) = skipComments F s" by (auto simp: sep_def)
  then show "skipCommentTokens F (a @ s) = skipCommentTokens F s"
    using assms readToken_blank [of a F s] by (auto simp: skipCommentTokens_def sep_def)
qed

lemma skipCommentTokens_end:
  assumes "sep (allowComments F) (b @ [CHR 0x0A])"
  shows "tok_type (fst (skipCommentTokens F b)) = tokenEndOfStream"
proof -
  have eof: "tok_type (fst (readToken F [])) = tokenEndOfStream"
    by (simp add: readToken_def getNextChar_def lex_case_def is_space_def is_digit_def less_eq_char_def NUL_def)
  then have "skipComments F [] = readToken F []" by (simp add: skipComments.simps [of F "[]"])
  with eof readToken_blank [of b F "[]"] skipComments_end [of "b @ [CHR 0x0A]" b F] assms
  show ?thesis by (auto simp: sep_def skipCommentTokens_def skipComments.simps [of F b])
qed

end
