(* ===== verification/Json_Roundtrip.thy ===== *)
theory Json_Roundtrip
  imports Json_Writer Json_Gap
begin

text \<open>
  The reader inverts the writers. \<open>layout\<close> relates a value in the form the reader builds to every text
  that holds its tokens in order with white space, and comments where the reader takes them, between
  them; \<^verbatim>\<open>OurReader\<close>, with any features, reads
  each of them as the value and without an error, as long as the value is not nested deeper than the
  stack limit (\<open>parse_layout\<close>). \<^verbatim>\<open>FastWriter\<close>, with any setting that keeps nulls, writes such a text.
\<close>

section \<open>The tokens the writer produces\<close>

text \<open>What may follow a value in a written document.\<close>

definition stops :: "string \<Rightarrow> bool" where
  "stops r \<longleftrightarrow> r = [] \<or> hd r \<in> {CHR '','', CHR '']'', CHR ''}'', CHR ''/''} \<or> is_space (hd r)"

lemma stops_sep: "sep cm a \<Longrightarrow> stops r \<Longrightarrow> stops (a @ r)"
  by (cases a) (auto simp: stops_def sep_def elim: gap_ConsE)

lemma readToken_punct:
  "readToken F (CHR ''['' # r) = (\<lparr>tok_type = tokenArrayBegin, tok_start = CHR ''['' # r, tok_end = r\<rparr>, r)"
  "readToken F (CHR '']'' # r) = (\<lparr>tok_type = tokenArrayEnd, tok_start = CHR '']'' # r, tok_end = r\<rparr>, r)"
  "readToken F (CHR ''{'' # r) = (\<lparr>tok_type = tokenObjectBegin, tok_start = CHR ''{'' # r, tok_end = r\<rparr>, r)"
  "readToken F (CHR ''}'' # r) = (\<lparr>tok_type = tokenObjectEnd, tok_start = CHR ''}'' # r, tok_end = r\<rparr>, r)"
  "readToken F (CHR '','' # r) = (\<lparr>tok_type = tokenArraySeparator, tok_start = CHR '','' # r, tok_end = r\<rparr>, r)"
  "readToken F (CHR '':'' # r) = (\<lparr>tok_type = tokenMemberSeparator, tok_start = CHR '':'' # r, tok_end = r\<rparr>, r)"
  by (simp_all add: readToken_def getNextChar_def lex_case_def is_space_def is_digit_def less_eq_char_def)

lemma readToken_words:
  "readToken F (''null'' @ r) = (\<lparr>tok_type = tokenNull, tok_start = ''null'' @ r, tok_end = r\<rparr>, r)"
  "readToken F (''true'' @ r) = (\<lparr>tok_type = tokenTrue, tok_start = ''true'' @ r, tok_end = r\<rparr>, r)"
  "readToken F (''false'' @ r) = (\<lparr>tok_type = tokenFalse, tok_start = ''false'' @ r, tok_end = r\<rparr>, r)"
  by (simp_all add: readToken_def getNextChar_def lex_case_def is_space_def is_digit_def less_eq_char_def match_def)

lemma skipDigits_append: "list_all is_digit s \<Longrightarrow> skipDigits (s @ r) = skipDigits r"
  by (induction s) auto

lemma stops_number:
  assumes "stops r"
  shows "skipDigits r = r" and "readFraction r = r" and "readExponent r = r"
  using assms by (cases r; auto simp: stops_def is_space_def is_digit_def less_eq_char_def readFraction_def readExponent_def)+

lemma digit_others:
  "is_digit c \<Longrightarrow> c \<noteq> CHR ''{'' \<and> c \<noteq> CHR ''}'' \<and> c \<noteq> CHR ''['' \<and> c \<noteq> CHR '']'' \<and> c \<noteq> CHR 0x22 \<and>
     c \<noteq> CHR 0x27 \<and> c \<noteq> CHR ''/''"
  by (auto simp: is_digit_def less_eq_char_def)

lemma lex_case_digit:
  assumes "is_digit c"
  shows "lex_case F c rest = (True, tokenNumber, snd (readNumber False rest))"
  using assms digit_others [OF assms] by (simp add: lex_case_def)

lemma digit_not_space: "is_digit c \<Longrightarrow> \<not> is_space c"
  by (auto simp: is_digit_def is_space_def less_eq_char_def)

lemma to_string_nat_Cons:
  obtains d ds where "to_string_nat n = d # ds" "is_digit d" "list_all is_digit ds"
  using to_string_nat_head [of n] to_string_nat_digits [of n] by (cases "to_string_nat n") auto

lemma readToken_number:
  assumes "stops r"
  shows "readToken F (to_string_int k @ r) =
    (\<lparr>tok_type = tokenNumber, tok_start = to_string_int k @ r, tok_end = r\<rparr>, r)"
proof -
  obtain d ds where n: "to_string_nat (nat \<bar>k\<bar>) = d # ds" and d: "is_digit d" "list_all is_digit ds"
    by (rule to_string_nat_Cons)
  have scan: "readNumber b (s @ r) = (True, r)" if "list_all is_digit s" "s = [] \<longrightarrow> \<not> b" for b s
  proof -
    have "\<not> (b \<and> s @ r \<noteq> [] \<and> hd (s @ r) = CHR ''I'')"
      using that by (cases s) (auto simp: is_digit_def less_eq_char_def)
    then have "readNumber b (s @ r) = (True, readExponent (readFraction (skipDigits (s @ r))))"
      unfolding readNumber_def by simp
    then show ?thesis using that(1) by (simp add: skipDigits_append stops_number [OF assms])
  qed
  show ?thesis
  proof (cases "k < 0")
    case True
    have "readNumber True (d # ds @ r) = (True, r)" using scan [of "d # ds" True] d by simp
    then show ?thesis using True n
      by (simp add: to_string_int_def readToken_def getNextChar_def lex_case_def is_space_def is_digit_def less_eq_char_def)
  next
    case False
    then show ?thesis using n d scan [of ds False]
      by (simp add: to_string_int_def readToken_def getNextChar_def lex_case_digit digit_not_space)
  qed
qed

lemma skipComments_other:
  assumes "readToken F s = (t, s')" and "tok_type t \<noteq> tokenComment"
  shows "skipComments F s = (t, s')" and "skipCommentTokens F s = (t, s')"
  using assms by (simp_all add: skipComments.simps [of F s] skipCommentTokens_def)

text \<open>What separates the tokens is skipped before a value, before a name, and after a member's value.\<close>

lemma readValue_sep:
  "sep (allowComments F) a \<Longrightarrow> readValue n F L (st\<lparr>rd_current := a @ s\<rparr>) v0 = readValue n F L (st\<lparr>rd_current := s\<rparr>) v0"
  by (cases n) (simp_all add: readValue_body_def skipComments_sep)

lemma readObject_sep:
  "sep (allowComments F) a \<Longrightarrow> readObject n F L (st\<lparr>rd_current := a @ s\<rparr>) name v = readObject n F L (st\<lparr>rd_current := s\<rparr>) name v"
  by (cases n) (simp_all add: readObject_body_def skipComments_sep)

lemma readObject_next_skip:
  assumes "skipComments F s = (t, s')" and "tok_type t \<in> {tokenObjectEnd, tokenArraySeparator}"
  shows "readObject_next again F name v1 (True, st\<lparr>rd_current := s\<rparr>, x) =
    (let v2 = member_store name x v1; st' = st\<lparr>rd_current := s'\<rparr> in
     if tok_type t = tokenObjectEnd then Some (Ret (True, st', v2)) else again st' name v2)"
proof (cases "tok_type (fst (readToken F s)) = tokenComment")
  case True
  with assms show ?thesis
    by (cases "readToken F s") (auto simp: readObject_next_def skipComments.simps [of F s])
next
  case False
  with assms show ?thesis by (auto simp: readObject_next_def skipComments.simps [of F s])
qed

section \<open>The values the writer can reproduce\<close>

text \<open>
  Values as the reader builds them: arrays without gaps, objects with their names in order, a
  non-negative number kept signed exactly when it fits \<^verbatim>\<open>int\<close>. Reals are left out: their text is the C
  library's.
\<close>

fun canonical :: "Value \<Rightarrow> bool" where
  "canonical (IntV i) \<longleftrightarrow> sint i \<le> maxInt"
| "canonical (UIntV u) \<longleftrightarrow> maxInt < uint u"
| "canonical (RealV d) \<longleftrightarrow> False"
| "canonical (StringV s) \<longleftrightarrow> int (length s) \<le> maxInt - 4 - 1"
| "canonical (ArrayV m) \<longleftrightarrow> m = enumerate 0 (map snd m) \<and> length m < 2 ^ 31 \<and> list_all (\<lambda>e. canonical (snd e)) m"
| "canonical (ObjectV m) \<longleftrightarrow> map_inv m \<and> length m < 2 ^ 32 \<and> list_all (\<lambda>e. int (length (fst e)) < 2 ^ 30 \<and> canonical (snd e)) m"
| "canonical _ \<longleftrightarrow> True"

fun nest :: "Value \<Rightarrow> nat" where
  "nest (ArrayV m) = Suc (foldr (\<lambda>e n. max (nest (snd e)) n) m 0)"
| "nest (ObjectV m) = Suc (foldr (\<lambda>e n. max (nest (snd e)) n) m 0)"
| "nest _ = 1"

lemma nest_entry: "e \<in> set m \<Longrightarrow> nest (snd e) \<le> foldr (\<lambda>e n. max (nest (snd e)) n) m 0"
  by (induction m) auto

section \<open>Layouts of a value\<close>

text \<open>
  The texts that stand for a value: its tokens in order, with any white space around the elements
  of an array, and around the names and the values of an object's members. Comments, if there are
  any, stand where white space may, but for the inside of an empty array and the way from a name to its colon.
\<close>

record element =
  el_value :: Value
  el_before :: string
  el_text :: string
  el_after :: string

record member = element +
  mb_name :: string
  mb_start :: string
  mb_colon :: string

definition element_text :: "'a element_scheme \<Rightarrow> string" where
  "element_text e = el_before e @ el_text e @ el_after e"

definition member_text :: "member \<Rightarrow> string" where
  "member_text e = mb_start e @ valueToQuotedStringN (mb_name e) @ mb_colon e @ CHR '':'' # element_text e"

definition member_entry :: "member \<Rightarrow> string \<times> Value" where
  "member_entry e = (mb_name e, el_value e)"

inductive layout :: "bool \<Rightarrow> Value \<Rightarrow> string \<Rightarrow> bool" for cm :: bool where
  null: "layout cm NullV ''null''"
| bool: "layout cm (BoolV b) (valueToString_bool b)"
| int: "sint i \<le> maxInt \<Longrightarrow> layout cm (IntV i) (valueToString_int i)"
| uint: "maxInt < uint u \<Longrightarrow> layout cm (UIntV u) (valueToString_uint u)"
| string: "int (length s) \<le> maxInt - 4 - 1 \<Longrightarrow> layout cm (StringV s) (valueToQuotedStringN s)"
| no_element: "blank a \<Longrightarrow> layout cm (ArrayV []) (CHR ''['' # a @ '']'')"
| elements: "(es :: element list) \<noteq> [] \<Longrightarrow> \<forall>e\<in>set es. layout cm (el_value e) (el_text e) \<and> sep cm (el_before e) \<and> sep cm (el_after e) \<Longrightarrow>
    layout cm (ArrayV (enumerate 0 (map el_value es))) (CHR ''['' # comma_separated (map element_text es) @ '']'')"
| no_member: "blank a \<Longrightarrow> layout cm (ObjectV []) (CHR ''{'' # a @ ''}'')"
| members: "ms \<noteq> [] \<Longrightarrow> map_inv (map member_entry ms) \<Longrightarrow>
    \<forall>e\<in>set ms. layout cm (el_value e) (el_text e) \<and> int (length (mb_name e)) < 2 ^ 30 \<and>
      sep cm (el_before e) \<and> sep cm (el_after e) \<and> sep cm (mb_start e) \<and> blank (mb_colon e) \<Longrightarrow>
    layout cm (ObjectV (map member_entry ms)) (CHR ''{'' # comma_separated (map member_text ms) @ ''}'')"

text \<open>A layout begins with a byte that is neither white space nor a closing bracket.\<close>

lemma layout_head:
  assumes "layout cm v s"
  obtains c s' where "s = c # s'" "\<not> is_space c" "c \<noteq> CHR '']''"
proof -
  have number: "\<exists>c s. to_string_int k = c # s \<and> \<not> is_space c \<and> c \<noteq> CHR '']''" for k
  proof -
    obtain d ds where "to_string_nat (nat k) = d # ds" "is_digit d" by (rule to_string_nat_Cons)
    then show ?thesis
      using digit_not_space [of d] digit_others [of d] by (cases "k < 0") (simp_all add: to_string_int_def is_space_def)
  qed
  have unsigned: "to_string_nat (unat u) = to_string_int (uint u)" for u :: u64
    by (simp add: to_string_int_def)
  have "\<exists>c s'. s = c # s' \<and> \<not> is_space c \<and> c \<noteq> CHR '']''"
    using assms
    by cases (use number in \<open>simp_all add: is_space_def valueToString_bool_def quoted_body valueToString_int_exact
        valueToString_uint_exact unsigned\<close>)
  then show thesis using that by blast
qed

section \<open>Reading a layout\<close>

definition reads :: "OurFeatures \<Rightarrow> libc \<Rightarrow> string \<Rightarrow> Value \<Rightarrow> bool" where
  "reads F L s v \<longleftrightarrow> (\<forall>n st r v0. stops r \<longrightarrow> 2 * length (s @ r) < n \<longrightarrow>
     rd_stackDepth st + int (nest v) \<le> stackLimit F \<longrightarrow>
     readValue n F L (st\<lparr>rd_current := s @ r\<rparr>) v0 = Some (Ret (True, st\<lparr>rd_current := r\<rparr>, v)))"

lemma readsD:
  "reads F L s v \<Longrightarrow> stops r \<Longrightarrow> 2 * length (s @ r) < n \<Longrightarrow>
     rd_stackDepth st + int (nest v) \<le> stackLimit F \<Longrightarrow>
     readValue n F L (st\<lparr>rd_current := s @ r\<rparr>) v0 = Some (Ret (True, st\<lparr>rd_current := r\<rparr>, v))"
  by (simp add: reads_def)

text \<open>A value written as one token.\<close>

lemma reads_scalar:
  assumes tok: "\<And>r. stops r \<Longrightarrow> readToken F (s @ r) = (\<lparr>tok_type = ty, tok_start = s @ r, tok_end = r\<rparr>, r)"
    and ty: "ty \<in> set scalar_tokens" and nest: "nest v = 1"
    and dec: "\<And>r st v0. stops r \<Longrightarrow>
      read_scalar L \<lparr>tok_type = ty, tok_start = s @ r, tok_end = r\<rparr> st v0 = Ret (True, st, v)"
  shows "reads F L s v"
  unfolding reads_def
proof (intro allI impI)
  fix n :: nat and st :: OurReader and r :: string and v0
  assume r: "stops r" and n: "2 * length (s @ r) < n"
    and d: "rd_stackDepth st + int (nest v) \<le> stackLimit F"
  obtain k where k: "n = Suc k" using n by (cases n) simp_all
  have other: "ty \<noteq> tokenComment" "ty \<noteq> tokenObjectBegin" "ty \<noteq> tokenArrayBegin"
    using ty by (auto simp: scalar_tokens_def)
  note t = skipComments_other(2) [OF tok [OF r], simplified, OF other(1)]
  show "readValue n F L (st\<lparr>rd_current := s @ r\<rparr>) v0 = Some (Ret (True, st\<lparr>rd_current := r\<rparr>, v))"
    using d nest ty other by (simp add: k readValue_body_def t dec [OF r] obind_def Let_def)
qed

lemma reads_string:
  assumes "int (length s) \<le> maxInt - 4 - 1"
  shows "reads F L (valueToQuotedStringN s) (StringV s)"
proof (rule reads_scalar)
  show "tokenString \<in> set scalar_tokens" by (simp add: scalar_tokens_def)
  have "Value_of_string s = Ret (StringV s)"
    using assms by (simp add: Value_of_string_def Let_def JSON_ASSERT_MESSAGE_def maxInt_def)
  then show "read_scalar L \<lparr>tok_type = tokenString, tok_start = valueToQuotedStringN s @ r, tok_end = r\<rparr> st v0 =
      Ret (True, st, StringV s)" for r st v0
    by (simp add: read_scalar_def decodeString_quoted)
qed (simp_all add: readToken_quoted)

lemma reads_number:
  assumes "- (2 ^ 63) \<le> k" and "k < 2 ^ 64"
  shows "reads F L (to_string_int k) (if k \<le> maxInt then IntV (word_of_int k) else UIntV (word_of_int k))"
proof (rule reads_scalar)
  show "tokenNumber \<in> set scalar_tokens" by (simp add: scalar_tokens_def)
  show "read_scalar L \<lparr>tok_type = tokenNumber, tok_start = to_string_int k @ r, tok_end = r\<rparr> st v0 =
      Ret (True, st, if k \<le> maxInt then IntV (word_of_int k) else UIntV (word_of_int k))" for r st v0
    by (simp add: read_scalar_def decodeNumber_canonical [OF _ assms])
qed (simp_all add: readToken_number)

lemma reads_int: "sint i \<le> maxInt \<Longrightarrow> reads F L (valueToString_int i) (IntV i)"
  using reads_number [of "sint i" F L] sint_greater_eq [of i] sint_less [of i] by (simp add: valueToString_int_exact)

lemma reads_uint: "maxInt < uint u \<Longrightarrow> reads F L (valueToString_uint u) (UIntV u)"
  using reads_number [of "uint u" F L] uint_bounded [of u] order_trans [of "- (2 ^ 63)" 0 "uint u"]
  by (simp add: valueToString_uint_exact to_string_int_def)

lemma reads_null: "reads F L ''null'' NullV"
  by (rule reads_scalar [where ty = tokenNull]) (simp_all add: readToken_words [simplified] scalar_tokens_def read_scalar_def)

lemma reads_bool: "reads F L (valueToString_bool b) (BoolV b)"
  by (rule reads_scalar [where ty = "if b then tokenTrue else tokenFalse"])
    (simp_all add: readToken_words [simplified] scalar_tokens_def read_scalar_def valueToString_bool_def)

text \<open>Arrays: the loop of \<^verbatim>\<open>readArray\<close> appends one element after the other.\<close>

lemma map_put_snoc: "\<forall>k'\<in>set (map_keys m). k' < k \<Longrightarrow> map_put k v (m @ [(k, u)]) = m @ [(k, v)]"
  by (induction m) (auto simp: map_keys_def)

lemma map_keys_enumerate: "map_keys (enumerate n xs) = [n..<n + length xs]"
  by (simp add: map_keys_def)

lemma array_slot:
  "index_ref (length ys) (ArrayV (enumerate 0 ys)) = Ret (ArrayV (enumerate 0 ys @ [(length ys, NullV)]), NullV)"
  "index_store (length ys) x (ArrayV (enumerate 0 ys @ [(length ys, NullV)])) = ArrayV (enumerate 0 (ys @ [x]))"
proof -
  have keys: "\<forall>k'\<in>set (map_keys (enumerate 0 ys)). k' < length ys" by (simp add: map_keys_enumerate)
  then have "map_find (length ys) (enumerate 0 ys) = None" by (auto simp: map_find_None)
  with keys show "index_ref (length ys) (ArrayV (enumerate 0 ys)) =
      Ret (ArrayV (enumerate 0 ys @ [(length ys, NullV)]), NullV)"
    by (simp add: index_ref_def JSON_ASSERT_MESSAGE_def isArray_def type_of_def map_put_last)
  from keys show "index_store (length ys) x (ArrayV (enumerate 0 ys @ [(length ys, NullV)])) = ArrayV (enumerate 0 (ys @ [x]))"
    by (simp add: index_store_def map_put_snoc enumerate_append_eq)
qed

lemma readArray_elements:
  assumes "es \<noteq> []" and "\<forall>e\<in>set es. reads F L (el_text e) (el_value e) \<and> sep (allowComments F) (el_before e) \<and> sep (allowComments F) (el_after e) \<and>
      rd_stackDepth st + int (nest (el_value e)) \<le> stackLimit F"
    and "2 * length (comma_separated (map element_text es) @ CHR '']'' # r) + 1 < n"
  shows "readArray n F L (st\<lparr>rd_current := comma_separated (map element_text es) @ CHR '']'' # r\<rparr>)
      (length ys) (ArrayV (enumerate 0 ys)) =
    Some (Ret (True, st\<lparr>rd_current := r\<rparr>, ArrayV (enumerate 0 (ys @ map el_value es))))"
  using assms
proof (induction es arbitrary: ys n)
  case (Cons e es)
  obtain k where k: "n = Suc k" using Cons.prems(3) by (cases n) simp_all
  let ?x = "el_value e" and ?t = "el_text e"
  let ?next = "if es = [] then CHR '']'' # r else CHR '','' # comma_separated (map element_text es) @ CHR '']'' # r"
  let ?rest = "el_after e @ ?next"
  have doc: "comma_separated (map element_text (e # es)) @ CHR '']'' # r = el_before e @ ?t @ ?rest"
    by (cases es) (simp_all add: element_text_def)
  have e: "reads F L ?t ?x" "sep (allowComments F) (el_before e)" "sep (allowComments F) (el_after e)"
      "rd_stackDepth st + int (nest ?x) \<le> stackLimit F"
    using Cons.prems(2) by simp_all
  have stops: "stops ?rest" by (rule stops_sep [OF e(3)]) (simp add: stops_def)
  have fuel: "2 * length (?t @ ?rest) < k" using Cons.prems(3) by (simp only: doc k) simp
  have first: "readValue k F L (st\<lparr>rd_current := el_before e @ ?t @ ?rest\<rparr>) NullV =
      Some (Ret (True, st\<lparr>rd_current := ?rest\<rparr>, ?x))"
    unfolding readValue_sep [OF e(2)] by (rule readsD [OF e(1) stops fuel e(4)])
  show ?case
  proof (cases "es = []")
    case True
    then show ?thesis unfolding doc using first
      by (simp add: k readArray_body_def array_slot readArray_next_def obind_def skipComments_sep(1) [OF e(3)]
          skipComments_other(1) [OF readToken_punct(2)])
  next
    case False
    have "readArray k F L (st\<lparr>rd_current := comma_separated (map element_text es) @ CHR '']'' # r\<rparr>)
        (length (ys @ [?x])) (ArrayV (enumerate 0 (ys @ [?x]))) =
      Some (Ret (True, st\<lparr>rd_current := r\<rparr>, ArrayV (enumerate 0 ((ys @ [?x]) @ map el_value es))))"
      using Cons.prems fuel False by (intro Cons.IH) simp_all
    with False first show ?thesis unfolding doc
      by (simp add: k readArray_body_def array_slot readArray_next_def obind_def skipComments_sep(1) [OF e(3)]
          skipComments_other(1) [OF readToken_punct(5)] del: comma_separated.simps)
  qed
qed simp

text \<open>Objects: likewise, one member after the other, their names in order.\<close>

lemma CZString_key: "int (length k) < 2 ^ 30 \<Longrightarrow> CZString k = k"
  by (simp add: CZString_def)

lemma member_slot:
  assumes "\<forall>k'\<in>set (map_keys m). k' < k" and "int (length k) < 2 ^ 30"
  shows "isMember k (ObjectV m) = Ret False"
    and "resolveReference k (ObjectV m) = Ret (ObjectV (m @ [(k, NullV)]), NullV)"
    and "member_store k x (ObjectV (m @ [(k, NullV)])) = ObjectV (m @ [(k, x)])"
proof -
  have "map_find k m = None" using assms(1) by (auto simp: map_find_None)
  with assms show "isMember k (ObjectV m) = Ret False"
    "resolveReference k (ObjectV m) = Ret (ObjectV (m @ [(k, NullV)]), NullV)"
    "member_store k x (ObjectV (m @ [(k, NullV)])) = ObjectV (m @ [(k, x)])"
    by (simp_all add: isMember_def json_find_def resolveReference_def member_store_def JSON_ASSERT_MESSAGE_def
        isObject_def type_of_def CZString_key map_put_last map_put_snoc)
qed

lemma readObject_members:
  assumes "ms \<noteq> []" and "map_inv (m @ map member_entry ms)"
    and "\<forall>e\<in>set ms. reads F L (el_text e) (el_value e) \<and> rd_stackDepth st + int (nest (el_value e)) \<le> stackLimit F \<and>
      int (length (mb_name e)) < 2 ^ 30 \<and> sep (allowComments F) (el_before e) \<and> sep (allowComments F) (el_after e) \<and> sep (allowComments F) (mb_start e) \<and> blank (mb_colon e)"
    and "2 * length (comma_separated (map member_text ms) @ CHR ''}'' # r) + 1 < n"
  shows "readObject n F L (st\<lparr>rd_current := comma_separated (map member_text ms) @ CHR ''}'' # r\<rparr>) nm (ObjectV m) =
    Some (Ret (True, st\<lparr>rd_current := r\<rparr>, ObjectV (m @ map member_entry ms)))"
  using assms
proof (induction ms arbitrary: m n nm)
  case (Cons e es)
  obtain j where j: "n = Suc j" using Cons.prems(4) by (cases n) simp_all
  let ?x = "el_value e" and ?t = "el_text e" and ?k = "mb_name e"
  let ?next = "if es = [] then CHR ''}'' # r else CHR '','' # comma_separated (map member_text es) @ CHR ''}'' # r"
  let ?rest = "el_after e @ ?next"
  have doc: "comma_separated (map member_text (e # es)) @ CHR ''}'' # r =
      mb_start e @ valueToQuotedStringN ?k @ mb_colon e @ CHR '':'' # el_before e @ ?t @ ?rest"
    by (cases es) (simp_all add: member_text_def element_text_def)
  have e: "reads F L ?t ?x" "rd_stackDepth st + int (nest ?x) \<le> stackLimit F" "int (length ?k) < 2 ^ 30"
      "sep (allowComments F) (el_before e)" "sep (allowComments F) (el_after e)" "sep (allowComments F) (mb_start e)" "blank (mb_colon e)"
    using Cons.prems(3) by simp_all
  have keys: "\<forall>k'\<in>set (map_keys m). k' < ?k"
    using Cons.prems(2) by (auto simp: map_inv_def set_inv_def sorted_wrt_append map_keys_def member_entry_def)
  have stops: "stops ?rest" by (rule stops_sep [OF e(5)]) (simp add: stops_def)
  have fuel: "2 * length (?t @ ?rest) < j" using Cons.prems(4) by (simp only: doc j) (simp add: quoted_body)
  have first: "readValue j F L (st\<lparr>rd_current := el_before e @ ?t @ ?rest\<rparr>) NullV =
      Some (Ret (True, st\<lparr>rd_current := ?rest\<rparr>, ?x))"
    unfolding readValue_sep [OF e(4)] by (rule readsD [OF e(1) stops fuel e(2)])
  note name = skipComments_other(1) [OF readToken_quoted, simplified]
  note following = readObject_next_skip [OF trans [OF skipComments_sep(1) [OF e(5)] skipComments_other(1) [OF readToken_punct(4)]]]
    readObject_next_skip [OF trans [OF skipComments_sep(1) [OF e(5)] skipComments_other(1) [OF readToken_punct(5)]]]
  have entry: "m @ [(?k, ?x)] = m @ [member_entry e]" by (simp add: member_entry_def)
  show ?case
  proof (cases "es = []")
    case True
    with first e(3) show ?thesis unfolding doc readObject_sep [OF e(6)]
      by (simp add: j readObject_body_def name read_name_def decodeString_quoted readObject_member_def
          readToken_blank [OF e(7)] readToken_punct member_slot [OF keys] following
          obind_def member_entry_def)
  next
    case False
    have "readObject j F L (st\<lparr>rd_current := comma_separated (map member_text es) @ CHR ''}'' # r\<rparr>) ?k
        (ObjectV (m @ [member_entry e])) =
      Some (Ret (True, st\<lparr>rd_current := r\<rparr>, ObjectV ((m @ [member_entry e]) @ map member_entry es)))"
      using Cons.prems fuel False by (intro Cons.IH) simp_all
    with False first e(3) show ?thesis unfolding doc readObject_sep [OF e(6)]
      by (simp add: j readObject_body_def name read_name_def decodeString_quoted readObject_member_def
          readToken_blank [OF e(7)] readToken_punct member_slot [OF keys] following
          obind_def entry del: comma_separated.simps)
  qed
qed simp

lemma rd_swap: "st\<lparr>rd_stackDepth := a, rd_current := c\<rparr> = st\<lparr>rd_current := c, rd_stackDepth := a\<rparr>"
  by simp

text \<open>The brackets around them.\<close>

lemma reads_array:
  assumes "\<And>k st r. 2 * length (body @ CHR '']'' # r) + 1 < k \<Longrightarrow> rd_stackDepth st + int (nest (ArrayV m)) \<le> stackLimit F + 1 \<Longrightarrow>
      readArray k F L (st\<lparr>rd_current := body @ CHR '']'' # r\<rparr>) 0 (ArrayV []) = Some (Ret (True, st\<lparr>rd_current := r\<rparr>, ArrayV m))"
    and "body \<noteq> []" and "\<not> is_space (hd body)" and "hd body \<noteq> CHR '']''" and "blank a"
  shows "reads F L (CHR ''['' # a @ body @ '']'') (ArrayV m)"
  unfolding reads_def
proof (intro allI impI)
  fix n :: nat and st :: OurReader and r :: string and v0
  let ?body = "body @ CHR '']'' # r"
  assume n: "2 * length ((CHR ''['' # a @ body @ '']'') @ r) < n"
    and d: "rd_stackDepth st + int (nest (ArrayV m)) \<le> stackLimit F"
  obtain k where k: "n = Suc k" using n by (cases n) simp_all
  define st1 where "st1 = st\<lparr>rd_stackDepth := rd_stackDepth st + 1\<rparr>"
  have here: "\<not> stackLimit F \<le> rd_stackDepth st" using d by simp
  have head: "skipSpaces (a @ ?body) = ?body" "peekChar ?body \<noteq> CHR '']''"
    using assms(2-5) by (cases body; simp add: skipSpaces_blank peekChar_def)+
  have "readArray k F L (st1\<lparr>rd_current := ?body\<rparr>) 0 (ArrayV []) = Some (Ret (True, st1\<lparr>rd_current := r\<rparr>, ArrayV m))"
    using n d by (intro assms(1)) (simp_all add: k st1_def)
  then show "readValue n F L (st\<lparr>rd_current := (CHR ''['' # a @ body @ '']'') @ r\<rparr>) v0 =
      Some (Ret (True, st\<lparr>rd_current := r\<rparr>, ArrayV m))"
    using here head
    by (simp add: k readValue_body_def skipComments_other(2) [OF readToken_punct(1), simplified] st1_def rd_swap
        Value_of_type_def obind_def)
qed

lemma reads_object:
  assumes "\<And>k st r. 2 * length (body @ CHR ''}'' # r) + 1 < k \<Longrightarrow> rd_stackDepth st + int (nest (ObjectV m)) \<le> stackLimit F + 1 \<Longrightarrow>
      readObject k F L (st\<lparr>rd_current := body @ CHR ''}'' # r\<rparr>) [] (ObjectV []) = Some (Ret (True, st\<lparr>rd_current := r\<rparr>, ObjectV m))"
  shows "reads F L (CHR ''{'' # body @ ''}'') (ObjectV m)"
  unfolding reads_def
proof (intro allI impI)
  fix n :: nat and st :: OurReader and r :: string and v0
  assume n: "2 * length ((CHR ''{'' # body @ ''}'') @ r) < n"
    and d: "rd_stackDepth st + int (nest (ObjectV m)) \<le> stackLimit F"
  obtain k where k: "n = Suc k" using n by (cases n) simp_all
  define st1 where "st1 = st\<lparr>rd_stackDepth := rd_stackDepth st + 1\<rparr>"
  have here: "\<not> stackLimit F \<le> rd_stackDepth st" using d by simp
  have "readObject k F L (st1\<lparr>rd_current := body @ CHR ''}'' # r\<rparr>) [] (ObjectV []) =
      Some (Ret (True, st1\<lparr>rd_current := r\<rparr>, ObjectV m))"
    using n d by (intro assms(1)) (simp_all add: k st1_def)
  then show "readValue n F L (st\<lparr>rd_current := (CHR ''{'' # body @ ''}'') @ r\<rparr>) v0 =
      Some (Ret (True, st\<lparr>rd_current := r\<rparr>, ObjectV m))"
    using here
    by (simp add: k readValue_body_def skipComments_other(2) [OF readToken_punct(3), simplified] st1_def rd_swap
        Value_of_type_def obind_def)
qed

lemma reads_no_element:
  assumes "blank a"
  shows "reads F L (CHR ''['' # a @ '']'') (ArrayV [])"
  unfolding reads_def
proof (intro allI impI)
  fix n :: nat and st :: OurReader and r :: string and v0
  assume n: "2 * length ((CHR ''['' # a @ '']'') @ r) < n"
    and d: "rd_stackDepth st + int (nest (ArrayV [])) \<le> stackLimit F"
  obtain k where k: "n = Suc k" using n by (cases n) simp_all
  have "\<not> stackLimit F \<le> rd_stackDepth st" using d by simp
  then show "readValue n F L (st\<lparr>rd_current := (CHR ''['' # a @ '']'') @ r\<rparr>) v0 =
      Some (Ret (True, st\<lparr>rd_current := r\<rparr>, ArrayV []))"
    by (simp add: k readValue_body_def skipComments_other(2) [OF readToken_punct(1), simplified] skipSpaces_blank [OF assms]
        is_space_def peekChar_def readToken_punct Value_of_type_def)
qed

lemma spaces_before: "takeWhile is_space s @ skipSpaces s = s"
  by (induction s) simp_all

lemma blank_takeWhile: "blank (takeWhile is_space s)"
  by (induction s) simp_all

lemma sep_head: "sep cm s \<Longrightarrow> skipSpaces s = c # r \<Longrightarrow> \<not> is_space c \<and> c = CHR ''/''"
  by (induction s) (auto simp: sep_def split: if_splits elim: gap_ConsE)

lemma reads_elements:
  assumes "es \<noteq> []" and "\<forall>e\<in>set es. layout (allowComments F) (el_value e) (el_text e) \<and> reads F L (el_text e) (el_value e) \<and>
      sep (allowComments F) (el_before e) \<and> sep (allowComments F) (el_after e)"
  shows "reads F L (CHR ''['' # comma_separated (map element_text es) @ '']'') (ArrayV (enumerate 0 (map el_value es)))"
proof -
  obtain e fs where es: "es = e # fs" using assms(1) by (cases es) simp_all
  let ?a = "takeWhile is_space (el_before e)" and ?b = "skipSpaces (el_before e)"
  let ?es = "e\<lparr>el_before := ?b\<rparr> # fs"
  have e: "layout (allowComments F) (el_value e) (el_text e)" "sep (allowComments F) (el_before e)" using assms(2) by (simp_all add: es)
  obtain c s where c: "el_text e = c # s" "\<not> is_space c" "c \<noteq> CHR '']''" using e(1) by (rule layout_head)
  have vals: "map el_value ?es = map el_value es" by (simp add: es)
  have ok: "\<forall>f\<in>set ?es. reads F L (el_text f) (el_value f) \<and> sep (allowComments F) (el_before f) \<and> sep (allowComments F) (el_after f)"
    using assms(2) sep_skipSpaces [OF e(2)] by (simp add: es)
  have "reads F L (CHR ''['' # ?a @ comma_separated (map element_text ?es) @ '']'') (ArrayV (enumerate 0 (map el_value es)))"
  proof (rule reads_array)
    fix k :: nat and st :: OurReader and r :: string
    assume k: "2 * length (comma_separated (map element_text ?es) @ CHR '']'' # r) + 1 < k"
      and d: "rd_stackDepth st + int (nest (ArrayV (enumerate 0 (map el_value es)))) \<le> stackLimit F + 1"
    have deep: "rd_stackDepth st + int (nest (el_value f)) \<le> stackLimit F" if "f \<in> set ?es" for f
    proof -
      have "el_value f \<in> set (map el_value ?es)" using that by (metis image_eqI set_map)
      then have "el_value f \<in> snd ` set (enumerate 0 (map el_value es))"
        unfolding vals by (simp add: set_map [symmetric] del: set_map)
      then obtain p where "p \<in> set (enumerate 0 (map el_value es))" "el_value f = snd p" by blast
      with nest_entry [of p "enumerate 0 (map el_value es)"] d show ?thesis by simp
    qed
    then show "readArray k F L (st\<lparr>rd_current := comma_separated (map element_text ?es) @ CHR '']'' # r\<rparr>) 0 (ArrayV []) =
        Some (Ret (True, st\<lparr>rd_current := r\<rparr>, ArrayV (enumerate 0 (map el_value es))))"
      using readArray_elements [of ?es F L st r k "[]"] ok k by (simp add: es)
  qed (use c sep_head [OF e(2)] blank_takeWhile in \<open>cases fs; cases ?b; simp add: element_text_def\<close>)+
  moreover have "?a @ comma_separated (map element_text ?es) = comma_separated (map element_text es)"
    using spaces_before [of "el_before e"] by (cases fs) (auto simp: es element_text_def append_assoc [symmetric] simp del: append_assoc)
  ultimately show ?thesis by (metis append_assoc)
qed

lemma reads_members:
  assumes "ms \<noteq> [] \<longrightarrow> a = []" and "blank a" and "map_inv (map member_entry ms)"
    and "\<forall>e\<in>set ms. reads F L (el_text e) (el_value e) \<and> int (length (mb_name e)) < 2 ^ 30 \<and>
      sep (allowComments F) (el_before e) \<and> sep (allowComments F) (el_after e) \<and> sep (allowComments F) (mb_start e) \<and> blank (mb_colon e)"
  shows "reads F L (CHR ''{'' # (a @ comma_separated (map member_text ms)) @ ''}'') (ObjectV (map member_entry ms))"
proof (rule reads_object)
  fix k :: nat and st :: OurReader and r :: string
  assume k: "2 * length ((a @ comma_separated (map member_text ms)) @ CHR ''}'' # r) + 1 < k"
    and d: "rd_stackDepth st + int (nest (ObjectV (map member_entry ms))) \<le> stackLimit F + 1"
  have deep: "rd_stackDepth st + int (nest (el_value e)) \<le> stackLimit F" if "e \<in> set ms" for e
    using nest_entry [of "member_entry e" "map member_entry ms"] that d by (simp add: member_entry_def)
  show "readObject k F L (st\<lparr>rd_current := (a @ comma_separated (map member_text ms)) @ CHR ''}'' # r\<rparr>) [] (ObjectV []) =
      Some (Ret (True, st\<lparr>rd_current := r\<rparr>, ObjectV (map member_entry ms)))"
  proof (cases "ms = []")
    case True
    obtain j where "k = Suc j" using k by (cases k) simp_all
    with True show ?thesis
      by (simp add: readObject_sep [OF sep_blank [OF assms(2)]] readObject_body_def skipComments_other(1) [OF readToken_punct(4), simplified])
  next
    case False
    then show ?thesis using readObject_members [OF False, of "[]"] assms deep k by simp
  qed
qed

theorem reads_layout: "layout (allowComments F) v s \<Longrightarrow> reads F L s v"
proof (induction rule: layout.induct)
  case (elements es)
  then show ?case by (intro reads_elements) simp_all
next
  case (no_member a)
  then show ?case using reads_members [of "[]" a F L] by simp
next
  case (members ms)
  then show ?case using reads_members [of ms "[]" F L] by simp
qed (simp_all add: reads_null reads_bool reads_int reads_uint reads_string reads_no_element)

text \<open>
  The whole document: a separator, a layout, a separator whose last line feed may be missing. The
  reader returns the value without an error, in strict mode too when the root is an array or an object.
\<close>

lemma parse_layout:
  assumes "layout (allowComments F) v s" and "int (nest v) \<le> stackLimit F" and "strictRoot F \<longrightarrow> isArray v \<or> isObject v"
    and "sep (allowComments F) a" and "sep (allowComments F) (b @ [CHR 0x0A])"
  shows "OurReader_parse F L (a @ s @ b) v0 = Some (Ret (True, [], v))"
proof -
  let ?init = "OurReader_init []"
  have stop: "stops b" using stops_sep [OF assms(5), of "[]"] by (cases b) (simp_all add: stops_def)
  have "readValue (2 * length (a @ s @ b) + 1) F L (?init\<lparr>rd_current := s @ b\<rparr>) v0 =
      Some (Ret (True, ?init\<lparr>rd_current := b\<rparr>, v))"
    using assms(2) by (intro readsD [OF reads_layout [OF assms(1)] stop]) (simp_all add: OurReader_init_def)
  then have "readValue (2 * length (a @ s @ b) + 1) F L (OurReader_init (a @ s @ b)) v0 =
      Some (Ret (True, ?init\<lparr>rd_current := b\<rparr>, v))"
    using readValue_sep [OF assms(4), where st = ?init and s = "s @ b"] by (simp add: OurReader_init_def)
  moreover obtain t c where "skipCommentTokens F b = (t, c)" "tok_type t = tokenEndOfStream"
    using skipCommentTokens_end [OF assms(5)] by (cases "skipCommentTokens F b") simp
  ultimately show ?thesis
    using assms(3) by (auto simp: OurReader_parse_def obind_def OurReader_init_def)
qed

section \<open>FastWriter writes layouts\<close>

lemma entries_enumerate: "map (\<lambda>i. entry_or_null i (enumerate 0 xs)) [0..<length xs] = xs"
proof (rule nth_equalityI)
  fix i
  assume "i < length (map (\<lambda>i. entry_or_null i (enumerate 0 xs)) [0..<length xs])"
  then have i: "i < length xs" by simp
  then have "(i, xs ! i) \<in> set (enumerate 0 xs)" by (simp add: in_set_enumerate_eq)
  moreover have "map_inv (enumerate 0 xs)" by (simp add: map_inv_def set_inv_def map_keys_enumerate)
  ultimately have "map_find i (enumerate 0 xs) = Some (xs ! i)" by (simp add: map_entries_find)
  with i show "map (\<lambda>i. entry_or_null i (enumerate 0 xs)) [0..<length xs] ! i = xs ! i"
    by (simp add: entry_or_null_def)
qed simp

definition write_member :: "libc \<Rightarrow> FastWriter \<Rightarrow> string \<times> Value \<Rightarrow> member" where
  "write_member L W e = \<lparr>el_value = snd e, el_before = (if yamlCompatiblityEnabled W then '' '' else []),
     el_text = writeValue L W (snd e), el_after = [], mb_name = fst e, mb_start = [], mb_colon = []\<rparr>"

lemma size_enumerate: "length xs < 2 ^ 31 \<Longrightarrow> json_size (ArrayV (enumerate 0 xs)) = length xs"
  by (cases xs rule: rev_cases) (simp_all add: json_size_array enumerate_append_eq)

lemma write_array:
  assumes "length xs < 2 ^ 31"
  shows "writeValue L W (ArrayV (enumerate 0 xs)) = CHR ''['' # comma_separated (map (writeValue L W) xs) @ '']''"
proof -
  have "int_bound (json_size (ArrayV (enumerate 0 xs))) = length xs" using assms by (simp add: size_enumerate int_bound_small)
  then have "map (\<lambda>i. writeValue L W (entry_or_null i (enumerate 0 xs))) [0..<int_bound (json_size (ArrayV (enumerate 0 xs)))] =
      map (writeValue L W) (map (\<lambda>i. entry_or_null i (enumerate 0 xs)) [0..<length xs])" by simp
  then show ?thesis by (simp add: entries_enumerate)
qed

lemma write_object:
  assumes "map_inv m" and "\<forall>e\<in>set m. int (length (fst e)) < 2 ^ 30"
  shows "writeValue L W (ObjectV m) = CHR ''{'' # comma_separated (map (\<lambda>e. member_text (write_member L W e)) m) @ ''}''"
proof -
  have "entry_or_null (CZString (fst e)) m = snd e" if "e \<in> set m" for e
    using that assms map_entries_find [OF assms(1), of "fst e" "snd e"] by (simp add: entry_or_null_def CZString_key)
  then have "map (\<lambda>name. valueToQuotedStringN name @ (if yamlCompatiblityEnabled W then '': '' else '':'') @
       writeValue L W (entry_or_null (CZString name) m)) (map_keys m) = map (\<lambda>e. member_text (write_member L W e)) m"
    by (simp add: map_keys_def write_member_def member_text_def element_text_def)
  then show ?thesis by simp
qed

lemma writeValue_layout:
  assumes "\<not> dropNullPlaceholders W"
  shows "canonical v \<Longrightarrow> layout cm v (writeValue L W v)"
proof (induction v)
  case (ArrayV m)
  let ?e = "\<lambda>x. \<lparr>el_value = x, el_before = [], el_text = writeValue L W x, el_after = []\<rparr>"
  have m: "m = enumerate 0 (map snd m)" "length (map snd m) < 2 ^ 31" and x: "\<forall>x\<in>set (map snd m). layout cm x (writeValue L W x)"
    using ArrayV by (fastforce simp: list_all_iff)+
  show ?case
  proof (cases "m = []")
    case False
    then have "layout cm (ArrayV (enumerate 0 (map el_value (map ?e (map snd m)))))
        (CHR ''['' # comma_separated (map element_text (map ?e (map snd m))) @ '']'')"
      using x by (intro layout.elements) (auto simp: sep_blank)
    moreover have "map el_value (map ?e xs) = xs" "map element_text (map ?e xs) = map (writeValue L W) xs" for xs
      by (simp_all add: element_text_def o_def)
    ultimately show ?thesis by (metis m(1) write_array [OF m(2)])
  qed (use layout.no_element [of "[]"] in \<open>simp add: int_bound_def\<close>)
next
  case (ObjectV m)
  then have m: "map_inv m" "\<forall>e\<in>set m. int (length (fst e)) < 2 ^ 30 \<and> layout cm (snd e) (writeValue L W (snd e))"
    by (fastforce simp: list_all_iff)+
  have entry: "member_entry (write_member L W e) = e" for e by (simp add: member_entry_def write_member_def)
  show ?case
  proof (cases "m = []")
    case False
    have "map_inv (map member_entry (map (write_member L W) m))" using m(1) by (simp add: o_def entry)
    with False m have "layout cm (ObjectV (map member_entry (map (write_member L W) m)))
        (CHR ''{'' # comma_separated (map member_text (map (write_member L W) m)) @ ''}'')"
      by (intro layout.members) (auto simp: write_member_def is_space_def sep_blank)
    then show ?thesis using m by (subst write_object) (auto simp: o_def entry)
  qed (use layout.no_member [of "[]"] in simp)
qed (simp_all add: assms layout.intros)

text \<open>What \<^verbatim>\<open>FastWriter\<close> writes, the reader reads back.\<close>

lemma parse_written:
  assumes "canonical v" and "int (nest v) \<le> stackLimit F" and "\<not> dropNullPlaceholders W"
    and "strictRoot F \<longrightarrow> isArray v \<or> isObject v"
  shows "OurReader_parse F L (FastWriter_write L W v) v0 = Some (Ret (True, [], v))"
proof -
  let ?nl = "if omitEndingLineFeed W then [] else [CHR 0x0A]"
  have doc: "FastWriter_write L W v = [] @ writeValue L W v @ ?nl" by (simp add: FastWriter_write_def)
  show ?thesis
    unfolding doc by (rule parse_layout [OF writeValue_layout [OF assms(3,1)] assms(2,4)]) (simp_all add: sep_blank is_space_def)
qed

end
