(* ===== verification/Config_File.thy ===== *)
theory Config_File
  imports Config Json_Roundtrip
begin

text \<open>
  The configuration file end to end: the text of a configuration, as \<^verbatim>\<open>FastWriter\<close> writes its JSON
  tree, is accepted by the strict reader, by the validation and by the parser of
  \<^verbatim>\<open>driveshaft-config.cpp\<close>, and gives the configuration back.
\<close>

text \<open>The lengths the JSON library can represent.\<close>

definition fits_json :: "DriveshaftConfig \<Rightarrow> bool" where
  "fits_json cfg \<longleftrightarrow> length (m_server_list cfg) < 2 ^ 31 \<and> length (m_pool_map cfg) < 2 ^ 32 \<and>
     list_all (\<lambda>s. int (length s) \<le> maxInt - 5) (m_server_list cfg) \<and>
     list_all (\<lambda>e. int (length (fst e)) < 2 ^ 30 \<and> int (length (job_processing_uri (snd e))) \<le> maxInt - 5 \<and>
       length (job_list (snd e)) < 2 ^ 31 \<and> list_all (\<lambda>s. int (length s) \<le> maxInt - 5) (job_list (snd e))) (m_pool_map cfg)"

definition config_text :: "libc \<Rightarrow> DriveshaftConfig \<Rightarrow> string" where
  "config_text L cfg = FastWriter_write L new_FastWriter (config_tree cfg)"

lemma string_array_enumerate: "string_array xs = ArrayV (enumerate 0 (map StringV xs))"
  by (simp add: string_array_def enumerate_eq_zip)

lemma canonical_string_array:
  assumes x: "list_all (\<lambda>s. int (length s) \<le> maxInt - 5) xs" and few: "length xs < 2 ^ 31"
  shows "canonical (string_array xs)"
proof -
  have "list_all (canonical \<circ> snd) (enumerate n (map StringV xs))" for n
    using x by (induction xs arbitrary: n) simp_all
  then show ?thesis using few by (simp add: string_array_enumerate comp_def)
qed

lemma nest_string_array: "nest (string_array xs) \<le> 2"
proof -
  have "foldr (\<lambda>e n. max (nest (snd e)) n) (enumerate k (map StringV xs)) 0 \<le> 1" for k
    by (induction xs arbitrary: k) simp_all
  then show ?thesis by (simp add: string_array_enumerate)
qed

lemma canonical_count: "canonical (count_value n)"
proof -
  have "uint n < 2 ^ 32" using uint_bounded [of n] by simp
  then have "uint (ucast n :: u64) = uint n" by (simp add: unsigned_ucast_eq take_bit_int_eq_self)
  moreover have "integral_value (count_value n) = Some (uint n)" by (rule worker_count_value)
  ultimately show ?thesis by (auto simp: count_value_def integral_value_def split: if_splits)
qed

lemma canonical_pool:
  assumes "int (length (job_processing_uri d)) \<le> maxInt - 5"
    and "list_all (\<lambda>s. int (length s) \<le> maxInt - 5) (job_list d)" and "length (job_list d) < 2 ^ 31"
  shows "canonical (pool_tree d)" and "nest (pool_tree d) \<le> 3"
proof -
  have "map_inv [(POOL_JOB_PROCESSING_URI, a :: Value), (POOL_JOB_LIST, b), (POOL_WORKER_COUNT, c)]" for a b c
    by (simp add: map_inv_def set_inv_def cfgkeys map_keys_def less_char_def)
  moreover have "int (length POOL_JOB_PROCESSING_URI) < 2 ^ 30" "int (length POOL_JOB_LIST) < 2 ^ 30"
    "int (length POOL_WORKER_COUNT) < 2 ^ 30" by (simp_all add: cfgkeys)
  ultimately show "canonical (pool_tree d)"
    using assms by (simp add: pool_tree_def canonical_string_array canonical_count)
  have "nest (count_value n) = 1" for n by (simp add: count_value_def)
  then show "nest (pool_tree d) \<le> 3" using nest_string_array [of "job_list d"] by (simp add: pool_tree_def)
qed

lemma canonical_config:
  assumes "config_inv cfg" and "fits_json cfg"
  shows "canonical (config_tree cfg)" and "nest (config_tree cfg) \<le> 5"
proof -
  let ?pools = "map (\<lambda>e. (fst e, pool_tree (snd e))) (m_pool_map cfg)"
  have fits: "int (length (fst e)) < 2 ^ 30 \<and> canonical (pool_tree (snd e)) \<and> nest (pool_tree (snd e)) \<le> 3"
    if "e \<in> set (m_pool_map cfg)" for e
    using assms(2) that canonical_pool [of "snd e"] by (auto simp: fits_json_def list_all_iff)
  have "map_inv ?pools" using config_invD(2) [OF assms(1)] by (simp add: map_inv_def map_keys_def comp_def)
  then have "canonical (ObjectV ?pools)" using fits assms(2) by (simp add: list_all_iff fits_json_def)
  moreover have "map_inv [(GEARMAN_SERVERS_LIST, a :: Value), (POOLS_LIST, b)]" for a b
    by (simp add: map_inv_def set_inv_def cfgkeys map_keys_def less_char_def)
  moreover have "int (length GEARMAN_SERVERS_LIST) < 2 ^ 30" "int (length POOLS_LIST) < 2 ^ 30"
    by (simp_all add: cfgkeys)
  ultimately show "canonical (config_tree cfg)"
    using assms(2) by (simp add: config_tree_def canonical_string_array fits_json_def del: canonical.simps(6))
      (simp add: canonical_string_array)
  have "foldr (\<lambda>e n. max (nest (snd e)) n) (map (\<lambda>e. (fst e, pool_tree (snd e))) es) 0 \<le> 3"
    if "set es \<subseteq> set (m_pool_map cfg)" for es
    using that fits by (induction es) auto
  then show "nest (config_tree cfg) \<le> 5"
    using nest_string_array [of "m_server_list cfg"] by (simp add: config_tree_def)
qed

text \<open>The strict reader is the one the main loop and the job client build.\<close>

lemma parsed_config_text:
  assumes "config_inv cfg" and "fits_json cfg"
  shows "parsed_tree (OurCharReader_parse strict_features L) (config_text L cfg) = Ret (config_tree cfg)"
proof -
  have "OurReader_parse strict_features L (config_text L cfg) NullV = Some (Ret (True, [], config_tree cfg))"
    unfolding config_text_def using canonical_config [OF assms]
    by (intro parse_written) (simp_all add: strict_features_def new_FastWriter_def config_tree_def isObject_iff)
  then show ?thesis by (simp add: parsed_tree_def OurCharReader_parse_def validate_config_tree)
qed

lemma load_config_text:
  assumes "config_inv cfg" and "fits_json cfg"
    and "env_mtime env f = Some modified" and "modified > m_load_time c0" and "env_read env f = Some (config_text L cfg)"
  shows "load L (OurCharReader_parse strict_features L) env f c0 =
    (Ret True, \<lparr>m_config_filename = f, m_server_list = m_server_list cfg, m_pool_map = m_pool_map cfg,
                m_load_time = env_now env\<rparr>)"
  using assms
  by (simp add: load_def needsConfigUpdate_def fetchFileContents_def parseConfig_def parsed_config_text read_config_tree)

end
