(* ===== verification/Json_Path.thy ===== *)
theory Json_Path
  imports Json_Reader
begin

text \<open>
  \<^verbatim>\<open>Json::Path\<close> of jsoncpp (\<^verbatim>\<open>src/dist/jsoncpp.cpp\<close>): the compilation of a path such as
  \<^verbatim>\<open>.settings.servers[2]\<close> into a list of arguments, and the access to a value along it. \<^verbatim>\<open>makePath\<close> is a
  loop that does not always end: \<open>None\<close> means that it never returns. What \<^verbatim>\<open>make\<close> returns is a
  reference, modelled as elsewhere by the value after the access together with the node, and by
  a second operation that stores through the reference.
\<close>

section \<open>PathArgument\<close>

datatype Kind = kindNone | kindIndex | kindKey

record PathArgument =
  pa_key :: string
  pa_index :: u32
  pa_kind :: Kind

definition new_PathArgument :: PathArgument where
  "new_PathArgument = \<lparr>pa_key = [], pa_index = 0, pa_kind = kindNone\<rparr>"

definition PathArgument_of_index :: "u32 \<Rightarrow> PathArgument" where
  "PathArgument_of_index index = \<lparr>pa_key = [], pa_index = index, pa_kind = kindIndex\<rparr>"

definition PathArgument_of_string :: "string \<Rightarrow> PathArgument" where
  "PathArgument_of_string key = \<lparr>pa_key = c_str key, pa_index = 0, pa_kind = kindKey\<rparr>"

section \<open>makePath\<close>

text \<open>The arguments are pushed onto \<^verbatim>\<open>args_\<close>; \<open>itInArg\<close> is the rest of the arguments given for \<^verbatim>\<open>%\<close>.\<close>

definition addPathInArg :: "PathArgument list \<Rightarrow> Kind \<Rightarrow> PathArgument list \<Rightarrow> PathArgument list" where
  "addPathInArg itInArg kind args =
     (case itInArg of
        [] \<Rightarrow> args
      | a # _ \<Rightarrow> if pa_kind a \<noteq> kind then args else args @ [a])"

fun index_loop :: "u32 \<Rightarrow> string \<Rightarrow> u32 \<times> string" where
  "index_loop index [] = (index, [])"
| "index_loop index (c # current) =
     (if is_digit c then index_loop (index * 10 + of_nat (of_char c - 48)) current else (index, c # current))"

text \<open>
  \<^verbatim>\<open>!strchr("[.", *current)\<close>: \<^verbatim>\<open>strchr\<close> also finds the terminator of its string, so a NUL byte ends
  a name.
\<close>

definition name_char :: "char \<Rightarrow> bool" where
  "name_char c \<longleftrightarrow> c \<noteq> CHR ''['' \<and> c \<noteq> CHR ''.'' \<and> c \<noteq> NUL"

text \<open>
  The loop of \<^verbatim>\<open>makePath\<close>. After an index, the next byte is skipped whether or not it is the closing
  bracket: \<^verbatim>\<open>invalidPath\<close> does nothing.
\<close>

partial_function (option) makePath_loop ::
  "PathArgument list \<Rightarrow> string \<Rightarrow> PathArgument list \<Rightarrow> PathArgument list option" where
  "makePath_loop itInArg current args =
     (if current = [] then Some args
      else if hd current = CHR ''['' then
        (let rest = tl current in
         if peekChar rest = CHR ''%''
         then makePath_loop itInArg (drop 1 rest) (addPathInArg itInArg kindIndex args)
         else makePath_loop itInArg (drop 1 (snd (index_loop 0 rest)))
                (args @ [PathArgument_of_index (fst (index_loop 0 rest))]))
      else if hd current = CHR ''%'' then
        makePath_loop itInArg (tl current) (addPathInArg itInArg kindKey args)
      else if hd current = CHR ''.'' then makePath_loop itInArg (tl current) args
      else makePath_loop itInArg (dropWhile name_char current)
             (args @ [PathArgument_of_string (takeWhile name_char current)]))"

definition makePath :: "string \<Rightarrow> PathArgument list \<Rightarrow> PathArgument list option" where
  "makePath path in_args = makePath_loop in_args path []"

definition new_Path ::
  "string \<Rightarrow> PathArgument \<Rightarrow> PathArgument \<Rightarrow> PathArgument \<Rightarrow> PathArgument \<Rightarrow> PathArgument \<Rightarrow> PathArgument list option" where
  "new_Path path a1 a2 a3 a4 a5 = makePath path [a1, a2, a3, a4, a5]"

section \<open>Access along a path\<close>

fun Path_resolve :: "PathArgument list \<Rightarrow> Value \<Rightarrow> Value cxx" where
  "Path_resolve [] node = Ret node"
| "Path_resolve (arg # args) node =
     (case pa_kind arg of
        kindIndex \<Rightarrow> cxx_bind (index_const (unat (pa_index arg)) node) (Path_resolve args)
      | kindKey \<Rightarrow> cxx_bind (member_const (pa_key arg) node) (Path_resolve args)
      | kindNone \<Rightarrow> Path_resolve args node)"

text \<open>The other \<^verbatim>\<open>resolve\<close>: \<^verbatim>\<open>node == &Value::nullRef\<close> says that the object has no such member.\<close>

fun Path_resolve_default :: "PathArgument list \<Rightarrow> Value \<Rightarrow> Value \<Rightarrow> Value cxx" where
  "Path_resolve_default [] defaultValue node = Ret node"
| "Path_resolve_default (arg # args) defaultValue node =
     (case pa_kind arg of
        kindIndex \<Rightarrow>
          if \<not> isArray node \<or> \<not> isValidIndex (unat (pa_index arg)) node then Ret defaultValue
          else cxx_bind (index_const (unat (pa_index arg)) node) (Path_resolve_default args defaultValue)
      | kindKey \<Rightarrow>
          if \<not> isObject node then Ret defaultValue
          else cxx_bind (json_find (pa_key arg) node) (\<lambda>found.
            case found of None \<Rightarrow> Ret defaultValue | Some x \<Rightarrow> Path_resolve_default args defaultValue x)
      | kindNone \<Rightarrow> Path_resolve_default args defaultValue node)"

text \<open>\<^verbatim>\<open>make\<close>: the node after the access and the one it refers to; \<open>Path_assign\<close> is \<^verbatim>\<open>path.make(root) = x\<close>.\<close>

fun Path_make :: "PathArgument list \<Rightarrow> Value \<Rightarrow> (Value \<times> Value) cxx" where
  "Path_make [] node = Ret (node, node)"
| "Path_make (arg # args) node =
     (case pa_kind arg of
        kindIndex \<Rightarrow>
          cxx_bind (index_ref (unat (pa_index arg)) node) (\<lambda>(node1, child).
          cxx_bind (Path_make args child) (\<lambda>(child', target).
          Ret (index_store (unat (pa_index arg)) child' node1, target)))
      | kindKey \<Rightarrow>
          cxx_bind (resolveReference (pa_key arg) node) (\<lambda>(node1, child).
          cxx_bind (Path_make args child) (\<lambda>(child', target).
          Ret (member_store (pa_key arg) child' node1, target)))
      | kindNone \<Rightarrow> Path_make args node)"

fun Path_assign :: "PathArgument list \<Rightarrow> Value \<Rightarrow> Value \<Rightarrow> Value cxx" where
  "Path_assign [] x node = Ret x"
| "Path_assign (arg # args) x node =
     (case pa_kind arg of
        kindIndex \<Rightarrow>
          cxx_bind (index_ref (unat (pa_index arg)) node) (\<lambda>(node1, child).
          cxx_bind (Path_assign args x child) (\<lambda>child'.
          Ret (index_store (unat (pa_index arg)) child' node1)))
      | kindKey \<Rightarrow>
          cxx_bind (resolveReference (pa_key arg) node) (\<lambda>(node1, child).
          cxx_bind (Path_assign args x child) (\<lambda>child'.
          Ret (member_store (pa_key arg) child' node1)))
      | kindNone \<Rightarrow> Path_assign args x node)"


section \<open>Compilation of a path\<close>

text \<open>The text of a list of arguments, and when it can be read back.\<close>

definition arg_text :: "PathArgument \<Rightarrow> string" where
  "arg_text a = (if pa_kind a = kindIndex then ''['' @ to_string_nat (unat (pa_index a)) @ '']'' else ''.'' @ pa_key a)"

definition path_text :: "PathArgument list \<Rightarrow> string" where
  "path_text args = concat (map arg_text args)"

definition arg_ok :: "PathArgument \<Rightarrow> bool" where
  "arg_ok a = (case pa_kind a of
       kindIndex \<Rightarrow> pa_key a = []
     | kindKey \<Rightarrow> pa_index a = 0 \<and> pa_key a \<noteq> [] \<and> hd (pa_key a) \<noteq> CHR ''%'' \<and> list_all name_char (pa_key a)
     | kindNone \<Rightarrow> False)"

lemma index_loop_digits:
  "list_all is_digit ds \<Longrightarrow> \<not> is_digit c \<Longrightarrow>
   index_loop (of_nat n) (ds @ c # r) = (of_nat (digits_from n ds), c # r)"
  by (induction ds arbitrary: n) (simp_all, metis of_nat_add of_nat_mult of_nat_numeral)

lemma index_loop_length: "length (snd (index_loop i s)) \<le> length s"
  by (induction i s rule: index_loop.induct) auto

lemma index_loop_set: "set (snd (index_loop i s)) \<subseteq> set s"
  by (induction i s rule: index_loop.induct) auto

lemma not_digit_bracket [simp]: "\<not> is_digit (CHR '']'')"
  by (simp add: is_digit_iff)

lemma peek_number: "peekChar (to_string_nat n @ r) \<noteq> CHR ''%''"
proof -
  have "list_all is_digit (to_string_nat n)" using to_string_nat_digits [of n] by simp
  moreover have "to_string_nat n \<noteq> []" by (subst to_string_nat.simps) simp
  ultimately show ?thesis by (cases "to_string_nat n") (auto simp: peekChar_def is_digit_iff)
qed

lemma makePath_loop_index:
  "makePath_loop itInArg (''['' @ to_string_nat (unat i) @ '']'' @ r) args =
     makePath_loop itInArg r (args @ [PathArgument_of_index i])"
  using index_loop_digits [of "to_string_nat (unat i)" "CHR '']''" 0 r] to_string_nat_digits [of "unat i"] peek_number [of "unat i"]
  by (subst makePath_loop.simps) simp

lemma makePath_loop_key:
  assumes "key \<noteq> []" and "hd key \<noteq> CHR ''%''" and "list_all name_char key" and "r = [] \<or> \<not> name_char (hd r)"
  shows "makePath_loop itInArg (''.'' @ key @ r) args = makePath_loop itInArg r (args @ [PathArgument_of_string key])"
proof -
  have "takeWhile name_char (key @ r) = key" "dropWhile name_char (key @ r) = r"
    using assms(3,4) by (cases r; simp add: takeWhile_append2 list_all_iff)+
  moreover have "hd key \<noteq> CHR ''[''" "hd key \<noteq> CHR ''.''"
    using assms(1,3) by (cases key; simp add: name_char_def)+
  ultimately show ?thesis
    using assms(1,2) by (subst makePath_loop.simps, simp, subst makePath_loop.simps, simp)
qed

lemma path_text_stops: "path_text args = [] \<or> \<not> name_char (hd (path_text args))"
  by (cases args) (simp_all add: path_text_def arg_text_def name_char_def)

lemma arg_ok_cases:
  assumes "arg_ok a"
  obtains (index) i where "a = PathArgument_of_index i"
  | (key) k where "a = PathArgument_of_string k" "pa_key a = k" "k \<noteq> []" "hd k \<noteq> CHR ''%''" "list_all name_char k"
proof (cases "pa_kind a")
  case kindIndex
  with assms have "a = PathArgument_of_index (pa_index a)" by (simp add: arg_ok_def PathArgument_of_index_def)
  then show ?thesis by (rule index)
next
  case kindKey
  with assms have k: "pa_key a \<noteq> []" "hd (pa_key a) \<noteq> CHR ''%''" "list_all name_char (pa_key a)" "pa_index a = 0"
    by (simp_all add: arg_ok_def)
  have "c_str (pa_key a) = pa_key a"
    using k(3) by (auto simp: c_str_def takeWhile_eq_all_conv list_all_iff name_char_def NUL_def)
  with kindKey k(4) have "a = PathArgument_of_string (pa_key a)" by (simp add: PathArgument_of_string_def)
  from key [OF this refl k(1-3)] show ?thesis .
qed (use assms in \<open>simp add: arg_ok_def\<close>)

lemma makePath_loop_text:
  "list_all arg_ok args \<Longrightarrow> makePath_loop itInArg (path_text args) acc = Some (acc @ args)"
proof (induction args arbitrary: acc)
  case Nil
  show ?case by (subst makePath_loop.simps) (simp add: path_text_def)
next
  case (Cons a args)
  then have "arg_ok a" and IH: "makePath_loop itInArg (path_text args) (acc @ [a]) = Some (acc @ a # args)" by simp_all
  have t: "path_text (b # args) = arg_text b @ path_text args" for b by (simp add: path_text_def)
  from \<open>arg_ok a\<close> show ?case
  proof (cases rule: arg_ok_cases)
    case (index i)
    then have "arg_text a = ''['' @ to_string_nat (unat i) @ '']''" by (simp add: arg_text_def PathArgument_of_index_def)
    with IH index makePath_loop_index [of itInArg i "path_text args" acc] show ?thesis by (simp add: t)
  next
    case (key k)
    then have "arg_text a = ''.'' @ k" by (simp add: arg_text_def PathArgument_of_string_def)
    with IH key makePath_loop_key [OF key(3-5) path_text_stops] show ?thesis by (simp add: t)
  qed
qed

text \<open>The loop ends on every path without a NUL byte, and never ends once it reaches one where a name may start.\<close>

lemma makePath_loop_returns: "NUL \<notin> set current \<Longrightarrow> \<exists>args'. makePath_loop itInArg current args = Some args'"
proof (induction "length current" arbitrary: current args rule: less_induct)
  case less
  show ?case
  proof (cases current)
    case Nil
    then show ?thesis by (subst makePath_loop.simps) simp
  next
    case (Cons c rest)
    have sub: "\<exists>args'. makePath_loop itInArg s a = Some args'" if "length s \<le> length rest" "set s \<subseteq> set current" for s a
      using less.hyps [of s a] less.prems that Cons by auto
    have idx: "length (drop 1 (snd (index_loop 0 rest))) \<le> length rest" "set (drop 1 (snd (index_loop 0 rest))) \<subseteq> set current"
      using index_loop_length [of 0 rest] index_loop_set [of 0 rest] set_drop_subset [of 1 "snd (index_loop 0 rest)"] Cons by auto
    have one: "length (drop 1 rest) \<le> length rest" "set (drop 1 rest) \<subseteq> set current" using set_drop_subset [of 1 rest] Cons by auto
    have name: "length (dropWhile name_char current) \<le> length rest" "set (dropWhile name_char current) \<subseteq> set current"
      if "c \<noteq> CHR ''[''" "c \<noteq> CHR ''.''"
    proof -
      have "name_char c" using that less.prems Cons by (auto simp: name_char_def)
      then show "length (dropWhile name_char current) \<le> length rest" using Cons by (simp add: length_dropWhile_le)
      show "set (dropWhile name_char current) \<subseteq> set current" by (meson set_dropWhileD subsetI)
    qed
    have rest: "length rest \<le> length rest" "set rest \<subseteq> set current" using Cons by auto
    show ?thesis
      using sub [OF idx] sub [OF one] sub [OF rest] sub [OF name]
      by (subst makePath_loop.simps) (auto simp: Cons Let_def)
  qed
qed

lemma makePath_loop_NUL: "makePath_loop itInArg (NUL # s) args = None"
proof -
  have "current = [] \<or> hd current \<noteq> NUL" if "makePath_loop itInArg current args = Some args'" for current args'
    by (rule makePath_loop.raw_induct [OF _ that, of "\<lambda>_ current _ _. current = [] \<or> hd current \<noteq> NUL"])
      (auto simp: Let_def NUL_def name_char_def split: if_splits; metis dropWhile.simps(2) list.collapse name_char_def NUL_def)
  from this [of "NUL # s"] show ?thesis by (cases "makePath_loop itInArg (NUL # s) args") auto
qed

lemma makePath_loop_hangs:
  "NUL \<notin> set pre \<Longrightarrow> CHR ''['' \<notin> set pre \<Longrightarrow> makePath_loop itInArg (pre @ NUL # s) args = None"
proof (induction "length pre" arbitrary: pre args rule: less_induct)
  case less
  show ?case
  proof (cases pre)
    case Nil
    then show ?thesis by (simp add: makePath_loop_NUL)
  next
    case (Cons c rest)
    have "dropWhile name_char (pre @ NUL # s) = dropWhile name_char pre @ NUL # s"
      by (induction pre) (auto simp: name_char_def)
    moreover have "makePath_loop itInArg (dropWhile name_char pre @ NUL # s) a = None" if "name_char c" for a
    proof (rule less.hyps)
      show "length (dropWhile name_char pre) < length pre"
        using that by (simp add: Cons less_Suc_eq_le length_dropWhile_le)
    qed (use less.prems in \<open>auto dest: set_dropWhileD\<close>)
    moreover have "makePath_loop itInArg (rest @ NUL # s) a = None" for a
      using less.prems by (intro less.hyps) (auto simp: Cons)
    moreover have "c \<noteq> NUL" "c \<noteq> CHR ''[''" using less.prems by (auto simp: Cons)
    ultimately show ?thesis by (subst makePath_loop.simps) (auto simp: Cons name_char_def)
  qed
qed

text \<open>The argument of \<^verbatim>\<open>[%]\<close> is followed by a member name \<^verbatim>\<open>]\<close>, since the percent sign is taken for the bracket.\<close>

lemma makePath_percent_index:
  "makePath ''[%]'' (PathArgument_of_index i # in_args) = Some [PathArgument_of_index i, PathArgument_of_string '']'']"
  unfolding makePath_def
  by (subst makePath_loop.simps, simp add: peekChar_def addPathInArg_def PathArgument_of_index_def,
      subst makePath_loop.simps, simp add: name_char_def NUL_def, subst makePath_loop.simps, simp)

section \<open>References into a container\<close>

text \<open>Arrays and objects are ordered by key at every level.\<close>

fun value_inv :: "Value \<Rightarrow> bool" where
  "value_inv (ArrayV m) \<longleftrightarrow> map_inv m \<and> list_all (\<lambda>e. value_inv (snd e)) m"
| "value_inv (ObjectV m) \<longleftrightarrow> map_inv m \<and> list_all (\<lambda>e. value_inv (snd e)) m"
| "value_inv _ \<longleftrightarrow> True"

text \<open>
  The contract of \<^verbatim>\<open>operator[]\<close>, which arrays and objects share: the reference it returns, a store
  through it, and the const access.
\<close>

locale element_access =
  fixes ref :: "'k \<Rightarrow> Value \<Rightarrow> (Value \<times> Value) cxx"
    and store :: "'k \<Rightarrow> Value \<Rightarrow> Value \<Rightarrow> Value"
    and get :: "'k \<Rightarrow> Value \<Rightarrow> Value cxx"
    and same :: "'k \<Rightarrow> 'k \<Rightarrow> bool"
  assumes same_refl: "same k k"
    and get_ref: "ref k v = Ret (v1, x0) \<Longrightarrow> get k v = Ret x0"
    and get_store: "value_inv v \<Longrightarrow> ref k v = Ret (v1, x0) \<Longrightarrow>
      get k' (store k x v1) = (if same k' k then Ret x else get k' v)"
    and inv_ref: "value_inv v \<Longrightarrow> ref k v = Ret (v1, x0) \<Longrightarrow> value_inv x0"
    and inv_store: "value_inv v \<Longrightarrow> ref k v = Ret (v1, x0) \<Longrightarrow> value_inv x \<Longrightarrow> value_inv (store k x v1)"
    and ref_null: "\<exists>v1. ref k NullV = Ret (v1, NullV)"
    and ref_store: "value_inv v \<Longrightarrow> ref k v = Ret (v1, x0) \<Longrightarrow> ref k (store k x v1) = Ret (store k x v1, x)"
    and store_again: "value_inv v \<Longrightarrow> ref k v = Ret (v1, x0) \<Longrightarrow> store k x (store k x v1) = store k x v1"
begin

lemma get_store_same: "value_inv v \<Longrightarrow> ref k v = Ret (v1, x0) \<Longrightarrow> get k (store k x v1) = Ret x"
  by (simp add: get_store same_refl)

lemma get_store_other:
  "value_inv v \<Longrightarrow> ref k v = Ret (v1, x0) \<Longrightarrow> \<not> same k' k \<Longrightarrow> get k' (store k x v1) = get k' v"
  by (simp add: get_store)

end

lemma value_inv_find: "list_all (\<lambda>e. value_inv (snd e)) m \<Longrightarrow> map_find k m = Some x \<Longrightarrow> value_inv x"
  by (induction k m rule: map_find.induct) (auto split: if_splits)

lemma value_inv_put:
  "list_all (\<lambda>e. value_inv (snd e)) m \<Longrightarrow> value_inv x \<Longrightarrow> list_all (\<lambda>e. value_inv (snd e)) (map_put k x m)"
  by (induction k x m rule: map_put.induct) auto

lemma map_put_again: "map_put k x (map_put k x m) = map_put k x m"
  by (induction k x m rule: map_put.induct) auto

text \<open>A reference is to an entry of the container, created with null if it was missing.\<close>

definition entries_with :: "'k::linorder \<Rightarrow> ('k \<times> Value) list \<Rightarrow> ('k \<times> Value) list" where
  "entries_with k m = (if map_find k m = None then map_put k NullV m else m)"

lemma entries_with_inv: "map_inv m \<Longrightarrow> map_inv (entries_with k m)"
  by (simp add: entries_with_def)

lemma entries_with_all: "list_all (\<lambda>e. value_inv (snd e)) m \<Longrightarrow> list_all (\<lambda>e. value_inv (snd e)) (entries_with k m)"
  by (simp add: entries_with_def value_inv_put)

lemma entries_with_find: "map_inv m \<Longrightarrow> k' \<noteq> k \<Longrightarrow> map_find k' (entries_with k m) = map_find k' m"
  by (simp add: entries_with_def map_find_put)

lemma index_ref_Ret:
  assumes "index_ref k v = Ret (v1, x0)"
  obtains m where "v = ArrayV m \<or> v = NullV \<and> m = []" "v1 = ArrayV (entries_with k m)"
    "x0 = (case map_find k m of Some x \<Rightarrow> x | None \<Rightarrow> NullV)"
  using assms
  by (cases v) (auto simp: index_ref_def JSON_ASSERT_MESSAGE_def isNull_def isArray_def type_of_def entries_with_def
      split: option.splits)

lemma resolveReference_Ret:
  assumes "resolveReference k v = Ret (v1, x0)"
  obtains m where "v = ObjectV m \<or> v = NullV \<and> m = []" "v1 = ObjectV (entries_with (CZString k) m)"
    "x0 = (case map_find (CZString k) m of Some x \<Rightarrow> x | None \<Rightarrow> NullV)"
  using assms
  by (cases v) (auto simp: resolveReference_def JSON_ASSERT_MESSAGE_def isNull_def isObject_def type_of_def entries_with_def
      split: option.splits)

lemma index_const_simps:
  "index_const k NullV = Ret NullV"
  "index_const k (ArrayV m) = Ret (case map_find k m of Some x \<Rightarrow> x | None \<Rightarrow> NullV)"
  by (simp_all add: index_const_def JSON_ASSERT_MESSAGE_def isNull_def isArray_def type_of_def)

lemma member_const_Null: "member_const k NullV = Ret NullV"
  by (simp add: member_const_def json_simps)

interpretation elements: element_access index_ref index_store index_const "(=)"
proof
  fix k k' :: nat and v v1 x0 x
  assume r: "index_ref k v = Ret (v1, x0)"
  then show "index_const k v = Ret x0" by (rule index_ref_Ret) (auto simp: index_const_simps)
  assume v: "value_inv v"
  from r show "index_const k' (index_store k x v1) = (if k' = k then Ret x else index_const k' v)"
    by (rule index_ref_Ret) (use v in \<open>auto simp: index_const_simps index_store_def map_find_put entries_with_inv entries_with_find\<close>)
  from r show "index_ref k (index_store k x v1) = Ret (index_store k x v1, x)"
    by (rule index_ref_Ret)
      (use v in \<open>auto simp: index_ref_def JSON_ASSERT_MESSAGE_def isArray_def type_of_def index_store_def map_find_put entries_with_inv\<close>)
  from r show "index_store k x (index_store k x v1) = index_store k x v1"
    by (rule index_ref_Ret) (simp add: index_store_def map_put_again)
  from r show "value_inv x0" by (rule index_ref_Ret) (use v in \<open>auto dest: value_inv_find split: option.splits\<close>)
  assume "value_inv x"
  with r v show "value_inv (index_store k x v1)"
    by (elim index_ref_Ret) (auto simp: index_store_def entries_with_inv entries_with_all value_inv_put)
qed (simp_all add: index_ref_def JSON_ASSERT_MESSAGE_def isNull_def type_of_def)

interpretation members: element_access resolveReference member_store member_const "\<lambda>a b. CZString a = CZString b"
proof
  fix k k' :: string and v v1 x0 x
  assume r: "resolveReference k v = Ret (v1, x0)"
  then show "member_const k v = Ret x0" by (rule resolveReference_Ret) (auto simp: member_const_Null json_simps split: option.splits)
  assume v: "value_inv v"
  from r show "member_const k' (member_store k x v1) = (if CZString k' = CZString k then Ret x else member_const k' v)"
    by (rule resolveReference_Ret)
      (use v in \<open>auto simp: member_const_Null json_simps member_store_def map_find_put entries_with_inv entries_with_find\<close>)
  from r show "resolveReference k (member_store k x v1) = Ret (member_store k x v1, x)"
    by (rule resolveReference_Ret)
      (use v in \<open>auto simp: resolveReference_def JSON_ASSERT_MESSAGE_def isObject_def type_of_def member_store_def map_find_put entries_with_inv\<close>)
  from r show "member_store k x (member_store k x v1) = member_store k x v1"
    by (rule resolveReference_Ret) (simp add: member_store_def map_put_again)
  from r show "value_inv x0" by (rule resolveReference_Ret) (use v in \<open>auto dest: value_inv_find split: option.splits\<close>)
  assume "value_inv x"
  with r v show "value_inv (member_store k x v1)"
    by (elim resolveReference_Ret) (auto simp: member_store_def entries_with_inv entries_with_all value_inv_put)
qed (simp_all add: resolveReference_def JSON_ASSERT_MESSAGE_def isNull_def type_of_def)

section \<open>A store along a path is found along it\<close>

lemma Path_assign_Cons:
  assumes "Path_assign (a # args) x node = Ret node'"
  obtains (none) "pa_kind a = kindNone" "Path_assign args x node = Ret node'"
  | (index) node1 child child' where "pa_kind a = kindIndex" "index_ref (unat (pa_index a)) node = Ret (node1, child)"
      "Path_assign args x child = Ret child'" "node' = index_store (unat (pa_index a)) child' node1"
  | (key) node1 child child' where "pa_kind a = kindKey" "resolveReference (pa_key a) node = Ret (node1, child)"
      "Path_assign args x child = Ret child'" "node' = member_store (pa_key a) child' node1"
  using assms by (cases "pa_kind a") (auto simp: cxx_simps)

lemma Path_assign_inv:
  "value_inv node \<Longrightarrow> value_inv x \<Longrightarrow> Path_assign args x node = Ret node' \<Longrightarrow> value_inv node'"
proof (induction args arbitrary: node node')
  case (Cons a args)
  from Cons.prems(3) show ?case
  proof (cases rule: Path_assign_Cons)
    case none
    with Cons show ?thesis by simp
  next
    case (index node1 child child')
    with Cons.IH [OF elements.inv_ref [OF Cons.prems(1) index(2)] Cons.prems(2)] Cons.prems(1) show ?thesis
      by (simp add: elements.inv_store)
  next
    case (key node1 child child')
    with Cons.IH [OF members.inv_ref [OF Cons.prems(1) key(2)] Cons.prems(2)] Cons.prems(1) show ?thesis
      by (simp add: members.inv_store)
  qed
qed simp

lemma Path_resolve_assign:
  "value_inv node \<Longrightarrow> Path_assign args x node = Ret node' \<Longrightarrow> Path_resolve args node' = Ret x"
proof (induction args arbitrary: node node')
  case (Cons a args)
  from Cons.prems(2) show ?case
  proof (cases rule: Path_assign_Cons)
    case none
    with Cons show ?thesis by simp
  next
    case (index node1 child child')
    with Cons.IH [OF elements.inv_ref [OF Cons.prems(1) index(2)]] Cons.prems(1) show ?thesis
      by (simp add: elements.get_store_same)
  next
    case (key node1 child child')
    with Cons.IH [OF members.inv_ref [OF Cons.prems(1) key(2)]] Cons.prems(1) show ?thesis
      by (simp add: members.get_store_same)
  qed
qed simp

text \<open>Two paths that part at an index or a name.\<close>

fun diverge :: "PathArgument list \<Rightarrow> PathArgument list \<Rightarrow> bool" where
  "diverge (a # as) (b # bs) \<longleftrightarrow> pa_kind a = pa_kind b \<and>
     (case pa_kind a of
        kindIndex \<Rightarrow> pa_index a \<noteq> pa_index b \<or> diverge as bs
      | kindKey \<Rightarrow> CZString (pa_key a) \<noteq> CZString (pa_key b) \<or> diverge as bs
      | kindNone \<Rightarrow> diverge as bs)"
| "diverge _ _ \<longleftrightarrow> False"

lemma Path_resolve_assign_other:
  "diverge bs args \<Longrightarrow> value_inv node \<Longrightarrow> Path_assign args x node = Ret node' \<Longrightarrow> Path_resolve bs node' = Path_resolve bs node"
proof (induction bs args arbitrary: node node' rule: diverge.induct)
  case (1 b bs a args)
  from "1.prems"(3) show ?case
  proof (cases rule: Path_assign_Cons)
    case none
    with 1 show ?thesis by auto
  next
    case (index node1 child child')
    note s = index and child = elements.inv_ref [OF "1.prems"(2) index(2)]
    show ?thesis
    proof (cases "pa_index b = pa_index a")
      case True
      with 1 s child have "Path_resolve bs child' = Path_resolve bs child" by auto
      with True 1 s show ?thesis by (simp add: elements.get_store_same elements.get_ref)
    next
      case False
      then have "unat (pa_index b) \<noteq> unat (pa_index a)" by (simp add: word_unat_eq_iff)
      with 1 s show ?thesis by (simp add: elements.get_store_other)
    qed
  next
    case (key node1 child child')
    note s = key and child = members.inv_ref [OF "1.prems"(2) key(2)]
    show ?thesis
    proof (cases "CZString (pa_key b) = CZString (pa_key a)")
      case True
      with 1 s child have "Path_resolve bs child' = Path_resolve bs child" by auto
      moreover have "member_const (pa_key b) node = Ret child"
        using members.get_ref [OF s(2)] unfolding member_const_def json_find_def True .
      ultimately show ?thesis using True 1 s by (simp add: members.get_store)
    next
      case False
      with 1 s show ?thesis by (simp add: members.get_store_other)
    qed
  qed
qed simp_all

lemma Path_assign_null: "\<exists>node'. Path_assign args x NullV = Ret node'"
proof (induction args)
  case (Cons a args)
  then show ?case
    using elements.ref_null [of "unat (pa_index a)"] members.ref_null [of "pa_key a"]
    by (auto split: Kind.splits)
qed simp

text \<open>\<^verbatim>\<open>make\<close> finds what \<^verbatim>\<open>resolve\<close> finds, and storing that again gives the tree that \<^verbatim>\<open>make\<close> leaves.\<close>

lemma Path_make_iff:
  "Path_make args node = Ret (node', target) \<longleftrightarrow> Path_resolve args node = Ret target \<and> Path_assign args target node = Ret node'"
proof (induction args arbitrary: node node')
  case (Cons a args)
  show ?case
    by (cases "pa_kind a") (auto simp: Cons.IH cxx_simps elements.get_ref members.get_ref)
qed auto

lemma Path_assign_again:
  "value_inv node \<Longrightarrow> Path_assign args x node = Ret node' \<Longrightarrow> Path_assign args x node' = Ret node'"
proof (induction args arbitrary: node node')
  case (Cons a args)
  from Cons.prems(2) show ?case
  proof (cases rule: Path_assign_Cons)
    case none
    with Cons show ?thesis by simp
  next
    case (index node1 child child')
    with Cons.IH [OF elements.inv_ref [OF Cons.prems(1) index(2)]] Cons.prems(1) show ?thesis
      by (simp add: elements.ref_store elements.store_again)
  next
    case (key node1 child child')
    with Cons.IH [OF members.inv_ref [OF Cons.prems(1) key(2)]] Cons.prems(1) show ?thesis
      by (simp add: members.ref_store members.store_again)
  qed
qed simp

lemma Path_make_assign: "value_inv node \<Longrightarrow> Path_assign args x node = Ret node' \<Longrightarrow> Path_make args node' = Ret (node', x)"
  by (simp add: Path_make_iff Path_resolve_assign Path_assign_again)

text \<open>
  The \<^verbatim>\<open>resolve\<close> with a default asks for the size first, which is 0 for an array that has an element at the largest index:
  it finds what was stored only where no array comes that far.
\<close>

definition last_index :: nat where "last_index = 2 ^ 32 - 1"

fun below_last :: "Value \<Rightarrow> bool" where
  "below_last (ArrayV m) \<longleftrightarrow> list_all (\<lambda>e. fst e < last_index \<and> below_last (snd e)) m"
| "below_last (ObjectV m) \<longleftrightarrow> list_all (\<lambda>e. below_last (snd e)) m"
| "below_last _ \<longleftrightarrow> True"

lemma below_last_find:
  "list_all (\<lambda>e. fst e < last_index \<and> below_last (snd e)) m \<Longrightarrow> map_find k m = Some x \<Longrightarrow> below_last x"
  "list_all (\<lambda>e. below_last (snd e)) m' \<Longrightarrow> map_find k' m' = Some x \<Longrightarrow> below_last x"
  by (induction m, auto split: if_splits) (induction m', auto split: if_splits)

lemma index_ref_below: "below_last v \<Longrightarrow> index_ref k v = Ret (v1, x0) \<Longrightarrow> below_last x0"
  by (elim index_ref_Ret) (auto dest: below_last_find split: option.splits)

lemma member_ref_below: "below_last v \<Longrightarrow> resolveReference k v = Ret (v1, x0) \<Longrightarrow> below_last x0"
  by (elim resolveReference_Ret) (auto dest: below_last_find split: option.splits)

lemma index_store_valid:
  assumes "value_inv v" and "below_last v" and "k < last_index" and "index_ref k v = Ret (v1, x0)"
  shows "isArray (index_store k x v1) \<and> isValidIndex k (index_store k x v1)"
proof -
  define m where "m = (case v of ArrayV m \<Rightarrow> m | _ \<Rightarrow> [])"
  from assms(1,4) have m: "map_inv m" "v1 = ArrayV (entries_with k m)" by (elim index_ref_Ret; auto simp: m_def)+
  from assms(2,4) have below: "\<forall>i\<in>set (map_keys m). i < last_index" by (elim index_ref_Ret) (fastforce simp: m_def list_all_iff map_keys_def)
  let ?m = "map_put k x (entries_with k m)"
  have inv: "map_inv ?m" using m(1) by (simp add: entries_with_inv)
  have k: "k \<in> set (map_keys ?m)" by simp
  then have "?m \<noteq> []" by (metis list.set_intros(1) empty_iff empty_set map_keys_simps(1))
  then have "map_keys ?m = map_keys (butlast ?m) @ [fst (last ?m)]"
    unfolding map_keys_def by (metis append_butlast_last_id map_append list.simps(8,9))
  then have le: "k \<le> fst (last ?m)" and "fst (last ?m) \<in> set (map_keys ?m)"
    using inv k by (auto simp: map_inv_def set_inv_def sorted_wrt_append)
  then have "fst (last ?m) < last_index" using below assms(3) by (auto simp: entries_with_def split: if_splits)
  with le \<open>?m \<noteq> []\<close> show ?thesis
    by (simp add: m(2) index_store_def isArray_def type_of_def isValidIndex_def json_size_array last_index_def)
qed

lemma u32_below_last: "(i :: u32) \<noteq> 4294967295 \<Longrightarrow> unat i < last_index"
  using unsigned_less [where ?'a = nat, of i] by (auto simp: word_unat_eq_iff last_index_def nat_less_le)

lemma Path_resolve_default_assign:
  "value_inv node \<Longrightarrow> below_last node \<Longrightarrow> list_all (\<lambda>a. pa_kind a = kindIndex \<longrightarrow> pa_index a \<noteq> 4294967295) args \<Longrightarrow> Path_assign args x node = Ret node' \<Longrightarrow> Path_resolve_default args d node' = Ret x"
proof (induction args arbitrary: node node')
  case (Cons a args)
  from Cons.prems(4) show ?case
  proof (cases rule: Path_assign_Cons)
    case none
    with Cons show ?thesis by simp
  next
    case (index node1 child child')
    have "unat (pa_index a) < last_index" using Cons.prems(3) index(1) u32_below_last by simp
    note valid = index_store_valid [OF Cons.prems(1,2) this index(2)]
    with index Cons.IH [OF elements.inv_ref [OF Cons.prems(1) index(2)] index_ref_below [OF Cons.prems(2) index(2)]] Cons.prems(1,3) show ?thesis
      by (simp add: elements.get_store_same)
  next
    case (key node1 child child')
    from key(2) obtain m where m: "node1 = ObjectV (entries_with (CZString (pa_key a)) m)" "map_inv m"
      using Cons.prems(1) by (elim resolveReference_Ret) (use map_inv_Nil in \<open>fastforce\<close>)
    with key Cons.IH [OF members.inv_ref [OF Cons.prems(1) key(2)] member_ref_below [OF Cons.prems(2) key(2)]] Cons.prems(3) show ?thesis
      by (simp add: member_store_def isObject_def type_of_def json_simps map_find_put entries_with_inv)
  qed
qed simp

lemma resolve_at_last_index:
  "Path_assign [PathArgument_of_index 4294967295] x NullV = Ret (ArrayV [(last_index, x)])"
  "Path_resolve [PathArgument_of_index 4294967295] (ArrayV [(last_index, x)]) = Ret x"
  "Path_resolve_default [PathArgument_of_index 4294967295] d (ArrayV [(last_index, x)]) = Ret d"
  by (simp_all add: PathArgument_of_index_def last_index_def index_ref_def index_store_def index_const_simps JSON_ASSERT_MESSAGE_def isNull_def
      type_of_def isValidIndex_def json_size_def)

end
