(* ===== verification/Json_Iterator.thy ===== *)
theory Json_Iterator
  imports Json_Ops Json_Path
begin

text \<open>
  The iterators of \<^verbatim>\<open>Json::Value\<close> and the rest of its element access (\<^verbatim>\<open>src/dist/jsoncpp.cpp\<close>). An iterator
  is a position in the entries of the map it was made for, together with the flag \<^verbatim>\<open>isNull_\<close> of the
  iterators of values that have no map. Dereferencing or incrementing the end, and walking past
  it, is undefined in C++ and \<open>None\<close> here. The loops of the program and of the writers over
  \<^verbatim>\<open>begin()\<close> and \<^verbatim>\<open>end()\<close> are shown to visit the entries that \<open>iter_names\<close> and \<open>iter_values\<close> list.
\<close>

section \<open>Iterators\<close>

text \<open>A key of the map: a \<^verbatim>\<open>CZString\<close> with \<^verbatim>\<open>cstr_\<close> set, or with an index.\<close>

datatype CZKey = CZ_name string | CZ_index nat

definition map_entries :: "Value \<Rightarrow> (CZKey \<times> Value) list" where
  "map_entries v = (case v of
       ArrayV m \<Rightarrow> map (\<lambda>e. (CZ_index (fst e), snd e)) m
     | ObjectV m \<Rightarrow> map (\<lambda>e. (CZ_name (fst e), snd e)) m
     | _ \<Rightarrow> [])"

record ValueIterator =
  it_map :: "(CZKey \<times> Value) list"
  it_current :: nat
  it_isNull :: bool

definition null_iterator :: ValueIterator where
  "null_iterator = \<lparr>it_map = [], it_current = 0, it_isNull = True\<rparr>"

definition iterator_at :: "(CZKey \<times> Value) list \<Rightarrow> nat \<Rightarrow> ValueIterator" where
  "iterator_at m current = \<lparr>it_map = m, it_current = current, it_isNull = False\<rparr>"

definition json_begin :: "Value \<Rightarrow> ValueIterator" where
  "json_begin v = (if isArray v \<or> isObject v then iterator_at (map_entries v) 0 else null_iterator)"

definition json_end :: "Value \<Rightarrow> ValueIterator" where
  "json_end v =
     (if isArray v \<or> isObject v then iterator_at (map_entries v) (length (map_entries v)) else null_iterator)"

definition current_entry :: "ValueIterator \<Rightarrow> (CZKey \<times> Value) option" where
  "current_entry it = (if it_current it < length (it_map it) then Some (it_map it ! it_current it) else None)"

definition deref :: "ValueIterator \<Rightarrow> Value option" where
  "deref it = map_option snd (current_entry it)"

definition increment :: "ValueIterator \<Rightarrow> ValueIterator option" where
  "increment it =
     (if it_current it < length (it_map it) then Some (it\<lparr>it_current := it_current it + 1\<rparr>) else None)"

definition decrement :: "ValueIterator \<Rightarrow> ValueIterator option" where
  "decrement it = (if it_current it = 0 then None else Some (it\<lparr>it_current := it_current it - 1\<rparr>))"

function distance_loop :: "ValueIterator \<Rightarrow> ValueIterator \<Rightarrow> nat \<Rightarrow> nat option" where
  "distance_loop it other myDistance =
     (if it_current it = it_current other then Some myDistance
      else case increment it of None \<Rightarrow> None | Some it' \<Rightarrow> distance_loop it' other (myDistance + 1))"
  by pat_completeness auto
termination
  by (relation "measure (\<lambda>(it, other, d). length (it_map it) - it_current it)") (auto simp: increment_def split: if_splits)

definition computeDistance :: "ValueIterator \<Rightarrow> ValueIterator \<Rightarrow> nat option" where
  "computeDistance it other = (if it_isNull it \<and> it_isNull other then Some 0 else distance_loop it other 0)"

definition isEqual :: "ValueIterator \<Rightarrow> ValueIterator \<Rightarrow> bool" where
  "isEqual it other =
     (if it_isNull it then it_isNull other else \<not> it_isNull other \<and> it_current it = it_current other)"

definition iterator_key :: "ValueIterator \<Rightarrow> Value cxx option" where
  "iterator_key it = map_option (\<lambda>e. case fst e of CZ_name s \<Rightarrow> Value_of_string s | CZ_index i \<Rightarrow> Ret (UIntV (of_nat i)))
     (current_entry it)"

definition iterator_index :: "ValueIterator \<Rightarrow> u32 option" where
  "iterator_index it = map_option (\<lambda>e. case fst e of CZ_name s \<Rightarrow> - 1 | CZ_index i \<Rightarrow> of_nat i) (current_entry it)"

definition memberName_end :: "ValueIterator \<Rightarrow> string option option" where
  "memberName_end it = map_option (\<lambda>e. case fst e of CZ_name s \<Rightarrow> Some s | CZ_index i \<Rightarrow> None) (current_entry it)"

definition iterator_name :: "ValueIterator \<Rightarrow> string option" where
  "iterator_name it = map_option (\<lambda>keey. case keey of None \<Rightarrow> [] | Some s \<Rightarrow> s) (memberName_end it)"

definition memberName :: "ValueIterator \<Rightarrow> string option" where
  "memberName it = map_option (\<lambda>e. case fst e of CZ_name s \<Rightarrow> c_str s | CZ_index i \<Rightarrow> []) (current_entry it)"

section \<open>Loops over a value\<close>

text \<open>\<^verbatim>\<open>for (it = v.begin(); it != v.end(); ++it)\<close>, collecting what the body reads of the iterator.\<close>

function iterate :: "(ValueIterator \<Rightarrow> 'a option) \<Rightarrow> ValueIterator \<Rightarrow> ValueIterator \<Rightarrow> 'a list option" where
  "iterate read it stop =
     (if isEqual it stop then Some []
      else case read it of
        None \<Rightarrow> None
      | Some x \<Rightarrow> (case increment it of
          None \<Rightarrow> None
        | Some it' \<Rightarrow> map_option (Cons x) (iterate read it' stop)))"
  by pat_completeness auto
termination
  by (relation "measure (\<lambda>(read, it, stop). length (it_map it) - it_current it)") (auto simp: increment_def split: if_splits)

declare iterate.simps [simp del] distance_loop.simps [simp del]

lemma iterate_from:
  assumes "\<And>i. i < length m \<Longrightarrow> read (iterator_at m i) = Some (f (m ! i))" and "i \<le> length m"
  shows "iterate read (iterator_at m i) (iterator_at m (length m)) = Some (map f (drop i m))"
  using assms(2)
proof (induction "length m - i" arbitrary: i)
  case 0
  then show ?case by (subst iterate.simps) (simp add: isEqual_def iterator_at_def)
next
  case (Suc n)
  then have "i < length m" by simp
  have "increment (iterator_at m i) = Some (iterator_at m (Suc i))"
    using \<open>i < length m\<close> by (simp add: increment_def iterator_at_def)
  moreover have "iterate read (iterator_at m (Suc i)) (iterator_at m (length m)) = Some (map f (drop (Suc i) m))"
    using Suc by simp
  moreover have "\<not> isEqual (iterator_at m i) (iterator_at m (length m))"
    using \<open>i < length m\<close> by (simp add: isEqual_def iterator_at_def)
  ultimately show ?case
    using assms(1) [OF \<open>i < length m\<close>] Cons_nth_drop_Suc [OF \<open>i < length m\<close>, symmetric]
    by (subst iterate.simps) simp
qed

lemma current_entry_at: "i < length m \<Longrightarrow> current_entry (iterator_at m i) = Some (m ! i)"
  by (simp add: current_entry_def iterator_at_def)

lemma iterate_value:
  assumes "\<And>i. i < length (map_entries v) \<Longrightarrow> read (iterator_at (map_entries v) i) = Some (f (map_entries v ! i))"
  shows "iterate read (json_begin v) (json_end v) = Some (map f (map_entries v))"
proof (cases "isArray v \<or> isObject v")
  case True
  have "iterate read (iterator_at (map_entries v) 0) (iterator_at (map_entries v) (length (map_entries v))) =
      Some (map f (drop 0 (map_entries v)))"
    by (rule iterate_from) (simp_all add: assms)
  with True show ?thesis by (simp add: json_begin_def json_end_def)
next
  case False
  then have "map_entries v = []" by (cases v) (simp_all add: map_entries_def isArray_def isObject_def type_of_def)
  with False show ?thesis
    by (subst iterate.simps) (simp add: json_begin_def json_end_def null_iterator_def isEqual_def)
qed

lemma iterate_deref: "iterate deref (json_begin v) (json_end v) = Some (iter_values v)"
proof -
  have "iter_values v = map snd (map_entries v)"
    by (cases v) (simp_all add: iter_values_def map_entries_def o_def)
  then show ?thesis by (simp add: iterate_value [where f = snd] deref_def current_entry_at)
qed

definition named_deref :: "ValueIterator \<Rightarrow> (string \<times> Value) option" where
  "named_deref it = (case (iterator_name it, deref it) of (Some k, Some v) \<Rightarrow> Some (k, v) | _ \<Rightarrow> None)"

lemma iterate_names: "iterate named_deref (json_begin v) (json_end v) = Some (iter_names v)"
proof -
  let ?f = "\<lambda>e :: CZKey \<times> Value. (case fst e of CZ_name s \<Rightarrow> s | CZ_index i \<Rightarrow> [], snd e)"
  have "iter_names v = map ?f (map_entries v)"
    by (cases v) (simp_all add: iter_names_def map_entries_def o_def)
  moreover have "named_deref (iterator_at (map_entries v) i) = Some (?f (map_entries v ! i))" if "i < length (map_entries v)" for i
    using that by (auto simp: named_deref_def iterator_name_def memberName_end_def deref_def current_entry_at split: CZKey.splits)
  ultimately show ?thesis by (simp add: iterate_value [where f = ?f])
qed

lemma distance_from:
  "i \<le> j \<Longrightarrow> j \<le> length m \<Longrightarrow> distance_loop (iterator_at m i) (iterator_at m j) d = Some (d + (j - i))"
proof (induction "j - i" arbitrary: i d)
  case 0
  then show ?case by (subst distance_loop.simps) (simp add: iterator_at_def)
next
  case (Suc n)
  then have "increment (iterator_at m i) = Some (iterator_at m (Suc i))" by (simp add: increment_def iterator_at_def)
  moreover have "distance_loop (iterator_at m (Suc i)) (iterator_at m j) (d + 1) = Some (d + 1 + (j - Suc i))"
    using Suc by (intro Suc.hyps(1)) simp_all
  moreover have "d + 1 + (j - Suc i) = d + (j - i)" "i \<noteq> j" using Suc.hyps(2) by simp_all
  ultimately show ?case by (subst distance_loop.simps) (simp add: iterator_at_def)
qed

lemma distance_back:
  "j < i \<Longrightarrow> i \<le> length m \<Longrightarrow> distance_loop (iterator_at m i) (iterator_at m j) d = None"
proof (induction "length m - i" arbitrary: i d)
  case 0
  then show ?case by (subst distance_loop.simps) (simp add: iterator_at_def increment_def)
next
  case (Suc n)
  then have "increment (iterator_at m i) = Some (iterator_at m (Suc i))" by (simp add: increment_def iterator_at_def)
  moreover have "distance_loop (iterator_at m (Suc i)) (iterator_at m j) (d + 1) = None"
    using Suc by (intro Suc.hyps(1)) simp_all
  ultimately show ?case using Suc.prems by (subst distance_loop.simps) (simp add: iterator_at_def)
qed

text \<open>The distance from \<^verbatim>\<open>begin()\<close> to \<^verbatim>\<open>end()\<close> counts the entries; the other way round the walk leaves the map.\<close>

lemma distance_begin_end: "computeDistance (json_begin v) (json_end v) = Some (length (map_entries v))"
proof (cases "isArray v \<or> isObject v")
  case True
  with distance_from [of 0 "length (map_entries v)" "map_entries v" 0] show ?thesis
    by (simp add: computeDistance_def json_begin_def json_end_def) (simp add: iterator_at_def)
next
  case False
  then have "map_entries v = []" by (cases v) (simp_all add: map_entries_def isArray_def isObject_def type_of_def)
  with False show ?thesis by (simp add: computeDistance_def json_begin_def json_end_def null_iterator_def)
qed

lemma distance_end_begin: "map_entries v \<noteq> [] \<Longrightarrow> computeDistance (json_end v) (json_begin v) = None"
proof -
  assume "map_entries v \<noteq> []"
  then have "isArray v \<or> isObject v" by (cases v) (simp_all add: map_entries_def isArray_def isObject_def type_of_def)
  with \<open>map_entries v \<noteq> []\<close> distance_back [of 0 "length (map_entries v)" "map_entries v" 0] show ?thesis
    by (simp add: computeDistance_def json_begin_def json_end_def) (simp add: iterator_at_def)
qed

lemma increment_decrement: "increment it = Some it' \<Longrightarrow> decrement it' = Some it"
  by (auto simp: increment_def decrement_def split: if_splits)

section \<open>The rest of the element access\<close>

definition index_ref_int :: "i32 \<Rightarrow> Value \<Rightarrow> (Value \<times> Value) cxx" where
  "index_ref_int index v =
     cxx_bind (JSON_ASSERT_MESSAGE (0 \<le> sint index)
        ''in Json::Value::operator[](int index): index cannot be negative'') (\<lambda>_. index_ref (unat index) v)"

definition index_const_int :: "i32 \<Rightarrow> Value \<Rightarrow> Value cxx" where
  "index_const_int index v =
     cxx_bind (JSON_ASSERT_MESSAGE (0 \<le> sint index)
        ''in Json::Value::operator[](int index) const: index cannot be negative'') (\<lambda>_. index_const (unat index) v)"

text \<open>\<^verbatim>\<open>get(ArrayIndex, defaultValue)\<close>: \<^verbatim>\<open>value == &nullRef\<close> says that there is no such element.\<close>

definition index_get :: "nat \<Rightarrow> Value \<Rightarrow> Value \<Rightarrow> Value cxx" where
  "index_get index defaultValue v =
     cxx_bind (index_const index v) (\<lambda>x.
     Ret (case v of
        ArrayV m \<Rightarrow> if map_find index m = None then defaultValue else x
      | _ \<Rightarrow> defaultValue))"

definition resolveReference_cstr :: "string \<Rightarrow> Value \<Rightarrow> (Value \<times> Value) cxx" where
  "resolveReference_cstr key v =
     cxx_bind (JSON_ASSERT_MESSAGE (isNull v \<or> isObject v)
        ''in Json::Value::resolveReference(): requires objectValue'') (\<lambda>_.
     let m = (case v of ObjectV m \<Rightarrow> m | _ \<Rightarrow> []) in
     case map_find (CZString (c_str key)) m of
       Some x \<Rightarrow> Ret (ObjectV m, x)
     | None \<Rightarrow> Ret (ObjectV (map_put (CZString (c_str key)) NullV m), NullV))"

text \<open>\<^verbatim>\<open>removeMember(key)\<close>: the object afterwards and the member, null if there was none.\<close>

definition removeMember_value :: "string \<Rightarrow> Value \<Rightarrow> (Value \<times> Value) cxx" where
  "removeMember_value key v =
     cxx_bind (JSON_ASSERT_MESSAGE (isNull v \<or> isObject v)
        ''in Json::Value::removeMember(): requires objectValue'') (\<lambda>_.
     if isNull v then Ret (v, NullV)
     else Ret (case removeMember (c_str key) v of None \<Rightarrow> (v, NullV) | Some r \<Rightarrow> r))"

definition value_le :: "Value \<Rightarrow> Value \<Rightarrow> bool" where "value_le v w \<longleftrightarrow> \<not> value_less w v"
definition value_ge :: "Value \<Rightarrow> Value \<Rightarrow> bool" where "value_ge v w \<longleftrightarrow> \<not> value_less v w"
definition value_gt :: "Value \<Rightarrow> Value \<Rightarrow> bool" where "value_gt v w \<longleftrightarrow> value_less w v"
definition value_not_equal :: "Value \<Rightarrow> Value \<Rightarrow> bool" where "value_not_equal v w \<longleftrightarrow> \<not> value_equal v w"
definition operator_not :: "Value \<Rightarrow> bool" where "operator_not v \<longleftrightarrow> isNull v"

definition getString :: "Value \<Rightarrow> string option" where
  "getString v = (case v of StringV s \<Rightarrow> Some s | _ \<Rightarrow> None)"

definition asCString :: "Value \<Rightarrow> string cxx" where
  "asCString v =
     cxx_bind (JSON_ASSERT_MESSAGE (isString v) ''in Json::Value::asCString(): requires stringValue'')
       (\<lambda>_. Ret (case v of StringV s \<Rightarrow> c_str s | _ \<Rightarrow> []))"

text \<open>
  What is removed is what was found, and it is gone afterwards; a name with a NUL byte is cut
  there, so another member is removed.
\<close>

lemma removeMember_removes:
  assumes "map_inv m"
  shows "removeMember_value key (ObjectV m) = Ret (ObjectV (map_erase (CZString (c_str key)) m),
    case map_find (CZString (c_str key)) m of None \<Rightarrow> NullV | Some x \<Rightarrow> x)"
proof -
  have "map_erase k m = m" if "map_find k m = None" for k
    using that by (induction k m rule: map_erase.induct) (auto split: if_splits)
  then show ?thesis
    by (simp add: removeMember_value_def removeMember_def JSON_ASSERT_MESSAGE_def isNull_def isObject_def type_of_def split: option.split)
qed

text \<open>Within the range of \<^verbatim>\<open>int\<close>, the two overloads for an index agree; a negative index throws.\<close>

lemma index_int_agrees:
  "0 \<le> sint i \<Longrightarrow> index_ref_int i v = index_ref (nat (sint i)) v"
  "sint i < 0 \<Longrightarrow> \<exists>msg. index_ref_int i v = Throw (Json_LogicError msg)"
proof -
  assume "0 \<le> sint i"
  then have "unat i = nat (sint i)" by (simp add: unat_eq_nat_uint uint_sint_nonneg)
  with \<open>0 \<le> sint i\<close> show "index_ref_int i v = index_ref (nat (sint i)) v"
    by (simp add: index_ref_int_def JSON_ASSERT_MESSAGE_def)
next
  assume "sint i < 0"
  then show "\<exists>msg. index_ref_int i v = Throw (Json_LogicError msg)" by (simp add: index_ref_int_def JSON_ASSERT_MESSAGE_def)
qed

end
