(* ===== verification/Json_Annotation.thy ===== *)
theory Json_Annotation
  imports Json_Reader
begin

text \<open>
  What a \<^verbatim>\<open>Value\<close> of jsoncpp holds beside its payload (\<^verbatim>\<open>src/dist/jsoncpp.cpp\<close>): its comments and its byte
  offsets in the document, an \<open>Annotation\<close>. The annotations of a tree are a function from paths to
  annotations (\<open>Notes\<close>); a value together with those of its tree is a \<open>Node\<close>.
\<close>

section \<open>Annotations of a value\<close>

datatype CommentPlacement = commentBefore | commentAfterOnSameLine | commentAfter

record Annotation =
  an_comments :: "CommentPlacement \<Rightarrow> string option"
  an_start :: u64
  an_limit :: u64

definition no_annotation :: Annotation where
  "no_annotation = \<lparr>an_comments = (\<lambda>_. None), an_start = 0, an_limit = 0\<rparr>"

definition duplicateStringValue :: "string \<Rightarrow> nat \<Rightarrow> string" where
  "duplicateStringValue text len = take (if int len \<ge> maxInt then nat (maxInt - 1) else len) text"

text \<open>The text is a NUL-terminated buffer: at the end of the list \<^verbatim>\<open>text[0]\<close> is the terminator.\<close>

definition CommentInfo_setComment :: "string \<Rightarrow> nat \<Rightarrow> string cxx" where
  "CommentInfo_setComment text len =
     cxx_bind (JSON_ASSERT_MESSAGE (peekChar text = NUL \<or> peekChar text = CHR ''/'')
        ''in Json::Value::setComment(): Comments must start with /'') (\<lambda>_.
     Ret (duplicateStringValue text len))"

definition setComment :: "string \<Rightarrow> CommentPlacement \<Rightarrow> Annotation \<Rightarrow> Annotation cxx" where
  "setComment comment placement a =
     (let len = length comment;
          len' = (if len > 0 \<and> last comment = CHR 0x0A then len - 1 else len)
      in cxx_bind (CommentInfo_setComment comment len') (\<lambda>c.
           Ret (a\<lparr>an_comments := (an_comments a)(placement := Some c)\<rparr>)))"

definition hasComment :: "CommentPlacement \<Rightarrow> Annotation \<Rightarrow> bool" where
  "hasComment placement a \<longleftrightarrow> an_comments a placement \<noteq> None"

definition getComment :: "CommentPlacement \<Rightarrow> Annotation \<Rightarrow> string" where
  "getComment placement a = (case an_comments a placement of None \<Rightarrow> [] | Some c \<Rightarrow> c_str c)"

definition setOffsetStart :: "u64 \<Rightarrow> Annotation \<Rightarrow> Annotation" where "setOffsetStart start a = a\<lparr>an_start := start\<rparr>"
definition setOffsetLimit :: "u64 \<Rightarrow> Annotation \<Rightarrow> Annotation" where "setOffsetLimit limit a = a\<lparr>an_limit := limit\<rparr>"
definition getOffsetStart :: "Annotation \<Rightarrow> u64" where "getOffsetStart a = an_start a"
definition getOffsetLimit :: "Annotation \<Rightarrow> u64" where "getOffsetLimit a = an_limit a"

text \<open>The copy constructor copies each comment up to its first NUL, and the offsets.\<close>

definition copy_comment :: "CommentPlacement \<Rightarrow> Annotation \<Rightarrow> Annotation \<Rightarrow> Annotation cxx" where
  "copy_comment placement other a =
     (case an_comments other placement of
        None \<Rightarrow> Ret a
      | Some c \<Rightarrow> cxx_bind (CommentInfo_setComment c (length (c_str c))) (\<lambda>c'.
          Ret (a\<lparr>an_comments := (an_comments a)(placement := Some c')\<rparr>)))"

definition copy_annotation :: "Annotation \<Rightarrow> Annotation cxx" where
  "copy_annotation other =
     cxx_bind (copy_comment commentBefore other (no_annotation\<lparr>an_start := an_start other, an_limit := an_limit other\<rparr>)) (\<lambda>a.
     cxx_bind (copy_comment commentAfterOnSameLine other a) (copy_comment commentAfter other))"

section \<open>Annotations of a tree\<close>

text \<open>A node of the tree is named by the keys on the way from the root.\<close>

datatype Step = Step_name string | Step_index nat

type_synonym Notes = "Step list \<Rightarrow> Annotation"

type_synonym Node = "Notes \<times> Value"

definition own_note :: "Node \<Rightarrow> Annotation" where "own_note node = fst node []"

definition bare :: "Value \<Rightarrow> Node" where "bare v = (\<lambda>_. no_annotation, v)"

definition sub_notes :: "Notes \<Rightarrow> Step \<Rightarrow> Notes" where "sub_notes N step = (\<lambda>p. N (step # p))"

text \<open>The constant \<^verbatim>\<open>operator[]\<close>: what it refers to, or the null singleton, which has no comments.\<close>

definition element_node :: "Notes \<Rightarrow> (nat \<times> Value) list \<Rightarrow> nat \<Rightarrow> Node" where
  "element_node N m index =
     (case map_find index m of None \<Rightarrow> bare NullV | Some v \<Rightarrow> (sub_notes N (Step_index index), v))"

definition member_node :: "Notes \<Rightarrow> (string \<times> Value) list \<Rightarrow> string \<Rightarrow> Node" where
  "member_node N m name =
     (case map_find (CZString name) m of None \<Rightarrow> bare NullV | Some v \<Rightarrow> (sub_notes N (Step_name (CZString name)), v))"

end
