(* ===== verification/Json_Construct.thy ===== *)
theory Json_Construct
  imports Json_Iterator Json_Annotation
begin

text \<open>
  How values come to be (\<^verbatim>\<open>src/dist/jsoncpp.cpp\<close>): the buffer of a string value, which holds the length before
  the bytes; the constructors; the copy constructor and the assignment. A reader that decodes the buffer sees
  the string of the model, the accessors invert the constructors, and a copy is the value.
\<close>

section \<open>The buffer of a string value\<close>

text \<open>The four bytes of an \<^verbatim>\<open>unsigned\<close>, the lowest first, and the \<^verbatim>\<open>unsigned\<close> at the beginning of a buffer.\<close>

definition unsigned_bytes :: "u32 \<Rightarrow> string" where
  "unsigned_bytes w = map (\<lambda>i. char_of (unat w div 256 ^ i mod 256)) [0..<4]"

definition bytes_unsigned :: "string \<Rightarrow> u32" where
  "bytes_unsigned p = of_nat (foldr (\<lambda>c n. of_char c + 256 * n) (take 4 p) (0::nat))"

definition duplicateAndPrefixStringValue :: "string \<Rightarrow> u32 \<Rightarrow> string cxx" where
  "duplicateAndPrefixStringValue text len =
     cxx_bind (JSON_ASSERT_MESSAGE (uint len \<le> maxInt - 4 - 1)
         ''in Json::Value::duplicateAndPrefixStringValue(): length too big for prefixing'')
       (\<lambda>_. Ret (unsigned_bytes len @ take (unat len) text @ [CHR 0x00]))"

text \<open>The length, and the text from the pointer on.\<close>

definition decodePrefixedString :: "bool \<Rightarrow> string \<Rightarrow> u32 \<times> string" where
  "decodePrefixedString isPrefixed prefixed =
     (if \<not> isPrefixed then (of_nat (length (c_str prefixed)), prefixed)
      else (bytes_unsigned prefixed, drop 4 prefixed))"

section \<open>Constructors\<close>

definition Value_of_Int :: "i32 \<Rightarrow> Value" where "Value_of_Int value = IntV (scast value)"
definition Value_of_UInt :: "u32 \<Rightarrow> Value" where "Value_of_UInt value = UIntV (ucast value)"
definition Value_of_Int64 :: "u64 \<Rightarrow> Value" where "Value_of_Int64 value = IntV value"
definition Value_of_UInt64 :: "u64 \<Rightarrow> Value" where "Value_of_UInt64 value = UIntV value"
definition Value_of_double :: "double \<Rightarrow> Value" where "Value_of_double value = RealV value"
definition Value_of_bool :: "bool \<Rightarrow> Value" where "Value_of_bool value = BoolV value"

text \<open>The string a buffer stands for.\<close>

definition buffer_value :: "string \<Rightarrow> Value" where
  "buffer_value p = (case decodePrefixedString True p of (len, str) \<Rightarrow> StringV (take (unat len) str))"

text \<open>From a NUL-terminated string, from the bytes between two pointers, and from a static string, which is not copied.\<close>

definition Value_of_cstring :: "string \<Rightarrow> Value cxx" where
  "Value_of_cstring text =
     cxx_bind (duplicateAndPrefixStringValue text (of_nat (length (c_str text)))) (\<lambda>p. Ret (buffer_value p))"

definition Value_of_range :: "string \<Rightarrow> string \<Rightarrow> Value cxx" where
  "Value_of_range beginValue endValue =
     cxx_bind (duplicateAndPrefixStringValue beginValue (of_nat (length beginValue - length endValue))) (\<lambda>p. Ret (buffer_value p))"

definition Value_of_StaticString :: "string \<Rightarrow> Value" where
  "Value_of_StaticString text = (case decodePrefixedString False text of (len, str) \<Rightarrow> StringV (take (unat len) str))"

section \<open>Copies\<close>

primrec cxx_each :: "('a \<Rightarrow> 'b cxx) \<Rightarrow> 'a list \<Rightarrow> 'b list cxx" where
  "cxx_each f [] = Ret []"
| "cxx_each f (x # xs) = cxx_bind (f x) (\<lambda>y. cxx_bind (cxx_each f xs) (\<lambda>ys. Ret (y # ys)))"

lemma cxx_each_cong [fundef_cong]:
  "xs = ys \<Longrightarrow> (\<And>x. x \<in> set ys \<Longrightarrow> f x = g x) \<Longrightarrow> cxx_each f xs = cxx_each g ys"
  by (induction ys arbitrary: xs) auto

text \<open>
  A string that owns its buffer is decoded and written into a new one; the map of a container is copied entry
  by entry, with a copy of each name.
\<close>

fun Value_copy :: "Value \<Rightarrow> Value cxx" where
  "Value_copy (StringV s) = cxx_bind (duplicateAndPrefixStringValue s (of_nat (length s))) (\<lambda>p. Ret (buffer_value p))"
| "Value_copy (ArrayV m) =
     cxx_bind (cxx_each (\<lambda>e. cxx_bind (Value_copy (snd e)) (\<lambda>v. Ret (fst e, v))) m) (\<lambda>m'. Ret (ArrayV m'))"
| "Value_copy (ObjectV m) =
     cxx_bind (cxx_each (\<lambda>e. cxx_bind (Value_copy (snd e)) (\<lambda>v. Ret (duplicateStringValue (fst e) (length (fst e)), v))) m)
       (\<lambda>m'. Ret (ObjectV m'))"
| "Value_copy v = Ret v"

text \<open>
  A \<^verbatim>\<open>Value\<close> object with its own comments and offsets. \<^verbatim>\<open>swapPayload\<close> leaves those where they are, \<^verbatim>\<open>swap\<close> does not;
  \<^verbatim>\<open>operator=\<close> takes its argument by value and swaps it in.
\<close>

definition Value_swapPayload :: "Annotation \<times> Value \<Rightarrow> Annotation \<times> Value \<Rightarrow> (Annotation \<times> Value) \<times> (Annotation \<times> Value)" where
  "Value_swapPayload this other = ((fst this, snd other), (fst other, snd this))"

definition Value_swap :: "Annotation \<times> Value \<Rightarrow> Annotation \<times> Value \<Rightarrow> (Annotation \<times> Value) \<times> (Annotation \<times> Value)" where
  "Value_swap this other =
     (let (this', other') = Value_swapPayload this other in ((fst other', snd this'), (fst this', snd other')))"

definition new_Value_copy :: "Annotation \<times> Value \<Rightarrow> (Annotation \<times> Value) cxx" where
  "new_Value_copy other = cxx_bind (Value_copy (snd other)) (\<lambda>v. cxx_bind (copy_annotation (fst other)) (\<lambda>a. Ret (a, v)))"

definition Value_assign :: "Annotation \<times> Value \<Rightarrow> Annotation \<times> Value \<Rightarrow> (Annotation \<times> Value) cxx" where
  "Value_assign this other = cxx_bind (new_Value_copy other) (\<lambda>copy. Ret (fst (Value_swap this copy)))"

section \<open>Access by the three kinds of name\<close>

text \<open>\<^verbatim>\<open>operator[]\<close> for a member that may have to be created, and the two overloads of \<^verbatim>\<open>removeMember\<close> with a target.\<close>

definition member_ref_cstring :: "string \<Rightarrow> Value \<Rightarrow> (Value \<times> Value) cxx" where
  "member_ref_cstring key v = resolveReference (c_str key) v"

definition member_ref_string :: "string \<Rightarrow> Value \<Rightarrow> (Value \<times> Value) cxx" where
  "member_ref_string key v = resolveReference key v"

definition member_ref_static :: "string \<Rightarrow> Value \<Rightarrow> (Value \<times> Value) cxx" where
  "member_ref_static key v = resolveReference_cstr key v"

definition removeMember_cstring :: "string \<Rightarrow> Value \<Rightarrow> (Value \<times> Value) option" where
  "removeMember_cstring key v = removeMember (c_str key) v"

definition removeMember_string :: "string \<Rightarrow> Value \<Rightarrow> (Value \<times> Value) option" where
  "removeMember_string key v = removeMember key v"

section \<open>The buffer represents the string\<close>

lemma length_unsigned_bytes [simp]: "length (unsigned_bytes w) = 4"
  by (simp add: unsigned_bytes_def)

lemma bytes_unsigned_bytes [simp]: "bytes_unsigned (unsigned_bytes w @ s) = w"
proof -
  define n where "n = unat w"
  define a where "a = n div 256"
  define b where "b = a div 256"
  have n: "n < 2 ^ 32" unfolding n_def using unsigned_less [of w, where ?'a = nat] by simp
  have d: "n div 256 ^ 2 = b" "n div 256 ^ 3 = b div 256" by (simp_all add: a_def b_def div_mult2_eq [symmetric])
  have "b div 256 mod 256 = b div 256" using n by (simp add: a_def b_def div_mult2_eq [symmetric])
  then have "b mod 256 + 256 * (b div 256 mod 256) = b" by (simp add: mod_mult_div_eq)
  then have "n mod 256 + 256 * (n div 256 mod 256 + 256 * (n div 256 ^ 2 mod 256 + 256 * (n div 256 ^ 3 mod 256))) = n"
    unfolding d using mod_mult_div_eq [of a 256] mod_mult_div_eq [of n 256] unfolding a_def [symmetric] b_def [symmetric] by simp
  moreover have "take 4 (unsigned_bytes w @ s) = map char_of [n mod 256, n div 256 mod 256, n div 256 ^ 2 mod 256, n div 256 ^ 3 mod 256]"
    by (simp add: unsigned_bytes_def n_def upt_rec [of _ 4])
  ultimately have "foldr (\<lambda>c m. of_char c + 256 * m) (take 4 (unsigned_bytes w @ s)) (0::nat) = n" using n by simp
  then show ?thesis by (simp add: bytes_unsigned_def n_def)
qed

lemma decode_duplicate:
  assumes "duplicateAndPrefixStringValue text len = Ret p"
  shows "decodePrefixedString True p = (len, take (unat len) text @ [CHR 0x00])"
  using assms by (auto simp: duplicateAndPrefixStringValue_def decodePrefixedString_def cxx_simps)

lemma buffer_value_duplicate:
  assumes "duplicateAndPrefixStringValue text len = Ret p" and "unat len \<le> length text"
  shows "buffer_value p = StringV (take (unat len) text)"
  using assms(2) by (simp add: buffer_value_def decode_duplicate [OF assms(1)])

text \<open>So the constructor from a string, which the other theories use without its buffer, is the one with it.\<close>

lemma Value_of_string_buffer:
  "Value_of_string s = cxx_bind (duplicateAndPrefixStringValue s (of_nat (length s))) (\<lambda>p. Ret (buffer_value p))"
proof -
  have "uint (of_nat (length s) :: u32) = int (length s) mod 2 ^ 32"
    by (simp add: uint_nat unat_of_nat zmod_int)
  moreover have "unat (of_nat (length s) :: u32) = nat (int (length s) mod 2 ^ 32)"
    by (simp add: unat_of_nat nat_mod_as_int)
  moreover have "nat (int (length s) mod 2 ^ 32) \<le> length s"
    using zmod_le_nonneg_dividend [of "int (length s)" "2 ^ 32"] by simp
  ultimately show ?thesis
    using buffer_value_duplicate [of s "of_nat (length s)"]
    by (auto simp: Value_of_string_def Let_def duplicateAndPrefixStringValue_def JSON_ASSERT_MESSAGE_def)
qed

section \<open>The accessors invert the constructors\<close>

lemma asInt_Value_of_Int: "asInt (Value_of_Int i) = Ret i"
proof -
  have "sint (scast i :: u64) = sint i"
    using sint_greater_eq [of i] sint_less [of i] by (simp add: signed_scast_eq signed_take_bit_int_eq_self)
  then have "isInt (Value_of_Int i)"
    using sint_greater_eq [of i] sint_less [of i] by (simp add: Value_of_Int_def isInt_def minInt_def maxInt_def)
  moreover have "ucast (scast i :: u64) = i" by (rule bit_word_eqI) (simp add: bit_simps)
  ultimately show ?thesis by (simp add: asInt_def Value_of_Int_def JSON_ASSERT_MESSAGE_def)
qed

lemma asUInt_Value_of_UInt: "asUInt (Value_of_UInt u) = Ret u"
proof -
  have "isUInt (Value_of_UInt u)"
    using unsigned_less [of u, where ?'a = int] by (simp add: Value_of_UInt_def isUInt_def maxUInt_def unsigned_ucast_eq take_bit_int_eq_self)
  moreover have "ucast (ucast u :: u64) = u" by (rule bit_word_eqI) (simp add: bit_simps)
  ultimately show ?thesis by (simp add: asUInt_def Value_of_UInt_def JSON_ASSERT_MESSAGE_def)
qed

lemma asInt64_Value_of_Int64: "asInt64 (Value_of_Int64 i) = Ret i"
  by (simp add: Value_of_Int64_def asInt64_def)

lemma asUInt64_Value_of_UInt64: "asUInt64 (Value_of_UInt64 u) = Ret u"
  by (simp add: Value_of_UInt64_def asUInt64_def)

lemma duplicate_short:
  assumes "int len \<le> maxInt - 5"
  shows "duplicateAndPrefixStringValue s (of_nat len) = Ret (unsigned_bytes (of_nat len) @ take len s @ [CHR 0x00])"
    and "unat (of_nat len :: u32) = len"
proof -
  show "unat (of_nat len :: u32) = len" using assms by (simp add: unat_of_nat maxInt_def)
  then show "duplicateAndPrefixStringValue s (of_nat len) = Ret (unsigned_bytes (of_nat len) @ take len s @ [CHR 0x00])"
    using assms by (simp add: duplicateAndPrefixStringValue_def JSON_ASSERT_MESSAGE_def uint_nat)
qed

lemma duplicate_value:
  assumes "int len \<le> maxInt - 5" and "len \<le> length s"
  shows "cxx_bind (duplicateAndPrefixStringValue s (of_nat len)) (\<lambda>p. Ret (buffer_value p)) = Ret (StringV (take len s))"
  using buffer_value_duplicate [OF duplicate_short(1) [OF assms(1), of s]] duplicate_short [OF assms(1)] assms(2) by simp

lemma length_c_str: "length (c_str s) \<le> length s" "take (length (c_str s)) s = c_str s"
  by (simp_all add: c_str_def length_takeWhile_le takeWhile_eq_take [symmetric])

lemma asString_Value_of_cstring:
  assumes "int (length s) \<le> maxInt - 5"
  shows "cxx_bind (Value_of_cstring s) (asString L) = Ret (c_str s)"
  using duplicate_value [of "length (c_str s)" s] length_c_str [of s] assms
  by (simp add: Value_of_cstring_def asString_StringV)

lemma asString_Value_of_range:
  assumes "int (length s) \<le> maxInt - 5"
  shows "cxx_bind (Value_of_range (s @ rest) rest) (asString L) = Ret s"
  using duplicate_value [of "length s" "s @ rest"] assms by (simp add: Value_of_range_def asString_StringV)

section \<open>A copy is the value\<close>

text \<open>The strings and names of a value that the constructors have let through.\<close>

fun storable :: "Value \<Rightarrow> bool" where
  "storable (StringV s) \<longleftrightarrow> int (length s) \<le> maxInt - 5"
| "storable (ArrayV m) \<longleftrightarrow> list_all (\<lambda>e. storable (snd e)) m"
| "storable (ObjectV m) \<longleftrightarrow> list_all (\<lambda>e. int (length (fst e)) < maxInt \<and> storable (snd e)) m"
| "storable _ \<longleftrightarrow> True"

lemma cxx_each_same: "(\<And>x. x \<in> set xs \<Longrightarrow> f x = Ret x) \<Longrightarrow> cxx_each f xs = Ret xs"
  by (induction xs) simp_all

lemma Value_of_string_storable: "Value_of_string s = Ret v \<Longrightarrow> storable v"
  by (auto simp: Value_of_string_def Let_def JSON_ASSERT_MESSAGE_def split: if_splits)

lemma Value_copy_same: "storable v \<Longrightarrow> Value_copy v = Ret v"
proof (induction v)
  case (StringV s)
  then show ?case using duplicate_value [of "length s" s] by simp
next
  case (ArrayV m)
  then have "cxx_bind (Value_copy (snd e)) (\<lambda>v. Ret (fst e, v)) = Ret e" if "e \<in> set m" for e
    using that by (auto simp: list_all_iff snds.simps)
  then show ?case by (simp add: cxx_each_same)
next
  case (ObjectV m)
  then have "cxx_bind (Value_copy (snd e)) (\<lambda>v. Ret (duplicateStringValue (fst e) (length (fst e)), v)) = Ret e" if "e \<in> set m" for e
    using that by (auto simp: list_all_iff snds.simps duplicateStringValue_def)
  then show ?case by (simp add: cxx_each_same)
qed simp_all

lemma Value_assign_copies:
  assumes "storable (snd other)"
  shows "Value_assign this other = cxx_bind (copy_annotation (fst other)) (\<lambda>a. Ret (a, snd other))"
  using Value_copy_same [OF assms]
  by (cases "copy_annotation (fst other)") (simp_all add: Value_assign_def new_Value_copy_def Value_swap_def Value_swapPayload_def)

lemma Value_swap_swaps: "Value_swap this other = (other, this)"
  by (simp add: Value_swap_def Value_swapPayload_def)

text \<open>
  A name without NUL means the same in the three overloads; one with a NUL is another name unless it
  is a \<^verbatim>\<open>std::string\<close>, so what is stored under it that way is not found through the others.
\<close>

lemma member_refs_agree:
  assumes "CHR 0x00 \<notin> set key" and "isNull v \<or> isObject v"
  shows "member_ref_cstring key v = member_ref_string key v" and "member_ref_static key v = member_ref_string key v"
proof -
  have "c_str key = key" using assms(1) by (auto simp: c_str_def takeWhile_eq_all_conv)
  then show "member_ref_cstring key v = member_ref_string key v" and "member_ref_static key v = member_ref_string key v"
    unfolding member_ref_cstring_def member_ref_static_def member_ref_string_def resolveReference_def resolveReference_cstr_def
    using assms(2) by (simp_all only: JSON_ASSERT_MESSAGE_def if_True cxx_bind.simps)
qed

lemma map_erase_put: "map_inv m \<Longrightarrow> map_erase k (map_put k v m) = map_erase k m"
proof (induction m)
  case (Cons e m)
  have "map_erase k m = m" if "k \<notin> set (map_keys m)" for m :: "('a \<times> 'b) list" using that by (induction m) auto
  with Cons show ?case by (auto simp: map_inv_Cons)
qed simp

text \<open>Removing what was stored through \<^verbatim>\<open>operator[]\<close> gives it back, and the object without it.\<close>

lemma removeMember_after_store:
  assumes "map_inv m" and "member_ref_string key (ObjectV m) = Ret (v', x)"
  shows "removeMember_string key (member_store key x' v') = Some (ObjectV (map_erase (CZString key) m), x')"
proof -
  obtain m' where "v' = ObjectV m'" "map_inv m'" "map_erase (CZString key) m' = map_erase (CZString key) m"
    using assms
    by (cases "map_find (CZString key) m")
      (auto simp: member_ref_string_def resolveReference_def JSON_ASSERT_MESSAGE_def isObject_def type_of_def Let_def map_erase_put)
  then show ?thesis by (simp add: removeMember_string_def removeMember_def member_store_def map_find_put map_erase_put)
qed

end
