(* ===== verification/Json_Agreement.thy ===== *)
theory Json_Agreement
  imports Json_Descent
begin

text \<open>
  When two of jsoncpp's readers are the same function: an argument over the descent of
  \<^theory_text>\<open>Json_Descent\<close>, made once in the locale \<open>descent_agreement\<close>.
\<close>

text \<open>
  Two descents do the same on a text on which their lexers and decoders do the same. \<open>P\<close> is what
  is known of the text still to be read, \<open>Q\<close> what is known of a token.
\<close>

definition agree :: "(string \<Rightarrow> bool) \<Rightarrow> read_result \<Rightarrow> read_result \<Rightarrow> bool" where
  "agree P r r' \<longleftrightarrow> r' = r \<and> (\<forall>ok st v. r = Some (Ret (ok, st, v)) \<longrightarrow> P (rd_current st))"

lemma agree_simps [simp]:
  "agree P None None" "agree P (Some (Throw e)) (Some (Throw e))" "agree P (Some Terminate) (Some Terminate)"
  "agree P (Some (Ret (ok, st, v))) (Some (Ret (ok, st, v))) \<longleftrightarrow> P (rd_current st)"
  by (simp_all add: agree_def)

lemma agree_obind:
  assumes "agree P r r'" and "\<And>ok st v. P (rd_current st) \<Longrightarrow> agree P (f (ok, st, v)) (g (ok, st, v))"
  shows "agree P (obind r f) (obind r' g)"
proof (cases r)
  case None
  then show ?thesis using assms(1) by (simp add: agree_def obind_def)
next
  case (Some m)
  show ?thesis
  proof (cases m)
    case (Ret x)
    obtain ok st v where x: "x = (ok, st, v)" by (cases x)
    have "r' = r" "P (rd_current st)" using assms(1) by (simp_all add: agree_def Some Ret x)
    with assms(2) show ?thesis by (simp add: Some Ret x obind_def)
  qed (use assms(1) Some in \<open>simp_all add: agree_def obind_def\<close>)
qed

lemma agree_call: "(\<And>x. m = Ret x \<Longrightarrow> agree P (f x) (g x)) \<Longrightarrow> agree P (obind (Some m) f) (obind (Some m) g)"
  by (cases m) (simp_all add: obind_def)

lemma decodeString_current: "decodeString t st = (d, st') \<Longrightarrow> rd_current st' = rd_current st"
  by (auto simp: decodeString_def addError_def split: sum.splits prod.splits)

locale descent_agreement = a: token_source A + b: token_source B
  for A B :: Descent +
  fixes P :: "string \<Rightarrow> bool" and Q :: "Token \<Rightarrow> bool"
  assumes read_same: "P s \<Longrightarrow> de_readToken B s = de_readToken A s"
    and read_rest: "P s \<Longrightarrow> P (snd (de_readToken A s))"
    and read_start: "P s \<Longrightarrow> P (tok_start (fst (de_readToken A s)))"
    and read_token: "P s \<Longrightarrow> Q (fst (de_readToken A s))"
    and spaces: "P s \<Longrightarrow> P (skipSpaces s)"
    and number_same: "Q t \<Longrightarrow> de_decodeNumber B t st = de_decodeNumber A t st"
    and scalar_same: "Q t \<Longrightarrow> tok_type t \<in> set (de_scalars B) \<longleftrightarrow> tok_type t \<in> set (de_scalars A)"
    and check_same: "Q t \<Longrightarrow> decodeString t st0 = (Some name, st) \<Longrightarrow> P (rd_current st') \<Longrightarrow>
      de_checkName B t name st' v = de_checkName A t name st' v \<and>
      (\<forall>r. de_checkName A t name st' v = Some r \<longrightarrow> agree P r r)"
    and settings: "de_allowComments B = de_allowComments A" "de_droppedNull B = de_droppedNull A"
      "de_stackLimit B = de_stackLimit A"
    and no_numeric_key: "Q t \<Longrightarrow> tok_type t = tokenNumber \<Longrightarrow> \<not> de_numericKeys A \<and> \<not> de_numericKeys B"
begin

lemma skip_same:
  "P s \<Longrightarrow> de_skipComments B s = de_skipComments A s \<and> P (snd (de_skipComments A s)) \<and>
    Q (fst (de_skipComments A s)) \<and> P (tok_start (fst (de_skipComments A s)))"
proof (induction "length s" arbitrary: s rule: less_induct)
  case less
  show ?case
  proof (cases "tok_type (fst (de_readToken A s)) = tokenComment")
    case True
    have "length (snd (de_readToken A s)) < length s" using True by (intro a.read_progress) simp
    from less.hyps [OF this read_rest [OF less.prems]] show ?thesis
      using True read_same [OF less.prems] a.skip_loop [of s] b.skip_loop [of s] by (simp add: Let_def)
  next
    case False
    then show ?thesis
      using read_same read_rest read_token read_start less.prems a.skip_loop [of s] b.skip_loop [of s] by (simp add: Let_def)
  qed
qed

lemma recover_same: "P s \<Longrightarrow> de_recover B k s = de_recover A k s \<and> P (de_recover A k s)"
proof (induction "length s" arbitrary: s rule: less_induct)
  case less
  show ?case
  proof (cases "tok_type (fst (de_readToken A s)) = k \<or> tok_type (fst (de_readToken A s)) = tokenEndOfStream")
    case True
    then show ?thesis
      using read_same read_rest less.prems a.recover_loop [of k s] b.recover_loop [of k s] by (simp add: Let_def)
  next
    case False
    then have "length (snd (de_readToken A s)) < length s" by (intro a.read_progress) simp
    from less.hyps [OF this read_rest [OF less.prems]] False show ?thesis
      using read_same [OF less.prems] a.recover_loop [of k s] b.recover_loop [of k s] by (simp add: Let_def)
  qed
qed

lemma tokens_same:
  "P s \<Longrightarrow> skip_tokens B s = skip_tokens A s \<and> P (snd (skip_tokens A s)) \<and>
    Q (fst (skip_tokens A s)) \<and> P (tok_start (fst (skip_tokens A s)))"
  using skip_same read_same read_rest read_token read_start by (simp add: skip_tokens_def settings)

lemma recover_agree: "P (rd_current st) \<Longrightarrow> agree P (Some (Ret (ok, recover_from A k st, v))) (Some (Ret (ok, recover_from B k st, v)))"
  using recover_same [of "rd_current st" k] by (simp add: recover_from_def)

lemma error_agree:
  "P (rd_current st) \<Longrightarrow>
   agree P (Some (Ret (ok, error_and_recover A msg t k st, v))) (Some (Ret (ok, error_and_recover B msg t k st, v)))"
  unfolding error_and_recover_def by (rule recover_agree) (simp add: addError_def)

lemma array_next_agree:
  assumes "P (rd_current st)" and again: "\<And>st i v. P (rd_current st) \<Longrightarrow> agree P (again st i v) (again' st i v)"
  shows "agree P (array_next again A index v1 (ok, st, x)) (array_next again' B index v1 (ok, st, x))"
proof -
  obtain token current where t: "de_skipComments A (rd_current st) = (token, current)" by fastforce
  from skip_same [OF assms(1)] have "P current" "de_skipComments B (rd_current st) = (token, current)"
    by (simp_all add: t)
  then show ?thesis
    using assms(1) by (simp add: array_next_def t Let_def again recover_agree error_agree)
qed

lemma object_next_agree:
  assumes "P (rd_current st)" and again: "\<And>st nm v. P (rd_current st) \<Longrightarrow> agree P (again st nm v) (again' st nm v)"
  shows "agree P (object_next again A name v1 (ok, st, x)) (object_next again' B name v1 (ok, st, x))"
proof -
  obtain comma c1 where t: "de_readToken A (rd_current st) = (comma, c1)" by fastforce
  then have c1: "P c1" "de_readToken B (rd_current st) = (comma, c1)"
    using read_same [OF assms(1)] read_rest [OF assms(1)] by simp_all
  show ?thesis
  proof (cases "tok_type comma = tokenComment")
    case True
    obtain comma' c2 where "de_skipComments A c1 = (comma', c2)" by fastforce
    with True skip_same [OF c1(1)] assms(1) c1 show ?thesis
      by (simp add: object_next_def t Let_def again recover_agree)
  next
    case False
    with assms(1) c1 show ?thesis by (simp add: object_next_def t Let_def again recover_agree error_agree)
  qed
qed

lemma object_member_agree:
  assumes p: "P (rd_current st)" and q: "Q t" "decodeString t st0 = (Some name, st)"
    and val: "\<And>st v. P (rd_current st) \<Longrightarrow> agree P (readVal st v) (readVal' st v)"
    and again: "\<And>st nm v. P (rd_current st) \<Longrightarrow> agree P (again st nm v) (again' st nm v)"
  shows "agree P (object_member readVal again A t name st v) (object_member readVal' again' B t name st v)"
proof -
  obtain colon current where t: "de_readToken A (rd_current st) = (colon, current)" by fastforce
  then have c: "P current" "de_readToken B (rd_current st) = (colon, current)"
    using read_same [OF p] read_rest [OF p] by simp_all
  let ?st = "st\<lparr>rd_current := current\<rparr>"
  have check: "de_checkName B t name ?st v = de_checkName A t name ?st v"
      "\<And>r. de_checkName A t name ?st v = Some r \<Longrightarrow> agree P r r"
    using check_same [OF q, of ?st v] c(1) by simp_all
  have "agree P (obind (readVal ?st x0) (object_next again A name v1)) (obind (readVal' ?st x0) (object_next again' B name v1))" for x0 v1
    using c(1) by (intro agree_obind val object_next_agree again) simp_all
  then have "agree P (obind (Some (resolveReference name v)) (\<lambda>(v1, x0). obind (readVal ?st x0) (object_next again A name v1)))
      (obind (Some (resolveReference name v)) (\<lambda>(v1, x0). obind (readVal' ?st x0) (object_next again' B name v1)))"
    by (intro agree_call) (simp split: prod.split)
  with c check show ?thesis
    by (cases "de_checkName A t name ?st v") (simp_all add: object_member_def t Let_def error_agree)
qed

lemma object_step_agree:
  assumes p: "P (rd_current st)"
    and val: "\<And>st v. P (rd_current st) \<Longrightarrow> agree P (readVal st v) (readVal' st v)"
    and again: "\<And>st nm v. P (rd_current st) \<Longrightarrow> agree P (again st nm v) (again' st nm v)"
  shows "agree P (object_step readVal again A L st name v) (object_step readVal' again' B L st name v)"
proof -
  obtain t current where t: "de_skipComments A (rd_current st) = (t, current)" by fastforce
  from skip_same [OF p] have c: "P current" "Q t" "de_skipComments B (rd_current st) = (t, current)" by (simp_all add: t)
  let ?st = "st\<lparr>rd_current := current\<rparr>"
  obtain d st2 where d: "decodeString t ?st = (d, st2)" by fastforce
  have "P (rd_current st2)" using decodeString_current [OF d] c(1) by simp
  then have "agree P (case d of None \<Rightarrow> Some (Ret (False, recover_from A tokenObjectEnd st2, v))
      | Some name' \<Rightarrow> object_member readVal again A t name' st2 v)
    (case d of None \<Rightarrow> Some (Ret (False, recover_from B tokenObjectEnd st2, v))
      | Some name' \<Rightarrow> object_member readVal' again' B t name' st2 v)"
    using object_member_agree [OF _ c(2) _ val again] d by (cases d) (simp_all add: recover_agree)
  with c no_numeric_key [OF c(2)] show ?thesis
    by (cases "tok_type t = tokenNumber") (simp_all add: object_step_def t member_name_def d obind_def Let_def error_agree)
qed

lemma array_step_agree:
  assumes "P (rd_current st)"
    and "\<And>st v. P (rd_current st) \<Longrightarrow> agree P (readVal st v) (readVal' st v)"
    and "\<And>st i v. P (rd_current st) \<Longrightarrow> agree P (again st i v) (again' st i v)"
  shows "agree P (array_step readVal again A st index v) (array_step readVal' again' B st index v)"
  unfolding array_step_def using assms by (intro agree_call) (auto intro!: agree_obind array_next_agree)

lemma scalar_agree:
  assumes "P (rd_current st)" and "Q t"
  shows "scalar_value B t st v = scalar_value A t st v \<and>
    (\<forall>ok st' x. scalar_value A t st v = Ret (ok, st', x) \<longrightarrow> P (rd_current st'))"
proof -
  obtain d st1 where d: "decodeString t st = (d, st1)" by fastforce
  have "rd_current (snd (de_decodeNumber A t st)) = rd_current st"
    using a.number_well [of st t] by (auto simp: decoded_well_def split: option.splits)
  then show ?thesis
    using assms number_same [of t st] decodeString_current [OF d]
    by (cases "tok_type t") (auto simp: scalar_value_def d cxx_simps split: option.splits prod.splits)
qed

lemma value_step_agree:
  assumes p: "P (rd_current st)"
    and obj: "\<And>st nm v. P (rd_current st) \<Longrightarrow> agree P (readObj st nm v) (readObj' st nm v)"
    and arr: "\<And>st i v. P (rd_current st) \<Longrightarrow> agree P (readArr st i v) (readArr' st i v)"
  shows "agree P (value_step readObj readArr A st v) (value_step readObj' readArr' B st v)"
proof -
  obtain t current where t: "skip_tokens A (rd_current st) = (t, current)" by fastforce
  from tokens_same [OF p] have c: "P current" "Q t" "P (tok_start t)" "skip_tokens B (rd_current st) = (t, current)"
    by (simp_all add: t)
  define st1 where "st1 = st\<lparr>rd_current := current, rd_stackDepth := rd_stackDepth st + 1\<rparr>"
  define leave where "leave = (\<lambda>(ok, st', v'). Some (Ret (ok, st'\<lparr>rd_stackDepth := rd_stackDepth st' - 1\<rparr>, v' :: Value)) :: read_result)"
  have leave: "agree P (leave (ok, st', x)) (leave (ok, st', x)) \<longleftrightarrow> P (rd_current st')" for ok st' x
    by (simp add: leave_def)
  have st1: "P (rd_current st1)" using c(1) by (simp add: st1_def)
  have sp: "P (skipSpaces current)" by (rule spaces [OF c(1)])
  have e: "de_readToken B (skipSpaces current) = de_readToken A (skipSpaces current)"
      "P (snd (de_readToken A (skipSpaces current)))"
    using read_same [OF sp] read_rest [OF sp] by simp_all
  have o1: "agree P (obind (readObj st1 nm w) leave) (obind (readObj' st1 nm w) leave)" for nm w
    by (intro agree_obind obj st1) (simp add: leave)
  have a1: "agree P (obind (readArr (st1\<lparr>rd_current := skipSpaces current\<rparr>) i w) leave)
      (obind (readArr' (st1\<lparr>rd_current := skipSpaces current\<rparr>) i w) leave)" for i w
    by (intro agree_obind arr) (simp_all add: leave sp)
  have s1: "agree P (obind (Some (scalar_value A t st1 v)) leave) (obind (Some (scalar_value B t st1 v)) leave)"
    using scalar_agree [OF st1 c(2), of v] by (auto intro!: agree_call simp: leave)
  show ?thesis
    unfolding value_step_def t c(4) settings e(1)
    using o1 a1 s1 e(2) c(3) st1 scalar_same [OF c(2)] e(1)
    by (simp add: Let_def st1_def [symmetric] leave_def [symmetric] leave addError_def)
qed

theorem descent_agrees:
  "P (rd_current st) \<Longrightarrow> agree P (descend_value n A L st v) (descend_value n B L st v)"
  "P (rd_current st) \<Longrightarrow> agree P (descend_object n A L st nm v) (descend_object n B L st nm v)"
  "P (rd_current st) \<Longrightarrow> agree P (descend_array n A L st i v) (descend_array n B L st i v)"
proof (induction n arbitrary: st v nm i)
  case 0
  { case 1 then show ?case by simp }
  { case 2 then show ?case by simp }
  { case 3 then show ?case by simp }
next
  case (Suc n)
  { case 1 then show ?case using Suc.IH(2,3) by (simp add: value_step_agree) }
  { case 2 then show ?case using Suc.IH(1,2) by (simp add: object_step_agree) }
  { case 3 then show ?case using Suc.IH(1,3) by (simp add: array_step_agree) }
qed

end

end
