(* ===== verification/Json_Old_Reader.thy ===== *)
theory Json_Old_Reader
  imports Json_Reader Json_Agreement "HOL-Library.Sublist"
begin

text \<open>
  The deprecated \<^verbatim>\<open>Json::Reader\<close> with its \<^verbatim>\<open>Features\<close> (\<^verbatim>\<open>src/dist/jsoncpp.cpp\<close>), from which \<^verbatim>\<open>OurReader\<close> was
  copied. Its lexer, its decoding of numbers and \<^verbatim>\<open>parse\<close> are translated here; its recursive descent is
  \<^theory_text>\<open>Json_Descent\<close>, and the scanning of strings and comments, the decoding of strings and the error
  messages are the text of \<^verbatim>\<open>OurReader\<close>'s. The conversion \<^verbatim>\<open>is >> value\<close> of an \<^verbatim>\<open>istringstream\<close> is the parameter
  \<open>extract\<close>. Comments are skipped and not collected, see \<^theory_text>\<open>Json_Lexer\<close>. The static \<^verbatim>\<open>stackDepth_g\<close>, which
  \<^verbatim>\<open>parse\<close> sets to 0, is the depth of the reader's state.
\<close>

section \<open>Features and tokens\<close>

record Features =
  f_allowComments :: bool
  f_strictRoot :: bool
  f_allowDroppedNullPlaceholders :: bool
  f_allowNumericKeys :: bool

definition new_Features :: Features where
  "new_Features = \<lparr>f_allowComments = True, f_strictRoot = False, f_allowDroppedNullPlaceholders = False,
     f_allowNumericKeys = False\<rparr>"

definition Features_all :: Features where
  "Features_all = new_Features"

definition Features_strictMode :: Features where
  "Features_strictMode = new_Features\<lparr>f_allowComments := False, f_strictRoot := True,
     f_allowDroppedNullPlaceholders := False, f_allowNumericKeys := False\<rparr>"

definition stackLimit_g :: int where "stackLimit_g = 1000"

definition Reader_readNumber :: "string \<Rightarrow> string" where
  "Reader_readNumber current = readExponent (readFraction (skipDigits current))"

definition Reader_lex_case :: "char \<Rightarrow> string \<Rightarrow> bool \<times> TokenType \<times> string" where
  "Reader_lex_case c rest =
     (if c = CHR ''{'' then (True, tokenObjectBegin, rest)
      else if c = CHR ''}'' then (True, tokenObjectEnd, rest)
      else if c = CHR ''['' then (True, tokenArrayBegin, rest)
      else if c = CHR '']'' then (True, tokenArrayEnd, rest)
      else if c = CHR 0x22 then (let (ok, r) = readString rest in (ok, tokenString, r))
      else if c = CHR ''/'' then (let (ok, r) = readComment rest in (ok, tokenComment, r))
      else if is_digit c \<or> c = CHR ''-'' then (True, tokenNumber, Reader_readNumber rest)
      else if c = CHR ''t'' then (let (ok, r) = match ''rue'' rest in (ok, tokenTrue, r))
      else if c = CHR ''f'' then (let (ok, r) = match ''alse'' rest in (ok, tokenFalse, r))
      else if c = CHR ''n'' then (let (ok, r) = match ''ull'' rest in (ok, tokenNull, r))
      else if c = CHR '','' then (True, tokenArraySeparator, rest)
      else if c = CHR '':'' then (True, tokenMemberSeparator, rest)
      else if c = NUL then (True, tokenEndOfStream, rest)
      else (False, tokenError, rest))"

definition Reader_readToken :: "string \<Rightarrow> Token \<times> string" where
  "Reader_readToken current =
     (let start = skipSpaces current;
          (c, rest) = getNextChar start;
          (ok, ty, current') = Reader_lex_case c rest
      in (\<lparr>tok_type = (if ok then ty else tokenError), tok_start = start, tok_end = current'\<rparr>, current'))"

lemma length_Reader_lex_case: "leaves (length rest) (Reader_lex_case c rest)"
proof -
  have "length (Reader_readNumber rest) \<le> length rest"
    using length_readNumber [of False rest] by (simp add: Reader_readNumber_def readNumber_def)
  then show ?thesis
    unfolding Reader_lex_case_def Let_def readString_def
    by (intro leaves_if leaves_scan leaves_tuple lexer_lengths order_refl)
qed

lemma length_Reader_readToken: "length (snd (Reader_readToken s)) \<le> length s"
proof -
  obtain c rest where g: "getNextChar (skipSpaces s) = (c, rest)" by fastforce
  have "length rest \<le> length s"
    using length_getNextChar [of "skipSpaces s"] length_skipSpaces [of s] g by simp
  then show ?thesis
    using length_Reader_lex_case [of rest c] by (auto simp: Reader_readToken_def g leaves_def Let_def split: prod.splits)
qed

lemma Reader_readToken_progress:
  assumes "tok_type (fst (Reader_readToken s)) \<noteq> tokenEndOfStream"
  shows "length (snd (Reader_readToken s)) < length s"
proof (cases "skipSpaces s")
  case Nil
  then have "tok_type (fst (Reader_readToken s)) = tokenEndOfStream"
    by (simp add: Reader_readToken_def getNextChar_def Reader_lex_case_def NUL_def is_digit_def Let_def)
  with assms show ?thesis by simp
next
  case (Cons c rest)
  then have "length rest < length s" using length_skipSpaces [of s] by simp
  with Cons show ?thesis
    using length_Reader_lex_case [of rest c]
    by (auto simp: Reader_readToken_def getNextChar_def leaves_def Let_def split: prod.splits)
qed

function Reader_skipComments :: "string \<Rightarrow> Token \<times> string" where
  "Reader_skipComments s =
     (let r = Reader_readToken s in
      if tok_type (fst r) = tokenComment then Reader_skipComments (snd r) else r)"
  by pat_completeness auto
termination
  by (relation "measure length") (auto intro: Reader_readToken_progress)

function Reader_recover_loop :: "TokenType \<Rightarrow> string \<Rightarrow> string" where
  "Reader_recover_loop skipUntilToken s =
     (let r = Reader_readToken s in
      if tok_type (fst r) = skipUntilToken \<or> tok_type (fst r) = tokenEndOfStream then snd r
      else Reader_recover_loop skipUntilToken (snd r))"
  by pat_completeness auto
termination
  by (relation "measure (\<lambda>(k, s). length s)") (auto intro: Reader_readToken_progress)

declare Reader_skipComments.simps [simp del] Reader_recover_loop.simps [simp del]

section \<open>Numbers\<close>

definition Reader_decodeDouble :: "(string \<Rightarrow> double option) \<Rightarrow> Token \<Rightarrow> OurReader \<Rightarrow> Value option \<times> OurReader" where
  "Reader_decodeDouble extract token st =
     (case extract (token_text token) of
        None \<Rightarrow> (None, addError (CHR 0x27 # token_text token @ [CHR 0x27] @ '' is not a number.'') token None st)
      | Some d \<Rightarrow> (Some (RealV d), st))"

definition Reader_decodeNumber :: "(string \<Rightarrow> double option) \<Rightarrow> Token \<Rightarrow> OurReader \<Rightarrow> Value option \<times> OurReader" where
  "Reader_decodeNumber extract token st =
     (let text = token_text token;
          isNegative = (text \<noteq> [] \<and> hd text = CHR ''-'');
          digits = (if isNegative then tl text else text);
          maxIntegerValue = (if isNegative then maxLargestInt + 1 else maxLargestUInt);
          threshold = maxIntegerValue div 10
      in case decodeNumber_loop maxIntegerValue threshold digits 0 of
           None \<Rightarrow> Reader_decodeDouble extract token st
         | Some val \<Rightarrow>
             (Some (if isNegative \<and> val = maxIntegerValue then IntV minLargestInt
                    else if isNegative then IntV (- val)
                    else if val \<le> of_int maxInt then IntV val
                    else UIntV val), st))"

section \<open>The reader\<close>

definition old_descent :: "Features \<Rightarrow> (string \<Rightarrow> double option) \<Rightarrow> Descent" where
  "old_descent f extract = \<lparr>de_readToken = Reader_readToken, de_skipComments = Reader_skipComments,
     de_recover = Reader_recover_loop, de_allowComments = f_allowComments f,
     de_droppedNull = f_allowDroppedNullPlaceholders f, de_numericKeys = f_allowNumericKeys f,
     de_stackLimit = stackLimit_g, de_scalars = [tokenNumber, tokenString, tokenTrue, tokenFalse, tokenNull],
     de_decodeNumber = Reader_decodeNumber extract, de_checkName = (\<lambda>tokenName name st v. None)\<rparr>"

definition Reader_readValue :: "nat \<Rightarrow> Features \<Rightarrow> (string \<Rightarrow> double option) \<Rightarrow> libc \<Rightarrow> OurReader \<Rightarrow> Value \<Rightarrow> read_result" where
  "Reader_readValue n f extract L = descend_value n (old_descent f extract) L"

text \<open>Without collected comments, the token that \<^verbatim>\<open>parse\<close> reads after the root is not used.\<close>

definition Reader_parse ::
  "Features \<Rightarrow> (string \<Rightarrow> double option) \<Rightarrow> libc \<Rightarrow> string \<Rightarrow> Value \<Rightarrow> (bool \<times> ErrorInfo list \<times> Value) cxx option" where
  "Reader_parse f extract L doc root0 =
     obind (Reader_readValue (2 * length doc + 1) f extract L (OurReader_init doc) root0) (\<lambda>(successful, st, v).
       if f_strictRoot f \<and> \<not> isArray v \<and> \<not> isObject v then
         Some (Ret (False, rd_errors (addError
           ''A valid JSON document must be either an array or an object value.''
           \<lparr>tok_type = tokenError, tok_start = doc, tok_end = []\<rparr> None st), v))
       else Some (Ret (successful, rd_errors st, v)))"

text \<open>\<^verbatim>\<open>parse\<close> on a stream: \<^verbatim>\<open>getline(text, doc, (char)EOF)\<close> stops at a byte 0xFF.\<close>

definition Reader_parse_stream ::
  "Features \<Rightarrow> (string \<Rightarrow> double option) \<Rightarrow> libc \<Rightarrow> string \<Rightarrow> Value \<Rightarrow> (bool \<times> ErrorInfo list \<times> Value) cxx option" where
  "Reader_parse_stream f extract L text root0 = Reader_parse f extract L (takeWhile (\<lambda>c. c \<noteq> CHR 0xFF) text) root0"

lemma old_descent_sel [simp]:
  "de_readToken (old_descent f ex) = Reader_readToken" "de_skipComments (old_descent f ex) = Reader_skipComments"
  "de_recover (old_descent f ex) = Reader_recover_loop" "de_allowComments (old_descent f ex) = f_allowComments f"
  "de_droppedNull (old_descent f ex) = f_allowDroppedNullPlaceholders f" "de_numericKeys (old_descent f ex) = f_allowNumericKeys f"
  "de_stackLimit (old_descent f ex) = stackLimit_g"
  "de_scalars (old_descent f ex) = [tokenNumber, tokenString, tokenTrue, tokenFalse, tokenNull]"
  "de_decodeNumber (old_descent f ex) = Reader_decodeNumber ex" "de_checkName (old_descent f ex) = (\<lambda>tokenName name st v. None)"
  by (simp_all add: old_descent_def)

lemma Reader_decodeNumber_well: "decoded_well st (Reader_decodeNumber ex t st)"
  by (simp add: decoded_well_def Reader_decodeNumber_def Reader_decodeDouble_def addError_def Let_def split: option.split)

lemma length_start_Reader_readToken: "length (tok_start (fst (Reader_readToken s))) \<le> length s"
  using length_skipSpaces [of s] by (simp add: Reader_readToken_def Let_def split: prod.splits)

interpretation old: token_source "old_descent f ex"
proof
  show "length (snd (de_readToken (old_descent f ex) s)) \<le> length s" for s by (simp add: length_Reader_readToken)
  show "length (tok_start (fst (de_readToken (old_descent f ex) s))) \<le> length s" for s by (simp add: length_start_Reader_readToken)
  show "de_skipComments (old_descent f ex) s = (let r = de_readToken (old_descent f ex) s in
      if tok_type (fst r) = tokenComment then de_skipComments (old_descent f ex) (snd r) else r)" for s
    using Reader_skipComments.simps [of s] unfolding old_descent_sel .
  show "de_recover (old_descent f ex) k s = (let r = de_readToken (old_descent f ex) s in
      if tok_type (fst r) = k \<or> tok_type (fst r) = tokenEndOfStream then snd r
      else de_recover (old_descent f ex) k (snd r))" for k s
    using Reader_recover_loop.simps [of k s] unfolding old_descent_sel .
qed (simp_all add: Reader_readToken_progress Reader_decodeNumber_well scalar_tokens_def)

text \<open>It returns on every document, and succeeds exactly if it recorded no error.\<close>

theorem Reader_parse_total:
  "\<exists>r. Reader_parse f ex L doc v0 = Some r \<and> (case r of Ret (ok, errors, v) \<Rightarrow> ok = (errors = []) | _ \<Rightarrow> True)"
proof -
  have "delivers (OurReader_init doc) (Reader_readValue (2 * length doc + 1) f ex L (OurReader_init doc) v0)"
    unfolding Reader_readValue_def by (rule old.descent_fuel) (simp add: OurReader_init_def)
  then show ?thesis
    by (auto simp: Reader_parse_def obind_def delivers_def promise_def OurReader_init_def addError_def
        split: option.splits cxx.splits prod.splits)
qed

section \<open>Where the two readers are the same function\<close>

text \<open>The features of an \<^verbatim>\<open>OurReader\<close> that does what a \<^verbatim>\<open>Reader\<close> can be asked for.\<close>

definition our_features :: "Features \<Rightarrow> OurFeatures" where
  "our_features f = \<lparr>allowComments = f_allowComments f, strictRoot = f_strictRoot f,
     allowDroppedNullPlaceholders = f_allowDroppedNullPlaceholders f, allowNumericKeys = f_allowNumericKeys f,
     allowSingleQuotes = False, failIfExtra = False, rejectDupKeys = False, allowSpecialFloats = False,
     stackLimit = stackLimit_g\<rparr>"

lemma our_features_sel [simp]:
  "allowComments (our_features f) = f_allowComments f" "strictRoot (our_features f) = f_strictRoot f"
  "allowDroppedNullPlaceholders (our_features f) = f_allowDroppedNullPlaceholders f"
  "allowNumericKeys (our_features f) = f_allowNumericKeys f" "\<not> allowSingleQuotes (our_features f)"
  "\<not> failIfExtra (our_features f)" "\<not> rejectDupKeys (our_features f)" "\<not> allowSpecialFloats (our_features f)"
  "stackLimit (our_features f) = stackLimit_g"
  by (simp_all add: our_features_def)

subsection \<open>The lexers leave a suffix of what they read\<close>

lemma suffix_skipSpaces: "suffix (skipSpaces s) s"
  by (induction s) (auto intro: suffix_ConsI)

lemma suffix_skipDigits: "suffix (skipDigits s) s"
  by (induction s) (auto intro: suffix_ConsI)

lemma suffix_cStyle_loop: "suffix (cStyle_loop s) s"
  by (induction s) (auto intro: suffix_ConsI)

lemma suffix_getNextChar: "suffix (snd (getNextChar s)) s"
  by (cases s) (simp_all add: getNextChar_def suffix_ConsI)

lemma suffix_readCpp: "suffix (readCppStyleComment s) s"
proof (induction s)
  case (Cons c s)
  then show ?case using suffix_getNextChar [of s] by (auto intro: suffix_ConsI)
qed simp

lemma suffix_readComment: "suffix (snd (readComment s)) s"
proof -
  obtain c r where g: "getNextChar s = (c, r)" by fastforce
  have r: "suffix r s" using suffix_getNextChar [of s] g by simp
  have "suffix (snd (readCStyleComment r)) r"
    using suffix_order.trans [OF suffix_getNextChar suffix_cStyle_loop [of r]]
    by (simp add: readCStyleComment_def case_prod_beta)
  with r suffix_readCpp [of r] show ?thesis
    by (auto simp: readComment_def g intro: suffix_order.trans)
qed

lemma suffix_match: "suffix (snd (match p s)) s"
  by (simp add: match_def suffix_drop)

lemma suffix_readString_loop: "suffix (snd (readString_loop q c s)) s"
proof (induction q c s rule: readString_loop.induct)
  case (2 q c0 c cs)
  then show ?case
    using suffix_order.trans [OF _ suffix_drop [of 1 cs]] by (auto intro: suffix_ConsI)
qed simp

lemma suffix_readFraction: "suffix (readFraction s) s"
  using suffix_order.trans [OF suffix_skipDigits suffix_tl [of s]] by (simp add: readFraction_def)

lemma suffix_readExponent: "suffix (readExponent s) s"
  using suffix_order.trans [OF suffix_skipDigits suffix_tl [of s]]
    suffix_order.trans [OF suffix_skipDigits suffix_order.trans [OF suffix_tl [of "tl s"] suffix_tl [of s]]]
  by (simp add: readExponent_def Let_def)

lemma suffix_Reader_readNumber: "suffix (Reader_readNumber s) s"
  unfolding Reader_readNumber_def
  by (meson suffix_order.trans suffix_readExponent suffix_readFraction suffix_skipDigits)

definition leaves_suffix :: "string \<Rightarrow> bool \<times> TokenType \<times> string \<Rightarrow> bool" where
  "leaves_suffix s t \<longleftrightarrow> suffix (snd (snd t)) s"

lemma leaves_suffix_if: "leaves_suffix s a \<Longrightarrow> leaves_suffix s b \<Longrightarrow> leaves_suffix s (if c then a else b)"
  by simp

lemma leaves_suffix_scan: "suffix (snd p) s \<Longrightarrow> leaves_suffix s (case p of (ok, r) \<Rightarrow> (ok, ty, r))"
  by (cases p) (simp add: leaves_suffix_def)

lemma leaves_suffix_tuple: "suffix r s \<Longrightarrow> leaves_suffix s (ok, ty, r)"
  by (simp add: leaves_suffix_def)

lemma suffix_Reader_lex_case: "leaves_suffix rest (Reader_lex_case c rest)"
  unfolding Reader_lex_case_def Let_def readString_def
  by (intro leaves_suffix_if leaves_suffix_scan leaves_suffix_tuple suffix_order.refl suffix_readComment suffix_match
      suffix_readString_loop suffix_Reader_readNumber)

lemma suffix_Reader_readToken:
  "suffix (snd (Reader_readToken s)) s" "suffix (tok_start (fst (Reader_readToken s))) s"
proof -
  obtain c rest where g: "getNextChar (skipSpaces s) = (c, rest)" by fastforce
  have "suffix rest s"
    using suffix_order.trans [OF suffix_getNextChar suffix_skipSpaces, of s] g by simp
  then show "suffix (snd (Reader_readToken s)) s"
    using suffix_Reader_lex_case [of rest c]
    by (auto simp: Reader_readToken_def g leaves_suffix_def Let_def intro: suffix_order.trans split: prod.splits)
  show "suffix (tok_start (fst (Reader_readToken s))) s"
    using suffix_skipSpaces [of s] by (simp add: Reader_readToken_def Let_def split: prod.splits)
qed

subsection \<open>Where their lexers and decoders agree\<close>

text \<open>The newer reader takes a lone \<^verbatim>\<open>'\<close> for the start of a comment, and \<^verbatim>\<open>-I\<close> for that of \<^verbatim>\<open>-Infinity\<close>.\<close>

lemma lex_case_same:
  assumes "c \<noteq> CHR 0x27" and "c = CHR ''-'' \<Longrightarrow> rest \<noteq> [] \<Longrightarrow> hd rest \<noteq> CHR ''I''"
  shows "Reader_lex_case c rest = lex_case (our_features f) c rest"
proof (cases "c = CHR ''-''")
  case True
  with assms(2) show ?thesis by (auto simp: lex_case_def Reader_lex_case_def readNumber_def Reader_readNumber_def is_digit_def)
next
  case False
  have n: "snd (readNumber False rest) = Reader_readNumber rest" by (simp add: readNumber_def Reader_readNumber_def)
  have "\<not> is_digit c \<and> c \<noteq> CHR '','' \<and> c \<noteq> CHR '':'' \<and> c \<noteq> NUL" if "c = CHR ''N'' \<or> c = CHR ''I''"
    using that by (auto simp: is_digit_def NUL_def)
  with False assms(1) show ?thesis unfolding lex_case_def Reader_lex_case_def n by auto
qed

lemma readToken_same:
  assumes "CHR 0x27 \<notin> set s" and "\<not> sublist ''-I'' s"
  shows "Reader_readToken s = readToken (our_features f) s"
proof -
  obtain c rest where g: "getNextChar (skipSpaces s) = (c, rest)" by fastforce
  have "Reader_lex_case c rest = lex_case (our_features f) c rest"
  proof (cases "skipSpaces s")
    case Nil
    with g have "c = NUL" "rest = []" by (simp_all add: getNextChar_def)
    then show ?thesis by (intro lex_case_same) (simp_all add: NUL_def)
  next
    case (Cons c' rest')
    with g have e: "skipSpaces s = c # rest" by (simp add: getNextChar_def)
    have suf: "suffix (c # rest) s" using suffix_skipSpaces [of s] by (simp add: e)
    show ?thesis
    proof (rule lex_case_same)
      show "c \<noteq> CHR 0x27" using assms(1) set_mono_suffix [OF suf] by auto
      assume "c = CHR ''-''" "rest \<noteq> []"
      show "hd rest \<noteq> CHR ''I''"
      proof
        assume "hd rest = CHR ''I''"
        with \<open>c = CHR ''-''\<close> \<open>rest \<noteq> []\<close> have "prefix ''-I'' (c # rest)" by (cases rest) auto
        with suf have "sublist ''-I'' s"
          by (meson prefix_imp_sublist suffix_imp_sublist sublist_order.order.trans)
        with assms(2) show False by simp
      qed
    qed
  qed
  then show ?thesis by (simp add: Reader_readToken_def readToken_def g)
qed

text \<open>The older reader's special case for the least integer is what negating the word gives.\<close>

lemma Reader_decodeNumber_same:
  assumes "extract (token_text t) = scan_lf L (token_text t)" and "length (tok_start t) < 2 ^ 30"
  shows "Reader_decodeNumber extract t st = decodeNumber L t st"
proof -
  have "length (token_text t) < 2 ^ 31" using assms(2) by (simp add: token_text_def)
  then have d: "Reader_decodeDouble extract t st = decodeDouble L t st"
    by (simp add: decodeDouble_short Reader_decodeDouble_def assms(1))
  have m: "maxLargestInt + 1 = - minLargestInt" "- (- minLargestInt) = minLargestInt" by (simp_all add: maxLargestInt_def minLargestInt_def)
  show ?thesis unfolding Reader_decodeNumber_def decodeNumber_def d m
    by (auto simp: Let_def split: option.split)
qed

subsection \<open>A decoded string is no longer than its token\<close>

lemma length_codePointToUTF8: "length (codePointToUTF8 cp) \<le> 4"
  by (simp add: codePointToUTF8_def)

lemma decodeUnicodeCodePoint_four:
  assumes "decodeUnicodeCodePoint s = Inr (x, r)"
  shows "length r + 4 \<le> length s"
proof -
  have "length r + 4 \<le> length s" if "decodeUnicodeEscapeSequence s = Inr (x, r)" for s x r
    using that hex_loop_length [of 4 s 0 x r] by (simp add: decodeUnicodeEscapeSequence_def split: if_splits)
  note four = this
  from assms show ?thesis
    by (auto simp: decodeUnicodeCodePoint_def dest!: four split: sum.splits prod.splits if_splits)
qed

lemma decodeString_loop_length: "decodeString_loop s acc = Inr d \<Longrightarrow> length d \<le> length acc + length s"
proof (induction s acc rule: decodeString_loop.induct)
  case (2 c cs decoded)
  show ?case
  proof (cases "c = CHR 0x5C")
    case False
    with 2 show ?thesis by (cases "c = CHR 0x22") auto
  next
    case True
    with 2(4) obtain e cs' where cs: "cs = e # cs'" by (cases cs) auto
    show ?thesis
    proof (cases "e = CHR ''u''")
      case True
      with 2(4) \<open>c = CHR 0x5C\<close> cs obtain u r where u: "decodeUnicodeCodePoint cs' = Inr (u, r)"
        "decodeString_loop r (decoded @ codePointToUTF8 u) = Inr d" by (auto split: sum.splits prod.splits)
      have "length d \<le> length (decoded @ codePointToUTF8 u) + length r"
        using 2(1) [OF _ _ cs _ u(1) refl u(2)] \<open>c = CHR 0x5C\<close> True by simp
      with decodeUnicodeCodePoint_four [OF u(1)] length_codePointToUTF8 [of u] show ?thesis by (simp add: cs)
    next
      case False
      with 2(4) \<open>c = CHR 0x5C\<close> cs obtain b where b: "simple_escape e = Some b" "decodeString_loop cs' (decoded @ [b]) = Inr d"
        by (auto split: option.splits)
      from 2(2) [OF _ _ cs _ b] \<open>c = CHR 0x5C\<close> False show ?thesis by (simp add: cs)
    qed
  qed
qed simp

lemma decodeString_length:
  assumes "decodeString t st = (Some name, st')"
  shows "length name \<le> length (tok_start t)"
proof -
  have "length name \<le> length (string_body t)"
    using assms decodeString_loop_length [of "string_body t" "[]"] by (auto simp: decodeString_def split: sum.splits prod.splits)
  also have "\<dots> \<le> length (tok_start t)" by (simp add: string_body_def token_text_def)
  finally show ?thesis .
qed

subsection \<open>The agreement\<close>

text \<open>
  What a text must be for the two readers to do the same: no single quote, no \<^verbatim>\<open>-I\<close>, not so long that a
  member's name can reach the limit the newer reader sets, and with numbers that the stream and
  \<^verbatim>\<open>sscanf\<close> convert alike.
\<close>

definition plain_document :: "Features \<Rightarrow> (string \<Rightarrow> double option) \<Rightarrow> libc \<Rightarrow> string \<Rightarrow> bool" where
  "plain_document f extract L s \<longleftrightarrow> \<not> f_allowNumericKeys f \<and> CHR 0x27 \<notin> set s \<and> \<not> sublist ''-I'' s \<and>
     length s < 2 ^ 30 \<and> (\<forall>t. sublist t s \<longrightarrow> extract t = scan_lf L t)"

definition plain_token :: "Features \<Rightarrow> (string \<Rightarrow> double option) \<Rightarrow> libc \<Rightarrow> Token \<Rightarrow> bool" where
  "plain_token f extract L t \<longleftrightarrow> \<not> f_allowNumericKeys f \<and> tok_type t \<notin> {tokenNaN, tokenPosInf, tokenNegInf} \<and>
     length (tok_start t) < 2 ^ 30 \<and> extract (token_text t) = scan_lf L (token_text t)"

lemma plain_document_suffix: "plain_document f ex L s \<Longrightarrow> suffix t s \<Longrightarrow> plain_document f ex L t"
proof -
  assume p: "plain_document f ex L s" and t: "suffix t s"
  have "sublist u s" if "sublist u t" for u
    using that suffix_imp_sublist [OF t] by (rule sublist_order.order.trans)
  with p suffix_length_le [OF t] set_mono_suffix [OF t] show ?thesis
    unfolding plain_document_def by (meson order_le_less_trans subsetD)
qed

lemma Reader_lex_case_types:
  "fst (snd (Reader_lex_case c rest)) \<notin> {tokenNaN, tokenPosInf, tokenNegInf}"
  unfolding Reader_lex_case_def Let_def by (simp split: prod.split)

lemma plain_document_token: "plain_document f ex L s \<Longrightarrow> plain_token f ex L (fst (Reader_readToken s))"
proof -
  assume p: "plain_document f ex L s"
  let ?t = "fst (Reader_readToken s)"
  have suf: "suffix (tok_start ?t) s" by (rule suffix_Reader_readToken)
  have "tok_type ?t \<notin> {tokenNaN, tokenPosInf, tokenNegInf}"
    using Reader_lex_case_types by (auto simp: Reader_readToken_def Let_def split: prod.split) (metis fst_conv snd_conv)+
  moreover have "sublist (token_text ?t) s"
    unfolding token_text_def by (meson suf prefix_imp_sublist suffix_imp_sublist sublist_order.order.trans take_is_prefix)
  ultimately show ?thesis
    using p suffix_length_le [OF suf] by (auto simp: plain_document_def plain_token_def)
qed

interpretation readers: descent_agreement "our_descent (our_features f) L" "old_descent f ex" "plain_document f ex L" "plain_token f ex L"
proof
  fix s
  assume p: "plain_document f ex L s"
  have r: "readToken (our_features f) s = Reader_readToken s"
    using p by (intro readToken_same [symmetric]) (simp_all add: plain_document_def)
  then show "de_readToken (old_descent f ex) s = de_readToken (our_descent (our_features f) L) s" by simp
  show "plain_document f ex L (snd (de_readToken (our_descent (our_features f) L) s))"
    "plain_document f ex L (tok_start (fst (de_readToken (our_descent (our_features f) L) s)))"
    "plain_token f ex L (fst (de_readToken (our_descent (our_features f) L) s))"
    using suffix_Reader_readToken [of s] p by (auto simp: r intro: plain_document_suffix plain_document_token)
  show "plain_document f ex L (skipSpaces s)" using p suffix_skipSpaces by (rule plain_document_suffix)
next
  fix t st0 name st and st' :: OurReader and v
  assume "plain_token f ex L t" "decodeString t st0 = (Some name, st)"
  then have "int (length name) < 2 ^ 30" using decodeString_length [of t st0 name st] by (simp add: plain_token_def)
  then have "check_name (our_features f) t name st' v = None" by (simp add: check_name_def)
  then show "de_checkName (old_descent f ex) t name st' v = de_checkName (our_descent (our_features f) L) t name st' v \<and>
      (\<forall>r. de_checkName (our_descent (our_features f) L) t name st' v = Some r \<longrightarrow> agree (plain_document f ex L) r r)"
    by simp
qed (auto simp: plain_token_def scalar_tokens_def Reader_decodeNumber_same)

theorem Reader_parse_same:
  assumes "plain_document f ex L doc"
  shows "Reader_parse f ex L doc v0 = OurReader_parse (our_features f) L doc v0"
proof -
  have "Reader_readValue n f ex L (OurReader_init doc) v0 = readValue n (our_features f) L (OurReader_init doc) v0" for n
    using readers.descent_agrees(1) [of f ex L "OurReader_init doc" n L v0] assms
    by (simp add: Reader_readValue_def readValue_is_descent agree_def OurReader_init_def)
  then show ?thesis by (simp add: Reader_parse_def OurReader_parse_def case_prod_beta Let_def)
qed

text \<open>On the rest they differ: the older reader takes \<^verbatim>\<open>-I\<close> for a minus sign alone, an integer 0.\<close>

lemma Reader_minus_is_zero:
  "Reader_readToken ''-I'' = (\<lparr>tok_type = tokenNumber, tok_start = ''-I'', tok_end = ''I''\<rparr>, ''I'')"
  "Reader_decodeNumber ex \<lparr>tok_type = tokenNumber, tok_start = ''-I'', tok_end = ''I''\<rparr> st = (Some (IntV 0), st)"
  "tok_type (fst (readToken (our_features f) ''-I'')) = tokenError"
  by (simp_all add: Reader_readToken_def getNextChar_def is_space_def Reader_lex_case_def is_digit_def Reader_readNumber_def
      readFraction_def readExponent_def Reader_decodeNumber_def token_text_def maxLargestInt_def
      readToken_def lex_case_def readNumber_def)

end
