(* ===== verification/Json_Comments.thy ===== *)
theory Json_Comments
  imports Json_Old_Reader Json_Annotation
begin

text \<open>
  The readers of jsoncpp (\<^verbatim>\<open>src/dist/jsoncpp.cpp\<close>) with \<^verbatim>\<open>collectComments_\<close> on. The annotations of the tree that is
  read are a function from paths to annotations, in which the pointer \<^verbatim>\<open>lastValue_\<close> is a path. \<^theory_text>\<open>Json_Descent\<close> reads without collecting; the collecting descent of this theory has
  the same steps with the collector's state threaded through them, for \<^verbatim>\<open>Reader\<close> and \<^verbatim>\<open>OurReader\<close> at once. The
  locale \<open>comment_source\<close> shows that collecting changes neither the value nor the errors.
\<close>

section \<open>The collector\<close>

record Collector =
  co_collect :: bool
  co_size :: nat
  co_commentsBefore :: string
  co_lastValueEnd :: "string option"
  co_lastValue :: "Step list option"
  co_notes :: Notes

text \<open>\<^verbatim>\<open>location - begin_\<close>.\<close>

definition offset :: "Collector \<Rightarrow> string \<Rightarrow> u64" where
  "offset co location = of_nat (co_size co - length location)"

definition update_note :: "Step list \<Rightarrow> (Annotation \<Rightarrow> Annotation) \<Rightarrow> Collector \<Rightarrow> Collector" where
  "update_note p g co = co\<lparr>co_notes := (co_notes co)(p := g (co_notes co p))\<rparr>"

text \<open>\<^verbatim>\<open>swapPayload\<close> keeps the annotations of the value itself; those of the nodes below it go with the old payload.\<close>

definition swapPayload :: "Step list \<Rightarrow> Collector \<Rightarrow> Collector" where
  "swapPayload p co = co\<lparr>co_notes := (\<lambda>q. if strict_prefix p q then no_annotation else co_notes co q)\<rparr>"

fun containsNewLine :: "string \<Rightarrow> string \<Rightarrow> bool" where
  "containsNewLine [] stop = False"
| "containsNewLine (c # begin) stop =
     (length begin \<ge> length stop \<and> (c = CHR 0x0A \<or> c = CHR 0x0D \<or> containsNewLine begin stop))"

fun normalize_loop :: "string \<Rightarrow> string" where
  "normalize_loop [] = []"
| "normalize_loop (c # current) =
     (if c = CHR 0x0D then CHR 0x0A # (case current of
          [] \<Rightarrow> []
        | d # rest \<Rightarrow> if d = CHR 0x0A then normalize_loop rest else normalize_loop (d # rest))
      else c # normalize_loop current)"

definition normalizeEOL :: "string \<Rightarrow> string \<Rightarrow> string" where
  "normalizeEOL begin stop = normalize_loop (take (length begin - length stop) begin)"

definition addComment :: "string \<Rightarrow> string \<Rightarrow> CommentPlacement \<Rightarrow> Collector \<Rightarrow> Collector cxx" where
  "addComment begin stop placement co =
     (let normalized = normalizeEOL begin stop in
      if placement = commentAfterOnSameLine then
        (case co_lastValue co of
           None \<Rightarrow> Terminate
         | Some p \<Rightarrow> cxx_bind (setComment normalized placement (co_notes co p)) (\<lambda>a. Ret (update_note p (\<lambda>_. a) co)))
      else Ret (co\<lparr>co_commentsBefore := co_commentsBefore co @ normalized\<rparr>))"

text \<open>The end of \<^verbatim>\<open>readComment\<close>, once the comment from \<open>commentBegin\<close> to \<open>current\<close> has been scanned.\<close>

definition collect_comment :: "string \<Rightarrow> string \<Rightarrow> Collector \<Rightarrow> Collector cxx" where
  "collect_comment commentBegin current co =
     (if \<not> co_collect co then Ret co
      else
        let c = peekChar (tl commentBegin);
            sameLine = (case co_lastValueEnd co of
                None \<Rightarrow> False
              | Some lastValueEnd \<Rightarrow> \<not> containsNewLine lastValueEnd commentBegin \<and>
                  (c \<noteq> CHR ''*'' \<or> \<not> containsNewLine commentBegin current))
        in addComment commentBegin current (if sameLine then commentAfterOnSameLine else commentBefore) co)"

section \<open>The collecting descent\<close>

text \<open>\<^verbatim>\<open>readToken\<close> has the type \<^verbatim>\<open>tokenComment\<close> exactly if \<^verbatim>\<open>readComment\<close> has succeeded.\<close>

definition collect_token :: "Descent \<Rightarrow> string \<Rightarrow> Collector \<Rightarrow> (Token \<times> string \<times> Collector) cxx" where
  "collect_token K s co =
     (let (token, current) = de_readToken K s in
      if tok_type token = tokenComment
      then cxx_bind (collect_comment (tok_start token) current co) (\<lambda>co'. Ret (token, current, co'))
      else Ret (token, current, co))"

text \<open>The loops over tokens, with the fuel that \<open>collect_until\<close> gives them.\<close>

fun collect_loop :: "nat \<Rightarrow> Descent \<Rightarrow> (TokenType \<Rightarrow> bool) \<Rightarrow> string \<Rightarrow> Collector \<Rightarrow> (Token \<times> string \<times> Collector) cxx option" where
  "collect_loop 0 K stop s co = None"
| "collect_loop (Suc n) K stop s co =
     obind (Some (collect_token K s co)) (\<lambda>(token, current, co').
       if stop (tok_type token) then Some (Ret (token, current, co')) else collect_loop n K stop current co')"

definition collect_until :: "Descent \<Rightarrow> (TokenType \<Rightarrow> bool) \<Rightarrow> string \<Rightarrow> Collector \<Rightarrow> (Token \<times> string \<times> Collector) cxx option" where
  "collect_until K stop s co = collect_loop (Suc (length s)) K stop s co"

definition collect_skip :: "Descent \<Rightarrow> string \<Rightarrow> Collector \<Rightarrow> (Token \<times> string \<times> Collector) cxx option" where
  "collect_skip K = collect_until K (\<lambda>ty. ty \<noteq> tokenComment)"

definition collect_tokens :: "Descent \<Rightarrow> string \<Rightarrow> Collector \<Rightarrow> (Token \<times> string \<times> Collector) cxx option" where
  "collect_tokens K s co = (if de_allowComments K then collect_skip K s co else Some (collect_token K s co))"

type_synonym collect_result = "(bool \<times> OurReader \<times> Collector \<times> Value) cxx option"

definition collect_recover :: "Descent \<Rightarrow> TokenType \<Rightarrow> OurReader \<Rightarrow> Collector \<Rightarrow> Value \<Rightarrow> collect_result" where
  "collect_recover K skipUntilToken st co v =
     obind (collect_until K (\<lambda>ty. ty = skipUntilToken \<or> ty = tokenEndOfStream) (rd_current st) co) (\<lambda>(token, current, co').
       Some (Ret (False, st\<lparr>rd_current := current\<rparr>, co', v)))"

definition collect_error :: "Descent \<Rightarrow> string \<Rightarrow> Token \<Rightarrow> TokenType \<Rightarrow> OurReader \<Rightarrow> Collector \<Rightarrow> Value \<Rightarrow> collect_result" where
  "collect_error K message token skipUntilToken st co v =
     collect_recover K skipUntilToken (addError message token None st) co v"

text \<open>In \<^verbatim>\<open>readValue\<close>: the comments before a value become its own; a value that was read becomes \<^verbatim>\<open>lastValue_\<close>.\<close>

definition comment_value :: "CommentPlacement \<Rightarrow> Step list \<Rightarrow> Collector \<Rightarrow> Collector cxx" where
  "comment_value placement p co =
     (if co_collect co \<and> co_commentsBefore co \<noteq> []
      then cxx_bind (setComment (co_commentsBefore co) placement (co_notes co p)) (\<lambda>a. Ret (update_note p (\<lambda>_. a) co))
      else Ret co)"

definition comment_before :: "Step list \<Rightarrow> Collector \<Rightarrow> Collector cxx" where
  "comment_before p co =
     cxx_bind (comment_value commentBefore p co) (\<lambda>co'.
       Ret (if co_collect co then co'\<lparr>co_commentsBefore := []\<rparr> else co'))"

definition remember :: "Step list \<Rightarrow> string \<Rightarrow> Collector \<Rightarrow> Collector" where
  "remember p current co =
     (if co_collect co then co\<lparr>co_lastValueEnd := Some current, co_lastValue := Some p\<rparr> else co)"

definition token_offsets :: "Step list \<Rightarrow> Token \<Rightarrow> Collector \<Rightarrow> Collector" where
  "token_offsets p token co =
     update_note p (\<lambda>a. setOffsetLimit (offset co (tok_end token)) (setOffsetStart (offset co (tok_start token)) a)) co"

definition collect_value_step ::
  "(OurReader \<Rightarrow> Collector \<Rightarrow> Step list \<Rightarrow> string \<Rightarrow> Value \<Rightarrow> collect_result) \<Rightarrow>
   (OurReader \<Rightarrow> Collector \<Rightarrow> Step list \<Rightarrow> nat \<Rightarrow> Value \<Rightarrow> collect_result) \<Rightarrow>
   Descent \<Rightarrow> OurReader \<Rightarrow> Collector \<Rightarrow> Step list \<Rightarrow> Value \<Rightarrow> collect_result" where
  "collect_value_step readObj readArr K st co p v =
     (if rd_stackDepth st \<ge> de_stackLimit K
      then Some (Throw (Json_RuntimeError ''Exceeded stackLimit in readValue().''))
      else
        obind (collect_tokens K (rd_current st) co) (\<lambda>(token, current, co1).
        obind (Some (comment_before p co1)) (\<lambda>co2.
        let st1 = st\<lparr>rd_current := current, rd_stackDepth := rd_stackDepth st + 1\<rparr>;
            leave = (\<lambda>(ok, st', co', v').
              Some (Ret (ok, st'\<lparr>rd_stackDepth := rd_stackDepth st' - 1\<rparr>, remember p (rd_current st') co', v')));
            open = update_note p (setOffsetStart (offset co2 (tok_start token))) (swapPayload p co2);
            close = (\<lambda>(ok, st', co', v').
              leave (ok, st', update_note p (setOffsetLimit (offset co' (rd_current st'))) co', v'))
        in if tok_type token = tokenObjectBegin then
             obind (readObj st1 open p [] (Value_of_type objectValue)) close
           else if tok_type token = tokenArrayBegin then
             (let current' = skipSpaces current in
              if peekChar current' = CHR '']''
              then obind (Some (collect_token K current' open)) (\<lambda>(endArray, current'', co').
                     close (True, st1\<lparr>rd_current := current''\<rparr>, co', Value_of_type arrayValue))
              else obind (readArr (st1\<lparr>rd_current := current'\<rparr>) open p 0 (Value_of_type arrayValue)) close)
           else if tok_type token \<in> set (de_scalars K) then
             obind (Some (scalar_value K token st1 v)) (\<lambda>(ok, st', v').
               leave (ok, st', if ok then token_offsets p token (swapPayload p co2) else co2, v'))
           else if tok_type token \<in> {tokenArraySeparator, tokenObjectEnd, tokenArrayEnd} \<and> de_droppedNull K then
             leave (True, st1\<lparr>rd_current := tok_start token\<rparr>,
               update_note p (\<lambda>a. setOffsetLimit (offset co2 (tok_start token)) (setOffsetStart (offset co2 (tok_start token) - 1) a))
                 (swapPayload p co2), NullV)
           else Some (Ret (False, addError ''Syntax error: value, object or array expected.'' token None st1,
             token_offsets p token co2, v)))))"

definition collect_object_next ::
  "(OurReader \<Rightarrow> Collector \<Rightarrow> Step list \<Rightarrow> string \<Rightarrow> Value \<Rightarrow> collect_result) \<Rightarrow> Descent \<Rightarrow> Step list \<Rightarrow> string \<Rightarrow> Value \<Rightarrow>
   bool \<times> OurReader \<times> Collector \<times> Value \<Rightarrow> collect_result" where
  "collect_object_next again K p name v1 result = (case result of (ok, st, co, x) \<Rightarrow>
     let v2 = member_store name x v1 in
     if \<not> ok then collect_recover K tokenObjectEnd st co v2
     else
       obind (Some (collect_token K (rd_current st) co)) (\<lambda>(comma, current, co1).
       if tok_type comma \<notin> {tokenObjectEnd, tokenArraySeparator, tokenComment} then
         collect_error K
           (''Missing '' @ [CHR 0x27] @ '','' @ [CHR 0x27] @ '' or '' @ [CHR 0x27] @ ''}'' @ [CHR 0x27] @ '' in object declaration'')
           comma tokenObjectEnd (st\<lparr>rd_current := current\<rparr>) co1 v2
       else
         obind (if tok_type comma = tokenComment then collect_skip K current co1 else Some (Ret (comma, current, co1)))
           (\<lambda>(comma', current', co2).
             let st' = st\<lparr>rd_current := current'\<rparr> in
             if tok_type comma' = tokenObjectEnd then Some (Ret (True, st', co2, v2))
             else again st' co2 p name v2)))"

text \<open>A name that is refused has been recovered from in \<open>de_checkName\<close>; the comments on the way are collected here.\<close>

definition collect_object_member ::
  "(OurReader \<Rightarrow> Collector \<Rightarrow> Step list \<Rightarrow> Value \<Rightarrow> collect_result) \<Rightarrow>
   (OurReader \<Rightarrow> Collector \<Rightarrow> Step list \<Rightarrow> string \<Rightarrow> Value \<Rightarrow> collect_result) \<Rightarrow>
   Descent \<Rightarrow> Step list \<Rightarrow> Token \<Rightarrow> string \<Rightarrow> OurReader \<Rightarrow> Collector \<Rightarrow> Value \<Rightarrow> collect_result" where
  "collect_object_member readVal again K p tokenName name st co v =
     obind (Some (collect_token K (rd_current st) co)) (\<lambda>(colon, current, co1).
       let st' = st\<lparr>rd_current := current\<rparr> in
       if tok_type colon \<noteq> tokenMemberSeparator then
         collect_error K (''Missing '' @ [CHR 0x27] @ '':'' @ [CHR 0x27] @ '' after object member name'') colon tokenObjectEnd st' co1 v
       else case de_checkName K tokenName name st' v of
         Some r \<Rightarrow> obind r (\<lambda>(ok, st'', v'').
           obind (collect_recover K tokenObjectEnd st' co1 v) (\<lambda>(_, _, co2, _). Some (Ret (ok, st'', co2, v''))))
       | None \<Rightarrow> obind (Some (resolveReference name v)) (\<lambda>(v1, x0).
           obind (readVal st' co1 (p @ [Step_name (CZString name)]) x0) (collect_object_next again K p name v1)))"

definition collect_object_step ::
  "(OurReader \<Rightarrow> Collector \<Rightarrow> Step list \<Rightarrow> Value \<Rightarrow> collect_result) \<Rightarrow>
   (OurReader \<Rightarrow> Collector \<Rightarrow> Step list \<Rightarrow> string \<Rightarrow> Value \<Rightarrow> collect_result) \<Rightarrow>
   Descent \<Rightarrow> libc \<Rightarrow> OurReader \<Rightarrow> Collector \<Rightarrow> Step list \<Rightarrow> string \<Rightarrow> Value \<Rightarrow> collect_result" where
  "collect_object_step readVal again K L st co p name v =
     obind (collect_skip K (rd_current st) co) (\<lambda>(tokenName, current, co1).
       let st1 = st\<lparr>rd_current := current\<rparr> in
       if tok_type tokenName = tokenObjectEnd \<and> name = [] then Some (Ret (True, st1, co1, v))
       else case member_name K L tokenName st1 of
         None \<Rightarrow> collect_error K (''Missing '' @ [CHR 0x27] @ ''}'' @ [CHR 0x27] @ '' or object member name'') tokenName tokenObjectEnd st1 co1 v
       | Some m \<Rightarrow> obind (Some m) (\<lambda>(decoded, st2).
           case decoded of
             None \<Rightarrow> collect_recover K tokenObjectEnd st2 co1 v
           | Some name' \<Rightarrow> collect_object_member readVal again K p tokenName name' st2 co1 v))"

definition collect_array_next ::
  "(OurReader \<Rightarrow> Collector \<Rightarrow> Step list \<Rightarrow> nat \<Rightarrow> Value \<Rightarrow> collect_result) \<Rightarrow> Descent \<Rightarrow> Step list \<Rightarrow> nat \<Rightarrow> Value \<Rightarrow>
   bool \<times> OurReader \<times> Collector \<times> Value \<Rightarrow> collect_result" where
  "collect_array_next again K p index v1 result = (case result of (ok, st, co, x) \<Rightarrow>
     let v2 = index_store index x v1 in
     if \<not> ok then collect_recover K tokenArrayEnd st co v2
     else
       obind (collect_skip K (rd_current st) co) (\<lambda>(token, current, co1).
       let st' = st\<lparr>rd_current := current\<rparr> in
       if tok_type token \<noteq> tokenArraySeparator \<and> tok_type token \<noteq> tokenArrayEnd then
         collect_error K
           (''Missing '' @ [CHR 0x27] @ '','' @ [CHR 0x27] @ '' or '' @ [CHR 0x27] @ '']'' @ [CHR 0x27] @ '' in array declaration'')
           token tokenArrayEnd st' co1 v2
       else if tok_type token = tokenArrayEnd then Some (Ret (True, st', co1, v2))
       else again st' co1 p (Suc index) v2))"

definition collect_array_step ::
  "(OurReader \<Rightarrow> Collector \<Rightarrow> Step list \<Rightarrow> Value \<Rightarrow> collect_result) \<Rightarrow>
   (OurReader \<Rightarrow> Collector \<Rightarrow> Step list \<Rightarrow> nat \<Rightarrow> Value \<Rightarrow> collect_result) \<Rightarrow>
   Descent \<Rightarrow> OurReader \<Rightarrow> Collector \<Rightarrow> Step list \<Rightarrow> nat \<Rightarrow> Value \<Rightarrow> collect_result" where
  "collect_array_step readVal again K st co p index v =
     obind (Some (index_ref index v)) (\<lambda>(v1, x0).
       obind (readVal st co (p @ [Step_index index]) x0) (collect_array_next again K p index v1))"

function collect_value :: "nat \<Rightarrow> Descent \<Rightarrow> libc \<Rightarrow> OurReader \<Rightarrow> Collector \<Rightarrow> Step list \<Rightarrow> Value \<Rightarrow> collect_result"
  and collect_object :: "nat \<Rightarrow> Descent \<Rightarrow> libc \<Rightarrow> OurReader \<Rightarrow> Collector \<Rightarrow> Step list \<Rightarrow> string \<Rightarrow> Value \<Rightarrow> collect_result"
  and collect_array :: "nat \<Rightarrow> Descent \<Rightarrow> libc \<Rightarrow> OurReader \<Rightarrow> Collector \<Rightarrow> Step list \<Rightarrow> nat \<Rightarrow> Value \<Rightarrow> collect_result" where
  "collect_value 0 K L st co p v = None"
| "collect_value (Suc n) K L st co p v = collect_value_step (collect_object n K L) (collect_array n K L) K st co p v"
| "collect_object 0 K L st co p name v = None"
| "collect_object (Suc n) K L st co p name v =
     collect_object_step (collect_value n K L) (collect_object n K L) K L st co p name v"
| "collect_array 0 K L st co p index v = None"
| "collect_array (Suc n) K L st co p index v =
     collect_array_step (collect_value n K L) (collect_array n K L) K st co p index v"
  by pat_completeness auto
termination
  by (relation "measure (\<lambda>a. case a of Inl (n, _) \<Rightarrow> n | Inr (Inl (n, _)) \<Rightarrow> n | Inr (Inr (n, _)) \<Rightarrow> n)") auto

section \<open>What is collected\<close>

text \<open>
  A comment as it is stored begins with a slash and has line feeds only; the limit of a value lies
  within the document, and so does its start unless null placeholders may be dropped. What more is
  known of the comments of a document is the parameter \<open>T\<close>; a comment that is stored may lack the last line
  feed, and is cut if it is too long.
\<close>

definition comment_text :: "string \<Rightarrow> bool" where
  "comment_text c \<longleftrightarrow> c \<noteq> [] \<and> hd c = CHR ''/'' \<and> CHR 0x0D \<notin> set c"

definition stored_text :: "(string \<Rightarrow> bool) \<Rightarrow> string \<Rightarrow> bool" where
  "stored_text T c \<longleftrightarrow> comment_text c \<and> (T c \<or> T (c @ [CHR 0x0A]) \<or> int (length c) \<ge> maxInt - 1)"

definition note_ok :: "(string \<Rightarrow> bool) \<Rightarrow> bool \<Rightarrow> nat \<Rightarrow> Annotation \<Rightarrow> bool" where
  "note_ok T dropped n a \<longleftrightarrow> (\<forall>placement c. an_comments a placement = Some c \<longrightarrow> stored_text T c) \<and>
     unat (an_limit a) \<le> n \<and> (\<not> dropped \<longrightarrow> unat (an_start a) \<le> n)"

definition co_ok :: "(string \<Rightarrow> bool) \<Rightarrow> bool \<Rightarrow> nat \<Rightarrow> Collector \<Rightarrow> bool" where
  "co_ok T dropped n co \<longleftrightarrow> co_size co = n \<and> (co_lastValueEnd co \<noteq> None \<longrightarrow> co_lastValue co \<noteq> None) \<and>
     (co_commentsBefore co = [] \<or> comment_text (co_commentsBefore co) \<and> T (co_commentsBefore co)) \<and>
     (\<forall>p. note_ok T dropped n (co_notes co p))"

lemma no_annotation_ok: "note_ok T d n no_annotation"
  by (simp add: note_ok_def no_annotation_def)

lemma note_ok_getComment:
  assumes "note_ok T d n a" and "hasComment placement a"
  shows "peekChar (getComment placement a) = CHR ''/'' \<and> CHR 0x0D \<notin> set (getComment placement a)"
proof -
  obtain c where c: "an_comments a placement = Some c" "comment_text c"
    using assms by (auto simp: note_ok_def hasComment_def stored_text_def)
  then obtain rest where "c = CHR ''/'' # rest" by (cases c) (auto simp: comment_text_def)
  with c show ?thesis by (auto simp: getComment_def c_str_def comment_text_def peekChar_def dest: set_takeWhileD)
qed

lemma CR_normalize_loop: "CHR 0x0D \<notin> set (normalize_loop s)"
  by (induction s rule: normalize_loop.induct) (auto split: list.splits if_splits)

lemma comment_text_normalizeEOL:
  "length stop < length start \<Longrightarrow> peekChar start = CHR ''/'' \<Longrightarrow> comment_text (normalizeEOL start stop)"
proof -
  assume len: "length stop < length start" and slash: "peekChar start = CHR ''/''"
  then obtain rest where b: "start = CHR ''/'' # rest" by (cases start) (auto simp: peekChar_def NUL_def)
  from len obtain n where n: "length start - length stop = Suc n" by (metis Suc_diff_Suc)
  have "normalizeEOL start stop = CHR ''/'' # normalize_loop (take n rest)" unfolding normalizeEOL_def n unfolding b by simp
  then show ?thesis using CR_normalize_loop [of "take (length start - length stop) start"]
    by (simp add: comment_text_def normalizeEOL_def)
qed

lemma comment_text_take: "comment_text c \<Longrightarrow> 0 < n \<Longrightarrow> comment_text (take n c)"
  by (auto simp: comment_text_def dest: in_set_takeD)

lemma setComment_ok:
  assumes c: "comment_text comment" and T: "T comment" and a: "note_ok T d n a"
  shows "\<exists>a'. setComment comment placement a = Ret a' \<and> note_ok T d n a'"
proof -
  obtain rest where r: "comment = CHR ''/'' # rest" using c by (cases comment) (auto simp: comment_text_def)
  define len where "len = (if length comment > 0 \<and> last comment = CHR 0x0A then length comment - 1 else length comment)"
  have len: "0 < len" "len \<le> length comment" using r by (auto simp: len_def)
  let ?c = "duplicateStringValue comment len"
  have "comment_text ?c"
    unfolding duplicateStringValue_def using len by (intro comment_text_take [OF c]) (simp add: maxInt_def)
  moreover have "T ?c \<or> T (?c @ [CHR 0x0A])" if "int len < maxInt"
    using that T append_butlast_last_id [of comment] r by (auto simp: duplicateStringValue_def len_def butlast_conv_take)
  moreover have "int (length ?c) \<ge> maxInt - 1" if "\<not> int len < maxInt"
    using that len(2) by (simp add: duplicateStringValue_def maxInt_def)
  ultimately have "stored_text T ?c" by (auto simp: stored_text_def)
  moreover have "peekChar comment = CHR ''/''" by (simp add: r peekChar_def)
  ultimately have "setComment comment placement a = Ret (a\<lparr>an_comments := (an_comments a)(placement := Some ?c)\<rparr>)"
    and "note_ok T d n (a\<lparr>an_comments := (an_comments a)(placement := Some ?c)\<rparr>)"
    using a by (auto simp: setComment_def CommentInfo_setComment_def JSON_ASSERT_MESSAGE_def len_def Let_def note_ok_def)
  then show ?thesis by blast
qed

lemma unat_offset: "unat (offset co s) \<le> co_size co"
proof -
  have "unat (offset co s) \<le> co_size co - length s"
    unfolding offset_def unat_of_nat by (rule mod_less_eq_dividend)
  then show ?thesis by simp
qed

lemma note_ok_offsets:
  "note_ok T d n a \<Longrightarrow> unat x \<le> n \<Longrightarrow> note_ok T d n (setOffsetLimit x a)"
  "note_ok T d n a \<Longrightarrow> d \<or> unat x \<le> n \<Longrightarrow> note_ok T d n (setOffsetStart x a)"
  by (auto simp: note_ok_def setOffsetLimit_def setOffsetStart_def)

lemma co_ok_update: "co_ok T d n co \<Longrightarrow> (\<And>a. note_ok T d n a \<Longrightarrow> note_ok T d n (g a)) \<Longrightarrow> co_ok T d n (update_note p g co)"
  by (simp add: co_ok_def update_note_def)

lemma co_ok_swapPayload: "co_ok T d n co \<Longrightarrow> co_ok T d n (swapPayload p co)"
  by (auto simp: co_ok_def swapPayload_def note_ok_def no_annotation_def)

lemma co_ok_remember: "co_ok T d n co \<Longrightarrow> co_ok T d n (remember p s co)"
  by (simp add: co_ok_def remember_def)

lemma co_ok_size: "co_ok T d n co \<Longrightarrow> co_size co = n"
  by (simp add: co_ok_def)

lemma co_ok_offset: "co_ok T d n co \<Longrightarrow> unat (offset co s) \<le> n"
  using unat_offset [of co s] by (simp add: co_ok_def)

lemma co_ok_token_offsets: "co_ok T d n co \<Longrightarrow> co_ok T d n (token_offsets p t co)"
  unfolding token_offsets_def by (intro co_ok_update note_ok_offsets disjI2 co_ok_offset)

lemmas co_ok_intros = co_ok_update co_ok_swapPayload co_ok_remember co_ok_token_offsets note_ok_offsets co_ok_offset

lemma comment_value_ok: "co_ok T d n co \<Longrightarrow> \<exists>co'. comment_value placement p co = Ret co' \<and> co_ok T d n co'"
proof (cases "co_collect co \<and> co_commentsBefore co \<noteq> []")
  case True
  assume ok: "co_ok T d n co"
  with True have "comment_text (co_commentsBefore co)" "T (co_commentsBefore co)" "note_ok T d n (co_notes co p)" by (simp_all add: co_ok_def)
  from setComment_ok [OF this] obtain a where a: "setComment (co_commentsBefore co) placement (co_notes co p) = Ret a" "note_ok T d n a"
    by blast
  then have "co_ok T d n (update_note p (\<lambda>_. a) co)" using ok by (intro co_ok_update)
  with True a show ?thesis by (simp add: comment_value_def)
next
  case False
  assume "co_ok T d n co"
  moreover have "comment_value placement p co = Ret co" using False by (auto simp: comment_value_def)
  ultimately show ?thesis by simp
qed

lemma comment_before_ok: "co_ok T d n co \<Longrightarrow> \<exists>co'. comment_before p co = Ret co' \<and> co_ok T d n co'"
  using comment_value_ok [of T d n co commentBefore p] by (auto simp: comment_before_def co_ok_def)

lemma collect_comment_ok:
  assumes ok: "co_ok T d n co" and len: "length current < length start" and slash: "peekChar start = CHR ''/''"
    and T: "T (normalizeEOL start current)" and closed: "\<And>c. T c \<Longrightarrow> T (c @ normalizeEOL start current)"
  shows "\<exists>co'. collect_comment start current co = Ret co' \<and> co_ok T d n co'"
proof -
  have t: "comment_text (normalizeEOL start current)" by (rule comment_text_normalizeEOL [OF len slash])
  have before: "co_ok T d n (co\<lparr>co_commentsBefore := co_commentsBefore co @ normalizeEOL start current\<rparr>)"
    using ok t T closed by (auto simp: co_ok_def comment_text_def)
  have same: "\<exists>co'. addComment start current commentAfterOnSameLine co = Ret co' \<and> co_ok T d n co'" if "co_lastValue co = Some p" for p
  proof -
    obtain a where a: "setComment (normalizeEOL start current) commentAfterOnSameLine (co_notes co p) = Ret a" "note_ok T d n a"
      using setComment_ok [where T = T, OF t T, of d n "co_notes co p"] ok unfolding co_ok_def by blast
    then have "co_ok T d n (update_note p (\<lambda>_. a) co)" using ok by (intro co_ok_update)
    with a that show ?thesis by (simp add: addComment_def Let_def)
  qed
  show ?thesis
    using ok before same
    by (cases "co_lastValueEnd co"; cases "co_lastValue co")
      (auto simp: collect_comment_def Let_def addComment_def co_ok_def)
qed

section \<open>Collecting changes neither the value nor the errors\<close>

text \<open>A collecting call that does what the call without collecting does, and leaves the collector as it should be.\<close>

definition follows :: "(string \<Rightarrow> bool) \<Rightarrow> (Collector \<Rightarrow> bool) \<Rightarrow> collect_result \<Rightarrow> read_result \<Rightarrow> bool" where
  "follows P C rc r = (case rc of
       Some (Ret (ok, st, co, v)) \<Rightarrow> r = Some (Ret (ok, st, v)) \<and> C co \<and> P (rd_current st)
     | Some (Throw e) \<Rightarrow> r = Some (Throw e)
     | Some Terminate \<Rightarrow> r = Some Terminate
     | None \<Rightarrow> r = None)"

lemma follows_simps [simp]:
  "follows P C (Some (Ret (ok, st, co, v))) r \<longleftrightarrow> r = Some (Ret (ok, st, v)) \<and> C co \<and> P (rd_current st)"
  "follows P C (Some (Throw e)) r \<longleftrightarrow> r = Some (Throw e)" "follows P C (Some Terminate) r \<longleftrightarrow> r = Some Terminate"
  "follows P C None r \<longleftrightarrow> r = None"
  by (simp_all add: follows_def)

lemma obind_simps [simp]:
  "obind None f = None" "obind (Some (Ret x)) f = f x" "obind (Some (Throw e)) f = Some (Throw e)"
  "obind (Some Terminate) f = Some Terminate"
  by (simp_all add: obind_def)

lemma follows_obind:
  assumes "follows P C rc r"
    and "\<And>ok st co v. C co \<Longrightarrow> P (rd_current st) \<Longrightarrow> follows P C (f (ok, st, co, v)) (g (ok, st, v))"
  shows "follows P C (obind rc f) (obind r g)"
proof (cases rc)
  case None
  with assms(1) show ?thesis by simp
next
  case (Some m)
  show ?thesis
  proof (cases m)
    case (Ret x)
    obtain ok st co v where "x = (ok, st, co, v)" by (cases x)
    with assms Some Ret show ?thesis by simp
  qed (use assms(1) Some in simp_all)
qed

lemma follows_call:
  "(\<And>x. m = Ret x \<Longrightarrow> follows P C (f x) (g x)) \<Longrightarrow> follows P C (obind (Some m) f) (obind (Some m) g)"
  by (cases m) simp_all

text \<open>
  A comment token begins with a slash; \<open>P\<close> is what is known of the text still to be read, \<open>T\<close> what follows from
  it for a comment. A name that is refused is recovered from up to the end of the object.
\<close>

locale comment_source = token_source +
  fixes P :: "string \<Rightarrow> bool" and T :: "string \<Rightarrow> bool"
  assumes read_rest: "P s \<Longrightarrow> P (snd (de_readToken K s))"
    and read_begin: "P s \<Longrightarrow> P (tok_start (fst (de_readToken K s)))"
    and spaces: "P s \<Longrightarrow> P (skipSpaces s)"
    and comment_slash: "P s \<Longrightarrow> tok_type (fst (de_readToken K s)) = tokenComment \<Longrightarrow> peekChar (tok_start (fst (de_readToken K s))) = CHR ''/''"
    and comment_length: "tok_type (fst (de_readToken K s)) = tokenComment \<Longrightarrow>
      length (snd (de_readToken K s)) < length (tok_start (fst (de_readToken K s)))"
    and comment_known: "P s \<Longrightarrow> tok_type (fst (de_readToken K s)) = tokenComment \<Longrightarrow>
      T (normalizeEOL (tok_start (fst (de_readToken K s))) (snd (de_readToken K s)))"
    and known_append: "T c \<Longrightarrow> T c' \<Longrightarrow> T (c @ c')"
    and check_recovers: "de_checkName K t name st v = Some (Some (Ret (ok, st', v'))) \<Longrightarrow>
      rd_current st' = de_recover K tokenObjectEnd (rd_current st)"
begin

lemma token_ok:
  assumes "P s" and "co_ok T (de_droppedNull K) n co"
  obtains co' where "collect_token K s co = Ret (fst (de_readToken K s), snd (de_readToken K s), co')"
    "co_ok T (de_droppedNull K) n co'"
proof (cases "tok_type (fst (de_readToken K s)) = tokenComment")
  case True
  obtain co' where "collect_comment (tok_start (fst (de_readToken K s))) (snd (de_readToken K s)) co = Ret co'"
      "co_ok T (de_droppedNull K) n co'"
    using collect_comment_ok [OF assms(2) comment_length [OF True] comment_slash [OF assms(1) True] comment_known [OF assms(1) True]]
      known_append comment_known [OF assms(1) True] by blast
  with True that show ?thesis by (simp add: collect_token_def case_prod_beta)
next
  case False
  with assms(2) that show ?thesis by (simp add: collect_token_def case_prod_beta)
qed

text \<open>The loops end, where the loops without collecting end.\<close>

lemma loop_ok:
  assumes step: "\<And>s. f s = (let r = de_readToken K s in if stop (tok_type (fst r)) then h r else f (snd r))"
    and less: "\<And>s. \<not> stop (tok_type (fst (de_readToken K s))) \<Longrightarrow> length (snd (de_readToken K s)) < length s"
  shows "P s \<Longrightarrow> co_ok T (de_droppedNull K) n co \<Longrightarrow> length s < m \<Longrightarrow>
    \<exists>t c co'. collect_loop m K stop s co = Some (Ret (t, c, co')) \<and> h (t, c) = f s \<and> co_ok T (de_droppedNull K) n co' \<and>
      P c \<and> P (tok_start t)"
proof (induction m arbitrary: s co)
  case (Suc m)
  obtain co1 where t: "collect_token K s co = Ret (fst (de_readToken K s), snd (de_readToken K s), co1)" "co_ok T (de_droppedNull K) n co1"
    using token_ok [OF Suc.prems(1,2)] by blast
  show ?case
  proof (cases "stop (tok_type (fst (de_readToken K s)))")
    case True
    with t step [of s] read_rest [OF Suc.prems(1)] read_begin [OF Suc.prems(1)] show ?thesis by (simp add: Let_def)
  next
    case False
    have "length (snd (de_readToken K s)) < m" using less [OF False] Suc.prems(3) by simp
    from Suc.IH [OF read_rest [OF Suc.prems(1)] t(2) this] False t step [of s] show ?thesis by (simp add: Let_def)
  qed
qed simp

lemma skip_ok:
  assumes "P s" and "co_ok T (de_droppedNull K) n co"
  obtains co' where "collect_skip K s co = Some (Ret (fst (de_skipComments K s), snd (de_skipComments K s), co'))"
    "co_ok T (de_droppedNull K) n co'" "P (snd (de_skipComments K s))" "P (tok_start (fst (de_skipComments K s)))"
proof -
  have "de_skipComments K s = (let r = de_readToken K s in if tok_type (fst r) \<noteq> tokenComment then id r else de_skipComments K (snd r))" for s
    using skip_loop [of s] by (simp add: Let_def)
  moreover have "length (snd (de_readToken K s)) < length s" if "\<not> tok_type (fst (de_readToken K s)) \<noteq> tokenComment" for s
    using that by (intro read_progress) simp
  ultimately obtain t c co' where "collect_skip K s co = Some (Ret (t, c, co'))" "id (t, c) = de_skipComments K s"
      "co_ok T (de_droppedNull K) n co'" "P c" "P (tok_start t)"
    using loop_ok [of "de_skipComments K" "\<lambda>ty. ty \<noteq> tokenComment" id, OF _ _ assms, of "Suc (length s)"]
    unfolding collect_skip_def collect_until_def by blast
  then show ?thesis using that by (metis fst_conv id_apply snd_conv)
qed

lemma tokens_ok:
  assumes "P s" and "co_ok T (de_droppedNull K) n co"
  obtains co' where "collect_tokens K s co = Some (Ret (fst (skip_tokens K s), snd (skip_tokens K s), co'))"
    "co_ok T (de_droppedNull K) n co'" "P (snd (skip_tokens K s))" "P (tok_start (fst (skip_tokens K s)))"
proof (cases "de_allowComments K")
  case True
  with skip_ok [OF assms] that show ?thesis by (auto simp: collect_tokens_def skip_tokens_def)
next
  case False
  with token_ok [OF assms] read_rest [OF assms(1)] read_begin [OF assms(1)] that show ?thesis
    by (auto simp: collect_tokens_def skip_tokens_def)
qed

lemma scalar_value_current: "scalar_value K t st v = Ret x \<Longrightarrow> rd_current (fst (snd x)) = rd_current st"
proof -
  assume x: "scalar_value K t st v = Ret x"
  obtain d st1 where d: "decodeString t st = (d, st1)" by fastforce
  have "rd_current (snd (de_decodeNumber K t st)) = rd_current st"
    using number_well [of st t] by (auto simp: decoded_well_def split: option.splits)
  with x decodeString_current [OF d] show ?thesis
    by (cases "tok_type t") (auto simp: scalar_value_def d cxx_simps split: option.splits prod.splits)
qed

lemma recover_ok:
  assumes "P (rd_current st)" and "co_ok T (de_droppedNull K) n co"
  obtains co' where "collect_recover K k st co v = Some (Ret (False, recover_from K k st, co', v))"
    "co_ok T (de_droppedNull K) n co'" "P (de_recover K k (rd_current st))"
proof -
  let ?stop = "\<lambda>ty. ty = k \<or> ty = tokenEndOfStream"
  have "length (snd (de_readToken K s)) < length s" if "\<not> ?stop (tok_type (fst (de_readToken K s)))" for s
    using that by (intro read_progress) simp
  then obtain t c co' where "collect_until K ?stop (rd_current st) co = Some (Ret (t, c, co'))" "snd (t, c) = de_recover K k (rd_current st)"
      "co_ok T (de_droppedNull K) n co'" "P c"
    using loop_ok [of "de_recover K k" ?stop snd, OF recover_loop _ assms, of "Suc (length (rd_current st))"]
    unfolding collect_until_def by blast
  then show ?thesis using that by (simp add: collect_recover_def recover_from_def)
qed

lemma recover_follows:
  assumes "P (rd_current st)" and "co_ok T (de_droppedNull K) n co"
  shows "follows P (co_ok T (de_droppedNull K) n) (collect_recover K k st co v) (Some (Ret (False, recover_from K k st, v)))"
  using recover_ok [OF assms, of k v] by (force simp: recover_from_def)

lemma error_follows:
  assumes "P (rd_current st)" and "co_ok T (de_droppedNull K) n co"
  shows "follows P (co_ok T (de_droppedNull K) n) (collect_error K msg t k st co v) (Some (Ret (False, error_and_recover K msg t k st, v)))"
  unfolding collect_error_def error_and_recover_def using assms by (intro recover_follows) (simp_all add: addError_def)

lemma array_next_follows:
  assumes "P (rd_current st)" and "co_ok T (de_droppedNull K) n co"
    and again: "\<And>st co i v. P (rd_current st) \<Longrightarrow> co_ok T (de_droppedNull K) n co \<Longrightarrow>
      follows P (co_ok T (de_droppedNull K) n) (again' st co p i v) (again st i v)"
  shows "follows P (co_ok T (de_droppedNull K) n) (collect_array_next again' K p index v1 (ok, st, co, x)) (array_next again K index v1 (ok, st, x))"
proof -
  obtain co1 where "collect_skip K (rd_current st) co = Some (Ret (fst (de_skipComments K (rd_current st)), snd (de_skipComments K (rd_current st)), co1))"
      "co_ok T (de_droppedNull K) n co1" "P (snd (de_skipComments K (rd_current st)))"
    using skip_ok [OF assms(1,2)] by blast
  then show ?thesis
    using assms by (simp add: collect_array_next_def array_next_def Let_def case_prod_beta recover_follows error_follows)
qed

lemma object_next_follows:
  assumes p: "P (rd_current st)" and co: "co_ok T (de_droppedNull K) n co"
    and again: "\<And>st co nm v. P (rd_current st) \<Longrightarrow> co_ok T (de_droppedNull K) n co \<Longrightarrow>
      follows P (co_ok T (de_droppedNull K) n) (again' st co p nm v) (again st nm v)"
  shows "follows P (co_ok T (de_droppedNull K) n) (collect_object_next again' K p name v1 (ok, st, co, x)) (object_next again K name v1 (ok, st, x))"
proof -
  let ?t = "fst (de_readToken K (rd_current st))" and ?c = "snd (de_readToken K (rd_current st))"
  obtain co1 where t: "collect_token K (rd_current st) co = Ret (?t, ?c, co1)" "co_ok T (de_droppedNull K) n co1"
    using token_ok [OF p co] by blast
  have c: "P ?c" by (rule read_rest [OF p])
  obtain co2 where s: "collect_skip K ?c co1 = Some (Ret (fst (de_skipComments K ?c), snd (de_skipComments K ?c), co2))"
      "co_ok T (de_droppedNull K) n co2" "P (snd (de_skipComments K ?c))"
    using skip_ok [OF c t(2)] by blast
  show ?thesis
    using assms t c s by (simp add: collect_object_next_def object_next_def Let_def case_prod_beta recover_follows error_follows)
qed

lemma object_member_follows:
  assumes p: "P (rd_current st)" and co: "co_ok T (de_droppedNull K) n co"
    and val: "\<And>st co q v. P (rd_current st) \<Longrightarrow> co_ok T (de_droppedNull K) n co \<Longrightarrow>
      follows P (co_ok T (de_droppedNull K) n) (readVal' st co q v) (readVal st v)"
    and again: "\<And>st co nm v. P (rd_current st) \<Longrightarrow> co_ok T (de_droppedNull K) n co \<Longrightarrow>
      follows P (co_ok T (de_droppedNull K) n) (again' st co p nm v) (again st nm v)"
  shows "follows P (co_ok T (de_droppedNull K) n) (collect_object_member readVal' again' K p t name st co v) (object_member readVal again K t name st v)"
proof -
  let ?t = "fst (de_readToken K (rd_current st))" and ?c = "snd (de_readToken K (rd_current st))"
  let ?st = "st\<lparr>rd_current := ?c\<rparr>"
  obtain co1 where t: "collect_token K (rd_current st) co = Ret (?t, ?c, co1)" "co_ok T (de_droppedNull K) n co1"
    using token_ok [OF p co] by blast
  have c: "P (rd_current ?st)" using read_rest [OF p] by simp
  have call: "follows P (co_ok T (de_droppedNull K) n)
      (obind (Some (resolveReference name v)) (\<lambda>(v1, x0). obind (readVal' ?st co1 q x0) (collect_object_next again' K p name v1)))
      (obind (Some (resolveReference name v)) (\<lambda>(v1, x0). obind (readVal ?st x0) (object_next again K name v1)))" for q
    using val [OF c t(2)] by (intro follows_call) (auto intro!: follows_obind object_next_follows again split: prod.split)
  obtain co2 where r: "collect_recover K tokenObjectEnd ?st co1 v = Some (Ret (False, recover_from K tokenObjectEnd ?st, co2, v))"
      "co_ok T (de_droppedNull K) n co2" "P (de_recover K tokenObjectEnd ?c)"
    using recover_ok [OF c t(2), of tokenObjectEnd v] by auto
  have check: "follows P (co_ok T (de_droppedNull K) n) (obind r (\<lambda>(ok, st'', v'').
      obind (collect_recover K tokenObjectEnd ?st co1 v) (\<lambda>(_, _, co2, _). Some (Ret (ok, st'', co2, v''))))) r"
    if d: "de_checkName K t name ?st v = Some r" for r
  proof (cases r)
    case (Some m)
    show ?thesis
    proof (cases m)
      case (Ret x)
      obtain ok st' v' where "x = (ok, st', v')" by (cases x)
      with Some Ret d r check_recovers [of t name ?st v ok st' v'] show ?thesis by simp
    qed (simp_all add: Some)
  qed simp
  show ?thesis
    using t call check c
    by (cases "de_checkName K t name ?st v")
      (simp_all add: collect_object_member_def object_member_def Let_def case_prod_beta error_follows)
qed

lemma object_step_follows:
  assumes p: "P (rd_current st)" and co: "co_ok T (de_droppedNull K) n co"
    and val: "\<And>st co q v. P (rd_current st) \<Longrightarrow> co_ok T (de_droppedNull K) n co \<Longrightarrow>
      follows P (co_ok T (de_droppedNull K) n) (readVal' st co q v) (readVal st v)"
    and again: "\<And>st co nm v. P (rd_current st) \<Longrightarrow> co_ok T (de_droppedNull K) n co \<Longrightarrow>
      follows P (co_ok T (de_droppedNull K) n) (again' st co p nm v) (again st nm v)"
  shows "follows P (co_ok T (de_droppedNull K) n) (collect_object_step readVal' again' K L st co p name v) (object_step readVal again K L st name v)"
proof -
  obtain t c where tc: "de_skipComments K (rd_current st) = (t, c)" by fastforce
  let ?st = "st\<lparr>rd_current := c\<rparr>"
  obtain co1 where t: "collect_skip K (rd_current st) co = Some (Ret (t, c, co1))" "co_ok T (de_droppedNull K) n co1" "P c"
    using skip_ok [OF p co] by (auto simp: tc)
  have named: "follows P (co_ok T (de_droppedNull K) n)
      (obind (Some m) (\<lambda>(decoded, st2). case decoded of None \<Rightarrow> collect_recover K tokenObjectEnd st2 co1 v
         | Some name' \<Rightarrow> collect_object_member readVal' again' K p t name' st2 co1 v))
      (obind (Some m) (\<lambda>(decoded, st2). case decoded of None \<Rightarrow> Some (Ret (False, recover_from K tokenObjectEnd st2, v))
         | Some name' \<Rightarrow> object_member readVal again K t name' st2 v))"
    if m: "member_name K L t ?st = Some m" for m
  proof (rule follows_call)
    fix x
    assume "m = Ret x"
    with m have "decoded_well ?st x" by (simp add: member_name_promise)
    then have "P (rd_current (snd x))" using t(3) by (auto simp: decoded_well_def split: option.splits)
    then show "follows P (co_ok T (de_droppedNull K) n)
        (case x of (decoded, st2) \<Rightarrow> case decoded of None \<Rightarrow> collect_recover K tokenObjectEnd st2 co1 v
           | Some name' \<Rightarrow> collect_object_member readVal' again' K p t name' st2 co1 v)
        (case x of (decoded, st2) \<Rightarrow> case decoded of None \<Rightarrow> Some (Ret (False, recover_from K tokenObjectEnd st2, v))
           | Some name' \<Rightarrow> object_member readVal again K t name' st2 v)"
      using t(2) by (auto intro: recover_follows object_member_follows val again split: prod.split option.split)
  qed
  show ?thesis
    using t named
    by (cases "member_name K L t ?st")
      (simp_all add: collect_object_step_def object_step_def Let_def tc error_follows)
qed

lemma array_step_follows:
  assumes "P (rd_current st)" and "co_ok T (de_droppedNull K) n co"
    and "\<And>st co q v. P (rd_current st) \<Longrightarrow> co_ok T (de_droppedNull K) n co \<Longrightarrow>
      follows P (co_ok T (de_droppedNull K) n) (readVal' st co q v) (readVal st v)"
    and "\<And>st co i v. P (rd_current st) \<Longrightarrow> co_ok T (de_droppedNull K) n co \<Longrightarrow>
      follows P (co_ok T (de_droppedNull K) n) (again' st co p i v) (again st i v)"
  shows "follows P (co_ok T (de_droppedNull K) n) (collect_array_step readVal' again' K st co p index v) (array_step readVal again K st index v)"
  unfolding collect_array_step_def array_step_def
  using assms by (intro follows_call) (auto intro!: follows_obind array_next_follows split: prod.split)

lemma value_step_follows:
  assumes p: "P (rd_current st)" and co: "co_ok T (de_droppedNull K) n co"
    and obj: "\<And>st co nm v. P (rd_current st) \<Longrightarrow> co_ok T (de_droppedNull K) n co \<Longrightarrow>
      follows P (co_ok T (de_droppedNull K) n) (readObj' st co p nm v) (readObj st nm v)"
    and arr: "\<And>st co i v. P (rd_current st) \<Longrightarrow> co_ok T (de_droppedNull K) n co \<Longrightarrow>
      follows P (co_ok T (de_droppedNull K) n) (readArr' st co p i v) (readArr st i v)"
  shows "follows P (co_ok T (de_droppedNull K) n) (collect_value_step readObj' readArr' K st co p v) (value_step readObj readArr K st v)"
proof -
  let ?d = "de_droppedNull K"
  obtain t current where tc: "skip_tokens K (rd_current st) = (t, current)" by fastforce
  obtain co1 where t: "collect_tokens K (rd_current st) co = Some (Ret (t, current, co1))" "co_ok T ?d n co1"
      "P current" "P (tok_start t)"
    using tokens_ok [OF p co] by (auto simp: tc)
  obtain co2 where b: "comment_before p co1 = Ret co2" "co_ok T ?d n co2" using comment_before_ok [OF t(2)] by blast
  define st1 where "st1 = st\<lparr>rd_current := current, rd_stackDepth := rd_stackDepth st + 1\<rparr>"
  define leave where "leave = (\<lambda>(ok, st', v'). Some (Ret (ok, st'\<lparr>rd_stackDepth := rd_stackDepth st' - 1\<rparr>, v' :: Value)) :: read_result)"
  define leave' where "leave' = (\<lambda>(ok, st', co', v').
    Some (Ret (ok, st'\<lparr>rd_stackDepth := rd_stackDepth st' - 1\<rparr>, remember p (rd_current st') co', v' :: Value)) :: collect_result)"
  define opened where "opened = update_note p (setOffsetStart (offset co2 (tok_start t))) (swapPayload p co2)"
  define close where "close = (\<lambda>(ok, st', co', v').
    leave' (ok, st', update_note p (setOffsetLimit (offset co' (rd_current st'))) co', v'))"
  have st1: "P (rd_current st1)" using t(3) by (simp add: st1_def)
  have leave: "follows P (co_ok T ?d n) (leave' (ok, st', co', x)) (leave (ok, st', x))" if "co_ok T ?d n co'" "P (rd_current st')" for ok st' co' x
    using that by (simp add: leave_def leave'_def co_ok_intros)
  have close: "follows P (co_ok T ?d n) (close (ok, st', co', x)) (leave (ok, st', x))" if "co_ok T ?d n co'" "P (rd_current st')" for ok st' co' x
    using that by (simp add: close_def leave co_ok_intros)
  have opened: "co_ok T ?d n opened" using b(2) by (simp add: opened_def co_ok_intros)
  have sp: "P (skipSpaces current)" by (rule spaces [OF t(3)])
  obtain co3 where e: "collect_token K (skipSpaces current) opened =
      Ret (fst (de_readToken K (skipSpaces current)), snd (de_readToken K (skipSpaces current)), co3)" "co_ok T ?d n co3"
    using token_ok [OF sp opened] by blast
  have e1: "follows P (co_ok T ?d n) (close (True, st1\<lparr>rd_current := snd (de_readToken K (skipSpaces current))\<rparr>, co3, x))
      (leave (True, st1\<lparr>rd_current := snd (de_readToken K (skipSpaces current))\<rparr>, x))" for x
    using e(2) read_rest [OF sp] by (intro close) simp_all
  have o1: "follows P (co_ok T ?d n) (obind (readObj' st1 opened p nm w) close) (obind (readObj st1 nm w) leave)" for nm w
    by (intro follows_obind obj st1 opened close)
  have a1: "follows P (co_ok T ?d n) (obind (readArr' (st1\<lparr>rd_current := skipSpaces current\<rparr>) opened p i w) close)
      (obind (readArr (st1\<lparr>rd_current := skipSpaces current\<rparr>) i w) leave)" for i w
    using sp by (intro follows_obind arr opened close) simp_all
  have s1: "follows P (co_ok T ?d n) (obind (Some (scalar_value K t st1 v)) (\<lambda>(ok, st', v').
        leave' (ok, st', if ok then token_offsets p t (swapPayload p co2) else co2, v')))
      (obind (Some (scalar_value K t st1 v)) leave)" if "tok_type t \<in> set (de_scalars K)"
  proof (rule follows_call)
    fix x
    assume x: "scalar_value K t st1 v = Ret x"
    have "rd_current (fst (snd x)) = current" using scalar_value_current [OF x] by (simp add: st1_def)
    then show "follows P (co_ok T ?d n) (case x of (ok, st', v') \<Rightarrow>
        leave' (ok, st', if ok then token_offsets p t (swapPayload p co2) else co2, v')) (leave x)"
      using b(2) t(3) by (cases x) (auto intro!: leave co_ok_intros)
  qed
  have d1: "follows P (co_ok T ?d n) (leave' (True, st1\<lparr>rd_current := tok_start t\<rparr>,
      update_note p (\<lambda>a. setOffsetLimit (offset co2 (tok_start t)) (setOffsetStart (offset co2 (tok_start t) - 1) a)) (swapPayload p co2), x))
      (leave (True, st1\<lparr>rd_current := tok_start t\<rparr>, x))" if ?d for x
    using b(2) t(4) that by (intro leave co_ok_intros) simp_all
  show ?thesis
    unfolding collect_value_step_def value_step_def tc t(1)
    using o1 a1 s1 d1 e1 e(1) b st1 co_ok_token_offsets [OF b(2), of p t]
    by (cases ?d) (simp_all add: Let_def st1_def [symmetric] leave_def [symmetric] leave'_def [symmetric] opened_def [symmetric]
        close_def [symmetric] addError_def)
qed

theorem collecting_follows:
  "P (rd_current st) \<Longrightarrow> co_ok T (de_droppedNull K) n co \<Longrightarrow>
    follows P (co_ok T (de_droppedNull K) n) (collect_value m K L st co p v) (descend_value m K L st v)"
  "P (rd_current st) \<Longrightarrow> co_ok T (de_droppedNull K) n co \<Longrightarrow>
    follows P (co_ok T (de_droppedNull K) n) (collect_object m K L st co p nm v) (descend_object m K L st nm v)"
  "P (rd_current st) \<Longrightarrow> co_ok T (de_droppedNull K) n co \<Longrightarrow>
    follows P (co_ok T (de_droppedNull K) n) (collect_array m K L st co p i v) (descend_array m K L st i v)"
proof (induction m arbitrary: st co p v nm i)
  case 0
  { case 1 then show ?case by simp }
  { case 2 then show ?case by simp }
  { case 3 then show ?case by simp }
next
  case (Suc m)
  { case 1 then show ?case using Suc.IH(2,3) by (simp add: value_step_follows) }
  { case 2 then show ?case using Suc.IH(1,2) by (simp add: object_step_follows) }
  { case 3 then show ?case using Suc.IH(1,3) by (simp add: array_step_follows) }
qed

end

end
