(* ===== verification/Json_Collecting.thy ===== *)
theory Json_Collecting
  imports Json_Comments
begin

text \<open>
  \<^verbatim>\<open>parse\<close> of both readers with comments (\<^verbatim>\<open>src/dist/jsoncpp.cpp\<close>): the interpretations of \<open>comment_source\<close>,
  and what follows for a whole document. The error that a client pushes for a value is placed by
  the value's offsets.
\<close>

section \<open>parse\<close>

definition new_Collector :: "bool \<Rightarrow> string \<Rightarrow> Notes \<Rightarrow> Collector" where
  "new_Collector collectComments doc notes0 = \<lparr>co_collect = collectComments, co_size = length doc, co_commentsBefore = [],
     co_lastValueEnd = None, co_lastValue = None, co_notes = notes0\<rparr>"

type_synonym collect_parse = "(bool \<times> ErrorInfo list \<times> Value \<times> Notes) cxx option"

definition OurReader_parse_collect ::
  "OurFeatures \<Rightarrow> libc \<Rightarrow> bool \<Rightarrow> string \<Rightarrow> Value \<Rightarrow> Notes \<Rightarrow> collect_parse" where
  "OurReader_parse_collect F L collectComments doc root0 notes0 =
     (let K = our_descent F L in
      obind (collect_value (2 * length doc + 1) K L (OurReader_init doc)
          (new_Collector (collectComments \<and> allowComments F) doc notes0) [] root0) (\<lambda>(successful, st, co, v).
      obind (collect_tokens K (rd_current st) co) (\<lambda>(token, current, co1).
      if failIfExtra F \<and> tok_type token \<noteq> tokenError \<and> tok_type token \<noteq> tokenEndOfStream then
        Some (Ret (False, rd_errors (addError ''Extra non-whitespace after JSON value.'' token None st), v, co_notes co1))
      else obind (Some (comment_value commentAfter [] co1)) (\<lambda>co2.
        if strictRoot F \<and> \<not> isArray v \<and> \<not> isObject v then
          Some (Ret (False, rd_errors (addError
            ''A valid JSON document must be either an array or an object value.''
            \<lparr>tok_type = tokenError, tok_start = doc, tok_end = []\<rparr> None st), v, co_notes co2))
        else Some (Ret (successful, rd_errors st, v, co_notes co2))))))"

definition Reader_parse_collect ::
  "Features \<Rightarrow> (string \<Rightarrow> double option) \<Rightarrow> libc \<Rightarrow> bool \<Rightarrow> string \<Rightarrow> Value \<Rightarrow> Notes \<Rightarrow> collect_parse" where
  "Reader_parse_collect f extract L collectComments doc root0 notes0 =
     (let K = old_descent f extract in
      obind (collect_value (2 * length doc + 1) K L (OurReader_init doc)
          (new_Collector (collectComments \<and> f_allowComments f) doc notes0) [] root0) (\<lambda>(successful, st, co, v).
      obind (collect_tokens K (rd_current st) co) (\<lambda>(token, current, co1).
      obind (Some (comment_value commentAfter [] co1)) (\<lambda>co2.
        if f_strictRoot f \<and> \<not> isArray v \<and> \<not> isObject v then
          Some (Ret (False, rd_errors (addError
            ''A valid JSON document must be either an array or an object value.''
            \<lparr>tok_type = tokenError, tok_start = doc, tok_end = []\<rparr> None st), v, co_notes co2))
        else Some (Ret (successful, rd_errors st, v, co_notes co2))))))"

text \<open>
  \<^verbatim>\<open>pushError(value, message, extra)\<close>. The locations are counted from the end; where \<^verbatim>\<open>extra\<close> has a start beyond
  the document, which the code does not test, this count is 0.
\<close>

definition pushError_extra :: "nat \<Rightarrow> Annotation \<Rightarrow> string \<Rightarrow> Annotation \<Rightarrow> ErrorInfo list \<Rightarrow> bool \<times> ErrorInfo list" where
  "pushError_extra len value message extra errors =
     (if unat (getOffsetStart value) > len \<or> unat (getOffsetLimit value) > len \<or> unat (getOffsetLimit extra) > len
      then (False, errors)
      else (True, errors @ [\<lparr>err_start = len - unat (getOffsetStart value), err_end = int len - int (unat (getOffsetLimit value)),
        err_message = message, err_extra = Some (len - unat (getOffsetStart extra))\<rparr>]))"

text \<open>\<^verbatim>\<open>pushError(value, message)\<close> counts the end of the token from \<^verbatim>\<open>end_\<close>.\<close>

definition pushError :: "nat \<Rightarrow> Annotation \<Rightarrow> string \<Rightarrow> ErrorInfo list \<Rightarrow> bool \<times> ErrorInfo list" where
  "pushError len value message errors =
     (if unat (getOffsetStart value) > len \<or> unat (getOffsetLimit value) > len
      then (False, errors)
      else (True, errors @ [\<lparr>err_start = len - unat (getOffsetStart value), err_end = - int (unat (getOffsetLimit value)),
        err_message = message, err_extra = None\<rparr>]))"

section \<open>The lexers of the two readers\<close>

lemma leaves_suffix_minus:
  assumes "suffix (snd p) s"
  shows "leaves_suffix s (case p of (isnum, r) \<Rightarrow> if isnum then (True, tokenNumber, r)
           else if special then (case match w r of (ok, r') \<Rightarrow> (ok, tokenNegInf, r'))
           else (False, tokenNegInf, r))"
  using assms suffix_order.trans [OF suffix_match [of w "snd p"]]
  by (cases p) (auto intro: leaves_suffix_tuple leaves_suffix_scan)

lemma suffix_readNumber: "suffix (snd (readNumber b s)) s"
  using suffix_Reader_readNumber [of s] suffix_tl [of s] by (simp add: readNumber_def Reader_readNumber_def)

lemma suffix_lex_case: "leaves_suffix rest (lex_case F c rest)"
  unfolding lex_case_def Let_def readString_def readStringSingleQuote_def
  by (intro leaves_suffix_if leaves_suffix_minus leaves_suffix_scan leaves_suffix_tuple suffix_order.refl suffix_readComment
      suffix_match suffix_readString_loop suffix_readNumber)

lemma suffix_readToken: "suffix (snd (readToken F s)) s" "suffix (tok_start (fst (readToken F s))) s"
proof -
  obtain c rest where g: "getNextChar (skipSpaces s) = (c, rest)" by fastforce
  have "suffix rest s" using suffix_order.trans [OF suffix_getNextChar suffix_skipSpaces, of s] g by simp
  then show "suffix (snd (readToken F s)) s"
    using suffix_lex_case [of rest F c]
    by (auto simp: readToken_def g leaves_suffix_def Let_def intro: suffix_order.trans split: prod.splits)
  show "suffix (tok_start (fst (readToken F s))) s"
    using suffix_skipSpaces [of s] by (simp add: readToken_def Let_def split: prod.splits)
qed

text \<open>A comment token begins with a slash, or with the single quote that falls through to the comment case.\<close>

lemma lex_case_comment:
  "fst (snd (lex_case F c rest)) = tokenComment \<Longrightarrow> c = CHR ''/'' \<or> c = CHR 0x27 \<and> \<not> allowSingleQuotes F"
  unfolding lex_case_def Let_def by (auto split: if_split_asm prod.split_asm)

lemma Reader_lex_case_comment: "fst (snd (Reader_lex_case c rest)) = tokenComment \<Longrightarrow> c = CHR ''/''"
  unfolding Reader_lex_case_def Let_def by (simp split: if_split_asm prod.split_asm)

lemma readToken_comment:
  assumes "tok_type (fst (readToken F s)) = tokenComment"
  obtains c rest where "skipSpaces s = c # rest" "tok_start (fst (readToken F s)) = c # rest" "length (snd (readToken F s)) \<le> length rest"
    "c = CHR ''/'' \<or> c = CHR 0x27 \<and> \<not> allowSingleQuotes F"
proof (cases "skipSpaces s")
  case Nil
  with assms show ?thesis by (simp add: readToken_def getNextChar_def lex_case_def NUL_def is_digit_def Let_def)
next
  case (Cons c rest)
  with assms have "fst (snd (lex_case F c rest)) = tokenComment"
    by (auto simp: readToken_def getNextChar_def Let_def split: prod.splits if_splits)
  from lex_case_comment [OF this] length_lex_case [of rest F c] Cons show ?thesis
    by (intro that [of c rest]) (auto simp: readToken_def getNextChar_def Let_def leaves_def split: prod.splits)
qed

lemma Reader_readToken_comment:
  assumes "tok_type (fst (Reader_readToken s)) = tokenComment"
  obtains rest where "tok_start (fst (Reader_readToken s)) = CHR ''/'' # rest" "length (snd (Reader_readToken s)) \<le> length rest"
proof (cases "skipSpaces s")
  case Nil
  with assms show ?thesis by (simp add: Reader_readToken_def getNextChar_def Reader_lex_case_def NUL_def is_digit_def Let_def)
next
  case (Cons c rest)
  with assms have "fst (snd (Reader_lex_case c rest)) = tokenComment"
    by (auto simp: Reader_readToken_def getNextChar_def Let_def split: prod.splits if_splits)
  from Reader_lex_case_comment [OF this] length_Reader_lex_case [of rest c] Cons show ?thesis
    by (intro that [of rest]) (auto simp: Reader_readToken_def getNextChar_def Let_def leaves_def split: prod.splits)
qed

definition no_quote :: "OurFeatures \<Rightarrow> string \<Rightarrow> bool" where
  "no_quote F s \<longleftrightarrow> allowSingleQuotes F \<or> CHR 0x27 \<notin> set s"

lemma no_quote_suffix: "no_quote F s \<Longrightarrow> suffix t s \<Longrightarrow> no_quote F t"
  using set_mono_suffix [of t s] by (auto simp: no_quote_def)

lemma our_comment_source:
  assumes suffix: "\<And>s t. P s \<Longrightarrow> suffix t s \<Longrightarrow> P t" and quote: "\<And>s. P s \<Longrightarrow> no_quote F s"
    and known: "\<And>s. P s \<Longrightarrow> tok_type (fst (readToken F s)) = tokenComment \<Longrightarrow>
      T (normalizeEOL (tok_start (fst (readToken F s))) (snd (readToken F s)))"
    and append: "\<And>c c'. T c \<Longrightarrow> T c' \<Longrightarrow> T (c @ c')"
  shows "comment_source (our_descent F L) P T"
proof
  fix s
  assume p: "P s"
  show "P (snd (de_readToken (our_descent F L) s))" "P (tok_start (fst (de_readToken (our_descent F L) s)))" "P (skipSpaces s)"
    using suffix_readToken [of F s] suffix_skipSpaces [of s] by (auto intro: suffix [OF p])
  assume "tok_type (fst (de_readToken (our_descent F L) s)) = tokenComment"
  then have t: "tok_type (fst (readToken F s)) = tokenComment" by simp
  obtain c rest where c: "skipSpaces s = c # rest" "tok_start (fst (readToken F s)) = c # rest"
      "c = CHR ''/'' \<or> c = CHR 0x27 \<and> \<not> allowSingleQuotes F"
    by (rule readToken_comment [OF t])
  moreover have "c \<in> set s" using set_mono_suffix [OF suffix_skipSpaces [of s]] c(1) by simp
  ultimately show "peekChar (tok_start (fst (de_readToken (our_descent F L) s))) = CHR ''/''"
    using quote [OF p] by (auto simp: no_quote_def peekChar_def)
  show "T (normalizeEOL (tok_start (fst (de_readToken (our_descent F L) s))) (snd (de_readToken (our_descent F L) s)))"
    using known [OF p t] by simp
next
  fix s
  assume "tok_type (fst (de_readToken (our_descent F L) s)) = tokenComment"
  then have t: "tok_type (fst (readToken F s)) = tokenComment" by simp
  show "length (snd (de_readToken (our_descent F L) s)) < length (tok_start (fst (de_readToken (our_descent F L) s)))"
    by (rule readToken_comment [OF t]) simp
next
  fix t name st v ok st' v'
  assume "de_checkName (our_descent F L) t name st v = Some (Some (Ret (ok, st', v')))"
  then show "rd_current st' = de_recover (our_descent F L) tokenObjectEnd (rd_current st)"
    by (auto simp: check_name_def addErrorAndRecover_def recoverFromError_def addError_def split: if_splits cxx.splits)
qed (rule append)

interpretation our_comments: comment_source "our_descent F L" "no_quote F" "\<lambda>_. True"
  by (rule our_comment_source) (auto intro: no_quote_suffix)

interpretation old_comments: comment_source "old_descent f ex" "\<lambda>_. True" "\<lambda>_. True"
proof
  fix s
  assume "tok_type (fst (de_readToken (old_descent f ex) s)) = tokenComment"
  then have t: "tok_type (fst (Reader_readToken s)) = tokenComment" by simp
  show "peekChar (tok_start (fst (de_readToken (old_descent f ex) s))) = CHR ''/''"
    "length (snd (de_readToken (old_descent f ex) s)) < length (tok_start (fst (de_readToken (old_descent f ex) s)))"
    by (rule Reader_readToken_comment [OF t], simp add: peekChar_def)+
qed simp_all

section \<open>A whole document\<close>

definition collected :: "(string \<Rightarrow> bool) \<Rightarrow> bool \<Rightarrow> nat \<Rightarrow> collect_parse \<Rightarrow> (bool \<times> ErrorInfo list \<times> Value) cxx option \<Rightarrow> bool" where
  "collected T dropped n rc r = (case rc of
       Some (Ret (ok, errors, v, notes)) \<Rightarrow> r = Some (Ret (ok, errors, v)) \<and> (\<forall>p. note_ok T dropped n (notes p))
     | Some (Throw e) \<Rightarrow> r = Some (Throw e)
     | Some Terminate \<Rightarrow> r = Some Terminate
     | None \<Rightarrow> r = None)"

lemma collected_simps [simp]:
  "collected T d n (Some (Ret (ok, errors, v, notes))) r \<longleftrightarrow> r = Some (Ret (ok, errors, v)) \<and> (\<forall>p. note_ok T d n (notes p))"
  "collected T d n (Some (Throw e)) r \<longleftrightarrow> r = Some (Throw e)" "collected T d n (Some Terminate) r \<longleftrightarrow> r = Some Terminate"
  "collected T d n None r \<longleftrightarrow> r = None"
  by (simp_all add: collected_def)

lemma collected_obind:
  assumes "follows P (co_ok T d n) rc r"
    and "\<And>ok st co v. co_ok T d n co \<Longrightarrow> P (rd_current st) \<Longrightarrow> collected T d m (f (ok, st, co, v)) (g (ok, st, v))"
  shows "collected T d m (obind rc f) (obind r g)"
proof (cases rc)
  case None
  with assms(1) show ?thesis by simp
next
  case (Some m)
  show ?thesis
  proof (cases m)
    case (Ret x)
    obtain ok st co v where "x = (ok, st, co, v)" by (cases x)
    with assms Some Ret show ?thesis by simp
  qed (use assms(1) Some in simp_all)
qed

lemma new_Collector_ok: "\<forall>p. note_ok T d (length doc) (notes p) \<Longrightarrow> co_ok T d (length doc) (new_Collector b doc notes)"
  by (simp add: co_ok_def new_Collector_def)

lemma co_ok_notes: "co_ok T d n co \<Longrightarrow> note_ok T d n (co_notes co p)"
  by (simp add: co_ok_def)

text \<open>For any \<open>P\<close> and \<open>T\<close> that fit the lexer.\<close>

lemma OurReader_collects:
  assumes "comment_source (our_descent F L) P T" and "P doc"
    and "\<forall>p. note_ok T (allowDroppedNullPlaceholders F) (length doc) (notes p)"
  shows "collected T (allowDroppedNullPlaceholders F) (length doc) (OurReader_parse_collect F L b doc v0 notes) (OurReader_parse F L doc v0)"
  unfolding OurReader_parse_collect_def OurReader_parse_def Let_def readValue_is_descent
proof (rule collected_obind [where P = P and n = "length doc" and T = T], goal_cases start finish)
  case start
  show ?case
    using comment_source.collecting_follows(1) [OF assms(1), where st = "OurReader_init doc" and n = "length doc"]
      new_Collector_ok [OF assms(3)] assms(2) by (simp add: OurReader_init_def del: collect_value.simps descend_value.simps)
next
  case (finish ok st co v)
  obtain t current where tc: "skipCommentTokens F (rd_current st) = (t, current)" by fastforce
  obtain co1 where t: "collect_tokens (our_descent F L) (rd_current st) co = Some (Ret (t, current, co1))"
      "co_ok T (allowDroppedNullPlaceholders F) (length doc) co1"
    using comment_source.tokens_ok [OF assms(1), where s = "rd_current st" and n = "length doc" and co = co] finish by (auto simp: tc)
  obtain co2 where "comment_value commentAfter [] co1 = Ret co2" "co_ok T (allowDroppedNullPlaceholders F) (length doc) co2"
    using comment_value_ok [OF t(2)] by blast
  with t show ?case by (simp add: tc co_ok_notes)
qed

theorem OurReader_parse_collected:
  assumes "no_quote F doc" and "\<forall>p. note_ok (\<lambda>_. True) (allowDroppedNullPlaceholders F) (length doc) (notes p)"
  shows "collected (\<lambda>_. True) (allowDroppedNullPlaceholders F) (length doc) (OurReader_parse_collect F L b doc v0 notes) (OurReader_parse F L doc v0)"
  using OurReader_collects [OF our_comments.comment_source_axioms assms] .

theorem Reader_parse_collected:
  assumes "\<forall>p. note_ok (\<lambda>_. True) (f_allowDroppedNullPlaceholders f) (length doc) (notes p)"
  shows "collected (\<lambda>_. True) (f_allowDroppedNullPlaceholders f) (length doc) (Reader_parse_collect f ex L b doc v0 notes) (Reader_parse f ex L doc v0)"
  unfolding Reader_parse_collect_def Reader_parse_def Let_def Reader_readValue_def
proof (rule collected_obind [where P = "\<lambda>_. True" and n = "length doc"], goal_cases start finish)
  case start
  show ?case
    using old_comments.collecting_follows(1) [where st = "OurReader_init doc" and f = f and ex = ex and n = "length doc"]
      new_Collector_ok [OF assms] by (simp del: collect_value.simps descend_value.simps)
next
  case (finish ok st co v)
  obtain t current where tc: "skip_tokens (old_descent f ex) (rd_current st) = (t, current)" by fastforce
  obtain co1 where t: "collect_tokens (old_descent f ex) (rd_current st) co = Some (Ret (t, current, co1))"
      "co_ok (\<lambda>_. True) (f_allowDroppedNullPlaceholders f) (length doc) co1"
    using old_comments.tokens_ok [where s = "rd_current st" and f = f and ex = ex and n = "length doc" and co = co] finish by (auto simp: tc)
  obtain co2 where "comment_value commentAfter [] co1 = Ret co2" "co_ok (\<lambda>_. True) (f_allowDroppedNullPlaceholders f) (length doc) co2"
    using comment_value_ok [OF t(2)] by blast
  with t show ?case by (simp add: co_ok_notes)
qed

text \<open>An error pushed for values of a document that was read is accepted.\<close>

lemma pushError_accepted:
  assumes "note_ok T False n value" and "note_ok T False n extra"
  shows "fst (pushError n value message errors)" and "fst (pushError_extra n value message extra errors)"
  using assms by (simp_all add: pushError_def pushError_extra_def note_ok_def getOffsetStart_def getOffsetLimit_def)

text \<open>
  Both versions report the start of the value; only the version with a second value reports its limit, the other
  one reports it as if the value followed the document.
\<close>

lemma pushError_reports:
  assumes "note_ok T False (length doc) value" and "note_ok T False (length doc) extra"
  shows "pushError (length doc) value message errors = (True, es) \<Longrightarrow> getStructuredErrors doc es = getStructuredErrors doc errors @
      [\<lparr>offset_start = unat (getOffsetStart value), offset_limit = length doc + unat (getOffsetLimit value), se_message = message\<rparr>]"
    and "pushError_extra (length doc) value message extra errors = (True, es) \<Longrightarrow> getStructuredErrors doc es = getStructuredErrors doc errors @
      [\<lparr>offset_start = unat (getOffsetStart value), offset_limit = unat (getOffsetLimit value), se_message = message\<rparr>]"
  by (auto simp: pushError_def pushError_extra_def getStructuredErrors_def nat_add_distrib split: if_splits)

text \<open>The copy of a value has its comments and offsets, if no comment holds a NUL or is cut for its length.\<close>

lemma copy_comment_same:
  assumes "note_ok T d n other" and "\<And>c. an_comments other placement = Some c \<Longrightarrow> NUL \<notin> set c \<and> int (length c) < maxInt"
    and "an_comments a placement = None"
  shows "copy_comment placement other a = Ret (a\<lparr>an_comments := (an_comments a)(placement := an_comments other placement)\<rparr>)"
proof (cases "an_comments other placement")
  case None
  with assms(3) have "(an_comments a)(placement := an_comments other placement) = an_comments a" by auto
  then show ?thesis by (simp add: copy_comment_def None)
next
  case (Some c)
  have c: "comment_text c" "NUL \<notin> set c" "int (length c) < maxInt" using assms(1,2) Some by (simp_all add: note_ok_def stored_text_def)
  have "c_str c = c" using c(2) by (auto simp: c_str_def takeWhile_eq_all_conv NUL_def)
  moreover have "peekChar c = CHR ''/''" using c(1) by (cases c) (auto simp: peekChar_def comment_text_def)
  ultimately show ?thesis
    using c(3) by (simp add: copy_comment_def Some CommentInfo_setComment_def JSON_ASSERT_MESSAGE_def duplicateStringValue_def)
qed

lemma copy_annotation_same:
  assumes "note_ok T d n a" and "\<And>p c. an_comments a p = Some c \<Longrightarrow> NUL \<notin> set c \<and> int (length c) < maxInt"
  shows "copy_annotation a = Ret a"
proof -
  note copy = copy_comment_same [OF assms]
  have e: "(\<lambda>_. None)(commentBefore := an_comments a commentBefore, commentAfterOnSameLine := an_comments a commentAfterOnSameLine,
      commentAfter := an_comments a commentAfter) = an_comments a"
  proof
    fix p
    show "((\<lambda>_. None)(commentBefore := an_comments a commentBefore, commentAfterOnSameLine := an_comments a commentAfterOnSameLine,
      commentAfter := an_comments a commentAfter)) p = an_comments a p" by (cases p) simp_all
  qed
  show ?thesis unfolding copy_annotation_def by (simp add: copy no_annotation_def e)
qed

text \<open>
  A single quote that is followed by a slash is scanned as a comment, whose text then fails the
  test of \<^verbatim>\<open>setComment\<close>: with comments collected the reader throws where it would have read a value.
\<close>

lemma quote_comment_throws:
  "case OurReader_parse_collect default_features \<lparr>scan_lf = (\<lambda>s. None), print_g17 = (\<lambda>q. [])\<rparr> True (CHR 0x27 # ''/'' @ [CHR 0x0A] @ ''1'')
       NullV (\<lambda>_. no_annotation) of
     Some (Throw e) \<Rightarrow> e = Json_LogicError ''in Json::Value::setComment(): Comments must start with /'' | _ \<Rightarrow> False"
  "OurReader_parse default_features \<lparr>scan_lf = (\<lambda>s. None), print_g17 = (\<lambda>q. [])\<rparr> (CHR 0x27 # ''/'' @ [CHR 0x0A] @ ''1'') NullV
     = Some (Ret (True, [], IntV 1))"
  by code_simp+

end
