(* ===== verification/Json_Styled.thy ===== *)
theory Json_Styled
  imports Json_Roundtrip Json_Annotation
begin

text \<open>
  The indenting writers of jsoncpp (\<^verbatim>\<open>src/dist/jsoncpp.cpp\<close>): \<^verbatim>\<open>StyledWriter\<close>, which builds a string,
  \<^verbatim>\<open>StyledStreamWriter\<close> and \<^verbatim>\<open>BuiltStyledStreamWriter\<close>, which write to a stream (here: the text written
  so far), and \<^verbatim>\<open>StreamWriterBuilder\<close>. They write a value together with the comments of its tree, a \<open>Node\<close>.
  That the reader inverts all three is shown in \<open>Json_Styled_Roundtrip\<close>.
\<close>

section \<open>valueToQuotedString\<close>

fun containsControlCharacter :: "string \<Rightarrow> bool" where
  "containsControlCharacter [] = False"
| "containsControlCharacter (c # s) = (if isControlCharacter c then True else containsControlCharacter s)"

definition escape_cchar :: "char \<Rightarrow> string" where
  "escape_cchar c =
     (if c = CHR 0x22 then [CHR 0x5C, CHR 0x22]
      else if c = CHR 0x5C then [CHR 0x5C, CHR 0x5C]
      else if c = CHR 0x08 then [CHR 0x5C, CHR ''b'']
      else if c = CHR 0x0C then [CHR 0x5C, CHR ''f'']
      else if c = CHR 0x0A then [CHR 0x5C, CHR ''n'']
      else if c = CHR 0x0D then [CHR 0x5C, CHR ''r'']
      else if c = CHR 0x09 then [CHR 0x5C, CHR ''t'']
      else if isControlCharacter c then [CHR 0x5C, CHR ''u''] @ padded_hex (of_char c)
      else [c])"

fun quote_loop :: "string \<Rightarrow> string \<Rightarrow> string" where
  "quote_loop [] result = result"
| "quote_loop (c # s) result = (if c = NUL then result else quote_loop s (result @ escape_cchar c))"

definition valueToQuotedString :: "string \<Rightarrow> string" where
  "valueToQuotedString value =
     (if \<not> list_ex (\<lambda>c. c \<in> set quote_specials) (c_str value) \<and> \<not> containsControlCharacter (c_str value)
      then [CHR 0x22] @ c_str value @ [CHR 0x22]
      else quote_loop value [CHR 0x22] @ [CHR 0x22])"

section \<open>Loops the writers share\<close>

text \<open>
  The \<^verbatim>\<open>for (;;)\<close> over elements or members, with \<open>comma\<close> between one and the next, and the comment
  behind a value written after its comma.
\<close>

fun each_line :: "('s \<Rightarrow> 's) \<Rightarrow> ('a \<Rightarrow> 's \<Rightarrow> 's) \<Rightarrow> ('a \<Rightarrow> 's \<Rightarrow> 's) \<Rightarrow> 'a list \<Rightarrow> 's \<Rightarrow> 's" where
  "each_line comma after f [] s = s"
| "each_line comma after f [x] s = after x (f x s)"
| "each_line comma after f (x # y # ys) s = each_line comma after f (y # ys) (after x (comma (f x s)))"

text \<open>
  The loop of \<^verbatim>\<open>writeCommentBeforeValue\<close> over the bytes of a comment. At the last byte \<^verbatim>\<open>*(iter + 1)\<close> is
  the terminator of the string.
\<close>

fun write_comment :: "(string \<Rightarrow> 's \<Rightarrow> 's) \<Rightarrow> ('s \<Rightarrow> 's) \<Rightarrow> string \<Rightarrow> 's \<Rightarrow> 's" where
  "write_comment put indent [] s = s"
| "write_comment put indent (c # cs) s =
     (let s' = put [c] s
      in write_comment put indent cs (if c = CHR 0x0A \<and> peekChar cs = CHR ''/'' then indent s' else s'))"

fun join :: "string \<Rightarrow> string list \<Rightarrow> string" where
  "join comma [] = []"
| "join comma [s] = s"
| "join comma (s # t # ss) = s @ comma @ join comma (t # ss)"

definition child_at :: "string list \<Rightarrow> nat \<Rightarrow> string" where
  "child_at childValues index = (if index < length childValues then childValues ! index else [])"

text \<open>The loop of \<^verbatim>\<open>isMultineArray\<close> that writes the elements to \<^verbatim>\<open>childValues_\<close> and adds up their lengths.\<close>

fun measure_children ::
  "(Node \<Rightarrow> 's \<Rightarrow> 's) \<Rightarrow> ('s \<Rightarrow> string list) \<Rightarrow> nat \<Rightarrow> Node list \<Rightarrow> nat \<Rightarrow> 's \<Rightarrow> nat \<times> 's" where
  "measure_children write childValues index [] lineLength s = (lineLength, s)"
| "measure_children write childValues index (v # vs) lineLength s =
     (let s' = write v s in
      measure_children write childValues (Suc index) vs
        (lineLength + length (child_at (childValues s') index)) s')"

definition nonempty_container :: "Value \<Rightarrow> bool" where
  "nonempty_container v \<longleftrightarrow> (isArray v \<or> isObject v) \<and> json_size v > 0"

definition array_nodes :: "Notes \<Rightarrow> (nat \<times> Value) list \<Rightarrow> Node list" where
  "array_nodes N m = map (element_node N m) [0..<json_size (ArrayV m)]"

definition rightMargin :: nat where "rightMargin = 74"

lemma each_line_cong [fundef_cong]:
  assumes "\<And>x s. x \<in> set ys \<Longrightarrow> f x s = g x s" and "xs = ys" and "s = t" and "c = d" and "a = b"
  shows "each_line c a f xs s = each_line d b g ys t"
proof -
  have "(\<And>x s. x \<in> set ys \<Longrightarrow> f x s = g x s) \<Longrightarrow> each_line d b f ys t = each_line d b g ys t"
    by (induction d b f ys t rule: each_line.induct) auto
  with assms show ?thesis by simp
qed

lemma measure_children_cong [fundef_cong]:
  assumes "\<And>x s. x \<in> set ys \<Longrightarrow> f x s = g x s" and "xs = ys" and "s = t" and "c = d" and "i = j" and "n = m"
  shows "measure_children f c i xs n s = measure_children g d j ys m t"
proof -
  have "(\<And>x s. x \<in> set ys \<Longrightarrow> f x s = g x s) \<Longrightarrow> measure_children f d j ys m t = measure_children g d j ys m t"
    by (induction ys arbitrary: j m t) (auto simp: Let_def)
  with assms show ?thesis by simp
qed

lemma enumerate_mem: "e \<in> set (enumerate n xs) \<Longrightarrow> snd e \<in> set xs"
  using nth_mem [of "fst e - n" xs] by (fastforce simp: in_set_enumerate_eq)

lemma snd_element_node: "snd (element_node N m index) = entry_or_null index m"
  by (simp add: element_node_def entry_or_null_def bare_def split: option.split)

lemma snd_member_node: "snd (member_node N m name) = entry_or_null (CZString name) m"
  by (simp add: member_node_def entry_or_null_def bare_def split: option.split)

lemma array_nodes_size: "node \<in> set (array_nodes N m) \<Longrightarrow> size (snd node) < Suc (size_list (size_prod (\<lambda>k. 0) size) m)"
  by (auto simp: array_nodes_def snd_element_node entry_or_null_size)

lemma member_node_size: "size (snd (member_node N m name)) < Suc (size_list (size_prod (\<lambda>k. 0) size) m)"
  by (simp add: snd_member_node entry_or_null_size)

section \<open>StyledWriter\<close>

record StyledWriter =
  sw_childValues :: "string list"
  sw_document :: string
  sw_indentString :: string
  sw_addChildValues :: bool

definition indentSize :: nat where "indentSize = 3"

definition new_StyledWriter :: StyledWriter where
  "new_StyledWriter = \<lparr>sw_childValues = [], sw_document = [], sw_indentString = [], sw_addChildValues = False\<rparr>"

definition sw_put :: "string \<Rightarrow> StyledWriter \<Rightarrow> StyledWriter" where
  "sw_put t w = w\<lparr>sw_document := sw_document w @ t\<rparr>"

definition StyledWriter_pushValue :: "string \<Rightarrow> StyledWriter \<Rightarrow> StyledWriter" where
  "StyledWriter_pushValue value w =
     (if sw_addChildValues w then w\<lparr>sw_childValues := sw_childValues w @ [value]\<rparr> else sw_put value w)"

definition StyledWriter_writeIndent :: "StyledWriter \<Rightarrow> StyledWriter" where
  "StyledWriter_writeIndent w =
     (if sw_document w \<noteq> [] then
        (let last_char = last (sw_document w) in
         if last_char = CHR '' '' then w
         else sw_put (sw_indentString w) (if last_char \<noteq> CHR 0x0A then sw_put [CHR 0x0A] w else w))
      else sw_put (sw_indentString w) w)"

definition StyledWriter_writeWithIndent :: "string \<Rightarrow> StyledWriter \<Rightarrow> StyledWriter" where
  "StyledWriter_writeWithIndent value w = sw_put value (StyledWriter_writeIndent w)"

definition StyledWriter_indent :: "StyledWriter \<Rightarrow> StyledWriter" where
  "StyledWriter_indent w = w\<lparr>sw_indentString := sw_indentString w @ replicate indentSize (CHR '' '')\<rparr>"

definition StyledWriter_unindent :: "StyledWriter \<Rightarrow> StyledWriter" where
  "StyledWriter_unindent w = w\<lparr>sw_indentString := take (length (sw_indentString w) - indentSize) (sw_indentString w)\<rparr>"

definition StyledWriter_writeCommentBeforeValue :: "Node \<Rightarrow> StyledWriter \<Rightarrow> StyledWriter" where
  "StyledWriter_writeCommentBeforeValue value w =
     (if \<not> hasComment commentBefore (own_note value) then w
      else
        let w1 = StyledWriter_writeIndent (sw_put [CHR 0x0A] w);
            w2 = write_comment sw_put StyledWriter_writeIndent (getComment commentBefore (own_note value)) w1
        in sw_put [CHR 0x0A] w2)"

definition StyledWriter_writeCommentAfterValueOnSameLine :: "Node \<Rightarrow> StyledWriter \<Rightarrow> StyledWriter" where
  "StyledWriter_writeCommentAfterValueOnSameLine value w =
     (let w1 = (if hasComment commentAfterOnSameLine (own_note value)
                then sw_put ('' '' @ getComment commentAfterOnSameLine (own_note value)) w else w)
      in if hasComment commentAfter (own_note value)
         then sw_put [CHR 0x0A] (sw_put (getComment commentAfter (own_note value)) (sw_put [CHR 0x0A] w1))
         else w1)"

definition StyledWriter_hasCommentForValue :: "Node \<Rightarrow> bool" where
  "StyledWriter_hasCommentForValue value \<longleftrightarrow> hasComment commentBefore (own_note value) \<or>
     hasComment commentAfterOnSameLine (own_note value) \<or> hasComment commentAfter (own_note value)"

definition StyledWriter_isMultineArray ::
  "(Node \<Rightarrow> StyledWriter \<Rightarrow> StyledWriter) \<Rightarrow> Node list \<Rightarrow> StyledWriter \<Rightarrow> bool \<times> StyledWriter" where
  "StyledWriter_isMultineArray write values w =
     (let size = length values;
          w1 = w\<lparr>sw_childValues := []\<rparr>
      in if size * 3 \<ge> rightMargin \<or> list_ex (\<lambda>value. nonempty_container (snd value)) values then (True, w1)
         else
           let (lineLength, w2) = measure_children write sw_childValues 0 values (4 + (size - 1) * 2)
                 (w1\<lparr>sw_addChildValues := True\<rparr>)
           in (list_ex StyledWriter_hasCommentForValue values \<or> lineLength \<ge> rightMargin,
               w2\<lparr>sw_addChildValues := False\<rparr>))"

text \<open>One element of an array on a line of its own: from \<^verbatim>\<open>childValues_\<close>, or written now.\<close>

definition sw_line ::
  "(Node \<Rightarrow> StyledWriter \<Rightarrow> StyledWriter) \<Rightarrow> bool \<Rightarrow> nat \<times> Node \<Rightarrow> StyledWriter \<Rightarrow> StyledWriter" where
  "sw_line write hasChildValue e w0 =
     (let w = StyledWriter_writeCommentBeforeValue (snd e) w0 in
      if hasChildValue then StyledWriter_writeWithIndent (child_at (sw_childValues w) (fst e)) w
      else write (snd e) (StyledWriter_writeIndent w))"

definition StyledWriter_writeArrayValue ::
  "(Node \<Rightarrow> StyledWriter \<Rightarrow> StyledWriter) \<Rightarrow> Node list \<Rightarrow> StyledWriter \<Rightarrow> StyledWriter" where
  "StyledWriter_writeArrayValue write values w =
     (if length values = 0 then StyledWriter_pushValue ''[]'' w
      else
        let (isArrayMultiLine, w1) = StyledWriter_isMultineArray write values w in
        if isArrayMultiLine then
          (let w2 = StyledWriter_indent (StyledWriter_writeWithIndent ''['' w1);
               hasChildValue = (sw_childValues w2 \<noteq> []);
               w3 = each_line (sw_put '','') (\<lambda>e. StyledWriter_writeCommentAfterValueOnSameLine (snd e)) (sw_line write hasChildValue)
                 (enumerate 0 values) w2
           in StyledWriter_writeWithIndent '']'' (StyledWriter_unindent w3))
        else
          sw_put '' ]'' (sw_put (join '', '' (map (child_at (sw_childValues w1)) [0..<length values])) (sw_put ''[ '' w1)))"

lemma StyledWriter_writeArrayValue_cong [fundef_cong]:
  assumes "\<And>x s. x \<in> set ys \<Longrightarrow> f x s = g x s" and "xs = ys" and "w = w'"
  shows "StyledWriter_writeArrayValue f xs w = StyledWriter_writeArrayValue g ys w'"
proof -
  have "measure_children f c i ys n s = measure_children g c i ys n s" for c i n and s :: StyledWriter
    by (rule measure_children_cong) (simp_all add: assms(1))
  then have m: "StyledWriter_isMultineArray f ys w' = StyledWriter_isMultineArray g ys w'"
    by (simp add: StyledWriter_isMultineArray_def Let_def)
  have "each_line c a (sw_line f h) (enumerate 0 ys) w2 = each_line c a (sw_line g h) (enumerate 0 ys) w2" for c a h w2
    by (rule each_line_cong) (simp_all add: assms(1) enumerate_mem sw_line_def Let_def)
  then show ?thesis unfolding StyledWriter_writeArrayValue_def assms(2,3) m by (simp add: Let_def split: prod.split)
qed

function (sequential) StyledWriter_writeValue :: "libc \<Rightarrow> Node \<Rightarrow> StyledWriter \<Rightarrow> StyledWriter" where
  "StyledWriter_writeValue L (N, NullV) w = StyledWriter_pushValue ''null'' w"
| "StyledWriter_writeValue L (N, IntV i) w = StyledWriter_pushValue (valueToString_int i) w"
| "StyledWriter_writeValue L (N, UIntV u) w = StyledWriter_pushValue (valueToString_uint u) w"
| "StyledWriter_writeValue L (N, RealV d) w = StyledWriter_pushValue (valueToString_double L d False) w"
| "StyledWriter_writeValue L (N, StringV s) w = StyledWriter_pushValue (valueToQuotedStringN s) w"
| "StyledWriter_writeValue L (N, BoolV b) w = StyledWriter_pushValue (valueToString_bool b) w"
| "StyledWriter_writeValue L (N, ArrayV m) w = StyledWriter_writeArrayValue (StyledWriter_writeValue L) (array_nodes N m) w"
| "StyledWriter_writeValue L (N, ObjectV m) w =
     (if map_keys m = [] then StyledWriter_pushValue ''{}'' w
      else
        let w1 = StyledWriter_indent (StyledWriter_writeWithIndent ''{'' w);
            w2 = each_line (sw_put '','') (\<lambda>name. StyledWriter_writeCommentAfterValueOnSameLine (member_node N m name))
              (\<lambda>name w. StyledWriter_writeValue L (member_node N m name)
                 (sw_put '' : '' (StyledWriter_writeWithIndent (valueToQuotedString name)
                   (StyledWriter_writeCommentBeforeValue (member_node N m name) w))))
              (map_keys m) w1
        in StyledWriter_writeWithIndent ''}'' (StyledWriter_unindent w2))"
  by pat_completeness auto
termination
  by (relation "measure (\<lambda>(L, v, w). size (snd v))") (auto simp: member_node_size array_nodes_size)

definition StyledWriter_write :: "libc \<Rightarrow> Node \<Rightarrow> StyledWriter \<Rightarrow> string" where
  "StyledWriter_write L value w =
     (let w1 = StyledWriter_writeCommentBeforeValue value
            (w\<lparr>sw_document := [], sw_addChildValues := False, sw_indentString := []\<rparr>);
          w2 = StyledWriter_writeCommentAfterValueOnSameLine value (StyledWriter_writeValue L value w1)
      in sw_document (sw_put [CHR 0x0A] w2))"

definition toStyledString :: "libc \<Rightarrow> Node \<Rightarrow> string" where
  "toStyledString L value = StyledWriter_write L value new_StyledWriter"

section \<open>StyledStreamWriter\<close>

record StyledStreamWriter =
  ss_childValues :: "string list"
  ss_document :: string
  ss_indentString :: string
  ss_indentation :: string
  ss_addChildValues :: bool
  ss_indented :: bool

definition new_StyledStreamWriter :: "string \<Rightarrow> StyledStreamWriter" where
  "new_StyledStreamWriter indentation = \<lparr>ss_childValues = [], ss_document = [], ss_indentString = [],
     ss_indentation = indentation, ss_addChildValues = False, ss_indented = False\<rparr>"

definition ss_put :: "string \<Rightarrow> StyledStreamWriter \<Rightarrow> StyledStreamWriter" where
  "ss_put t w = w\<lparr>ss_document := ss_document w @ t\<rparr>"

definition StyledStreamWriter_pushValue :: "string \<Rightarrow> StyledStreamWriter \<Rightarrow> StyledStreamWriter" where
  "StyledStreamWriter_pushValue value w =
     (if ss_addChildValues w then w\<lparr>ss_childValues := ss_childValues w @ [value]\<rparr> else ss_put value w)"

definition StyledStreamWriter_writeIndent :: "StyledStreamWriter \<Rightarrow> StyledStreamWriter" where
  "StyledStreamWriter_writeIndent w = ss_put ([CHR 0x0A] @ ss_indentString w) w"

definition StyledStreamWriter_writeWithIndent :: "string \<Rightarrow> StyledStreamWriter \<Rightarrow> StyledStreamWriter" where
  "StyledStreamWriter_writeWithIndent value w =
     (ss_put value (if \<not> ss_indented w then StyledStreamWriter_writeIndent w else w))\<lparr>ss_indented := False\<rparr>"

definition StyledStreamWriter_indent :: "StyledStreamWriter \<Rightarrow> StyledStreamWriter" where
  "StyledStreamWriter_indent w = w\<lparr>ss_indentString := ss_indentString w @ ss_indentation w\<rparr>"

definition StyledStreamWriter_unindent :: "StyledStreamWriter \<Rightarrow> StyledStreamWriter" where
  "StyledStreamWriter_unindent w =
     w\<lparr>ss_indentString := take (length (ss_indentString w) - length (ss_indentation w)) (ss_indentString w)\<rparr>"

definition StyledStreamWriter_writeCommentBeforeValue :: "Node \<Rightarrow> StyledStreamWriter \<Rightarrow> StyledStreamWriter" where
  "StyledStreamWriter_writeCommentBeforeValue value w =
     (if \<not> hasComment commentBefore (own_note value) then w
      else
        let w1 = (if \<not> ss_indented w then StyledStreamWriter_writeIndent w else w)
        in (write_comment ss_put (\<lambda>w. ss_put (ss_indentString w) w) (getComment commentBefore (own_note value)) w1)
             \<lparr>ss_indented := False\<rparr>)"

definition StyledStreamWriter_writeCommentAfterValueOnSameLine :: "Node \<Rightarrow> StyledStreamWriter \<Rightarrow> StyledStreamWriter" where
  "StyledStreamWriter_writeCommentAfterValueOnSameLine value w =
     (let w1 = (if hasComment commentAfterOnSameLine (own_note value)
                then ss_put ('' '' @ getComment commentAfterOnSameLine (own_note value)) w else w)
      in (if hasComment commentAfter (own_note value)
          then ss_put (getComment commentAfter (own_note value)) (StyledStreamWriter_writeIndent w1) else w1)\<lparr>ss_indented := False\<rparr>)"

definition StyledStreamWriter_hasCommentForValue :: "Node \<Rightarrow> bool" where
  "StyledStreamWriter_hasCommentForValue value \<longleftrightarrow> hasComment commentBefore (own_note value) \<or>
     hasComment commentAfterOnSameLine (own_note value) \<or> hasComment commentAfter (own_note value)"

definition StyledStreamWriter_isMultineArray ::
  "(Node \<Rightarrow> StyledStreamWriter \<Rightarrow> StyledStreamWriter) \<Rightarrow> Node list \<Rightarrow> StyledStreamWriter \<Rightarrow> bool \<times> StyledStreamWriter" where
  "StyledStreamWriter_isMultineArray write values w =
     (let size = length values;
          w1 = w\<lparr>ss_childValues := []\<rparr>
      in if size * 3 \<ge> rightMargin \<or> list_ex (\<lambda>value. nonempty_container (snd value)) values then (True, w1)
         else
           let (lineLength, w2) = measure_children write ss_childValues 0 values (4 + (size - 1) * 2)
                 (w1\<lparr>ss_addChildValues := True\<rparr>)
           in (list_ex StyledStreamWriter_hasCommentForValue values \<or> lineLength \<ge> rightMargin,
               w2\<lparr>ss_addChildValues := False\<rparr>))"

definition ss_line ::
  "(Node \<Rightarrow> StyledStreamWriter \<Rightarrow> StyledStreamWriter) \<Rightarrow> bool \<Rightarrow> nat \<times> Node \<Rightarrow> StyledStreamWriter \<Rightarrow> StyledStreamWriter" where
  "ss_line write hasChildValue e w0 =
     (let w = StyledStreamWriter_writeCommentBeforeValue (snd e) w0 in
      if hasChildValue then StyledStreamWriter_writeWithIndent (child_at (ss_childValues w) (fst e)) w
      else
        (write (snd e) ((if \<not> ss_indented w then StyledStreamWriter_writeIndent w else w)\<lparr>ss_indented := True\<rparr>))
          \<lparr>ss_indented := False\<rparr>)"

definition StyledStreamWriter_writeArrayValue ::
  "(Node \<Rightarrow> StyledStreamWriter \<Rightarrow> StyledStreamWriter) \<Rightarrow> Node list \<Rightarrow> StyledStreamWriter \<Rightarrow> StyledStreamWriter" where
  "StyledStreamWriter_writeArrayValue write values w =
     (if length values = 0 then StyledStreamWriter_pushValue ''[]'' w
      else
        let (isArrayMultiLine, w1) = StyledStreamWriter_isMultineArray write values w in
        if isArrayMultiLine then
          (let w2 = StyledStreamWriter_indent (StyledStreamWriter_writeWithIndent ''['' w1);
               hasChildValue = (ss_childValues w2 \<noteq> []);
               w3 = each_line (ss_put '','') (\<lambda>e. StyledStreamWriter_writeCommentAfterValueOnSameLine (snd e)) (ss_line write hasChildValue)
                 (enumerate 0 values) w2
           in StyledStreamWriter_writeWithIndent '']'' (StyledStreamWriter_unindent w3))
        else
          ss_put '' ]'' (ss_put (join '', '' (map (child_at (ss_childValues w1)) [0..<length values])) (ss_put ''[ '' w1)))"

lemma StyledStreamWriter_writeArrayValue_cong [fundef_cong]:
  assumes "\<And>x s. x \<in> set ys \<Longrightarrow> f x s = g x s" and "xs = ys" and "w = w'"
  shows "StyledStreamWriter_writeArrayValue f xs w = StyledStreamWriter_writeArrayValue g ys w'"
proof -
  have "measure_children f c i ys n s = measure_children g c i ys n s" for c i n and s :: StyledStreamWriter
    by (rule measure_children_cong) (simp_all add: assms(1))
  then have m: "StyledStreamWriter_isMultineArray f ys w' = StyledStreamWriter_isMultineArray g ys w'"
    by (simp add: StyledStreamWriter_isMultineArray_def Let_def)
  have "each_line c a (ss_line f h) (enumerate 0 ys) w2 = each_line c a (ss_line g h) (enumerate 0 ys) w2" for c a h w2
    by (rule each_line_cong) (simp_all add: assms(1) enumerate_mem ss_line_def Let_def)
  then show ?thesis unfolding StyledStreamWriter_writeArrayValue_def assms(2,3) m by (simp add: Let_def split: prod.split)
qed

function (sequential) StyledStreamWriter_writeValue :: "libc \<Rightarrow> Node \<Rightarrow> StyledStreamWriter \<Rightarrow> StyledStreamWriter" where
  "StyledStreamWriter_writeValue L (N, NullV) w = StyledStreamWriter_pushValue ''null'' w"
| "StyledStreamWriter_writeValue L (N, IntV i) w = StyledStreamWriter_pushValue (valueToString_int i) w"
| "StyledStreamWriter_writeValue L (N, UIntV u) w = StyledStreamWriter_pushValue (valueToString_uint u) w"
| "StyledStreamWriter_writeValue L (N, RealV d) w = StyledStreamWriter_pushValue (valueToString_double L d False) w"
| "StyledStreamWriter_writeValue L (N, StringV s) w = StyledStreamWriter_pushValue (valueToQuotedStringN s) w"
| "StyledStreamWriter_writeValue L (N, BoolV b) w = StyledStreamWriter_pushValue (valueToString_bool b) w"
| "StyledStreamWriter_writeValue L (N, ArrayV m) w =
     StyledStreamWriter_writeArrayValue (StyledStreamWriter_writeValue L) (array_nodes N m) w"
| "StyledStreamWriter_writeValue L (N, ObjectV m) w =
     (if map_keys m = [] then StyledStreamWriter_pushValue ''{}'' w
      else
        let w1 = StyledStreamWriter_indent (StyledStreamWriter_writeWithIndent ''{'' w);
            w2 = each_line (ss_put '','') (\<lambda>name. StyledStreamWriter_writeCommentAfterValueOnSameLine (member_node N m name))
              (\<lambda>name w. StyledStreamWriter_writeValue L (member_node N m name)
                 (ss_put '' : '' (StyledStreamWriter_writeWithIndent (valueToQuotedString name)
                   (StyledStreamWriter_writeCommentBeforeValue (member_node N m name) w))))
              (map_keys m) w1
        in StyledStreamWriter_writeWithIndent ''}'' (StyledStreamWriter_unindent w2))"
  by pat_completeness auto
termination
  by (relation "measure (\<lambda>(L, v, w). size (snd v))") (auto simp: member_node_size array_nodes_size)

text \<open>The text that \<^verbatim>\<open>write\<close> sends to the stream it is given.\<close>

definition StyledStreamWriter_write :: "libc \<Rightarrow> Node \<Rightarrow> StyledStreamWriter \<Rightarrow> string" where
  "StyledStreamWriter_write L value w =
     (let w1 = StyledStreamWriter_writeCommentBeforeValue value
            (w\<lparr>ss_document := [], ss_addChildValues := False, ss_indentString := [], ss_indented := True\<rparr>);
          w2 = (if \<not> ss_indented w1 then StyledStreamWriter_writeIndent w1 else w1)\<lparr>ss_indented := True\<rparr>;
          w3 = StyledStreamWriter_writeCommentAfterValueOnSameLine value (StyledStreamWriter_writeValue L value w2)
      in ss_document (ss_put [CHR 0x0A] w3))"

section \<open>BuiltStyledStreamWriter\<close>

datatype CommentStyle = CS_None | CS_Most | CS_All

record BuiltStyledStreamWriter =
  bs_childValues :: "string list"
  bs_sout :: string
  bs_indentString :: string
  bs_indentation :: string
  bs_cs :: CommentStyle
  bs_colonSymbol :: string
  bs_nullSymbol :: string
  bs_endingLineFeedSymbol :: string
  bs_addChildValues :: bool
  bs_indented :: bool
  bs_useSpecialFloats :: bool

definition new_BuiltStyledStreamWriter ::
  "string \<Rightarrow> CommentStyle \<Rightarrow> string \<Rightarrow> string \<Rightarrow> string \<Rightarrow> bool \<Rightarrow> BuiltStyledStreamWriter" where
  "new_BuiltStyledStreamWriter indentation cs colonSymbol nullSymbol endingLineFeedSymbol useSpecialFloats =
     \<lparr>bs_childValues = [], bs_sout = [], bs_indentString = [], bs_indentation = indentation, bs_cs = cs,
      bs_colonSymbol = colonSymbol, bs_nullSymbol = nullSymbol, bs_endingLineFeedSymbol = endingLineFeedSymbol,
      bs_addChildValues = False, bs_indented = False, bs_useSpecialFloats = useSpecialFloats\<rparr>"

definition bs_put :: "string \<Rightarrow> BuiltStyledStreamWriter \<Rightarrow> BuiltStyledStreamWriter" where
  "bs_put t w = w\<lparr>bs_sout := bs_sout w @ t\<rparr>"

definition BuiltStyledStreamWriter_pushValue :: "string \<Rightarrow> BuiltStyledStreamWriter \<Rightarrow> BuiltStyledStreamWriter" where
  "BuiltStyledStreamWriter_pushValue value w =
     (if bs_addChildValues w then w\<lparr>bs_childValues := bs_childValues w @ [value]\<rparr> else bs_put value w)"

definition BuiltStyledStreamWriter_writeIndent :: "BuiltStyledStreamWriter \<Rightarrow> BuiltStyledStreamWriter" where
  "BuiltStyledStreamWriter_writeIndent w =
     (if bs_indentation w \<noteq> [] then bs_put ([CHR 0x0A] @ bs_indentString w) w else w)"

definition BuiltStyledStreamWriter_writeWithIndent :: "string \<Rightarrow> BuiltStyledStreamWriter \<Rightarrow> BuiltStyledStreamWriter" where
  "BuiltStyledStreamWriter_writeWithIndent value w =
     (bs_put value (if \<not> bs_indented w then BuiltStyledStreamWriter_writeIndent w else w))\<lparr>bs_indented := False\<rparr>"

definition BuiltStyledStreamWriter_indent :: "BuiltStyledStreamWriter \<Rightarrow> BuiltStyledStreamWriter" where
  "BuiltStyledStreamWriter_indent w = w\<lparr>bs_indentString := bs_indentString w @ bs_indentation w\<rparr>"

definition BuiltStyledStreamWriter_unindent :: "BuiltStyledStreamWriter \<Rightarrow> BuiltStyledStreamWriter" where
  "BuiltStyledStreamWriter_unindent w =
     w\<lparr>bs_indentString := take (length (bs_indentString w) - length (bs_indentation w)) (bs_indentString w)\<rparr>"

definition BuiltStyledStreamWriter_writeCommentBeforeValue :: "Node \<Rightarrow> BuiltStyledStreamWriter \<Rightarrow> BuiltStyledStreamWriter" where
  "BuiltStyledStreamWriter_writeCommentBeforeValue value w =
     (if bs_cs w = CS_None then w
      else if \<not> hasComment commentBefore (own_note value) then w
      else
        let w1 = (if \<not> bs_indented w then BuiltStyledStreamWriter_writeIndent w else w)
        in (write_comment bs_put (\<lambda>w. bs_put (bs_indentString w) w) (getComment commentBefore (own_note value)) w1)
             \<lparr>bs_indented := False\<rparr>)"

definition BuiltStyledStreamWriter_writeCommentAfterValueOnSameLine :: "Node \<Rightarrow> BuiltStyledStreamWriter \<Rightarrow> BuiltStyledStreamWriter" where
  "BuiltStyledStreamWriter_writeCommentAfterValueOnSameLine value w =
     (if bs_cs w = CS_None then w
      else let w1 = (if hasComment commentAfterOnSameLine (own_note value)
                then bs_put ('' '' @ getComment commentAfterOnSameLine (own_note value)) w else w)
      in (if hasComment commentAfter (own_note value)
          then bs_put (getComment commentAfter (own_note value)) (BuiltStyledStreamWriter_writeIndent w1) else w1))"

definition BuiltStyledStreamWriter_hasCommentForValue :: "Node \<Rightarrow> bool" where
  "BuiltStyledStreamWriter_hasCommentForValue value \<longleftrightarrow> hasComment commentBefore (own_note value) \<or>
     hasComment commentAfterOnSameLine (own_note value) \<or> hasComment commentAfter (own_note value)"

definition BuiltStyledStreamWriter_isMultineArray ::
  "(Node \<Rightarrow> BuiltStyledStreamWriter \<Rightarrow> BuiltStyledStreamWriter) \<Rightarrow> Node list \<Rightarrow> BuiltStyledStreamWriter \<Rightarrow>
   bool \<times> BuiltStyledStreamWriter" where
  "BuiltStyledStreamWriter_isMultineArray write values w =
     (let size = length values;
          w1 = w\<lparr>bs_childValues := []\<rparr>
      in if size * 3 \<ge> rightMargin \<or> list_ex (\<lambda>value. nonempty_container (snd value)) values then (True, w1)
         else
           let (lineLength, w2) = measure_children write bs_childValues 0 values (4 + (size - 1) * 2)
                 (w1\<lparr>bs_addChildValues := True\<rparr>)
           in (list_ex BuiltStyledStreamWriter_hasCommentForValue values \<or> lineLength \<ge> rightMargin,
               w2\<lparr>bs_addChildValues := False\<rparr>))"

definition bs_line ::
  "(Node \<Rightarrow> BuiltStyledStreamWriter \<Rightarrow> BuiltStyledStreamWriter) \<Rightarrow> bool \<Rightarrow> nat \<times> Node \<Rightarrow> BuiltStyledStreamWriter \<Rightarrow> BuiltStyledStreamWriter" where
  "bs_line write hasChildValue e w0 =
     (let w = BuiltStyledStreamWriter_writeCommentBeforeValue (snd e) w0 in
      if hasChildValue then BuiltStyledStreamWriter_writeWithIndent (child_at (bs_childValues w) (fst e)) w
      else
        (write (snd e) ((if \<not> bs_indented w then BuiltStyledStreamWriter_writeIndent w else w)\<lparr>bs_indented := True\<rparr>))
          \<lparr>bs_indented := False\<rparr>)"

definition BuiltStyledStreamWriter_writeArrayValue ::
  "(Node \<Rightarrow> BuiltStyledStreamWriter \<Rightarrow> BuiltStyledStreamWriter) \<Rightarrow> Node list \<Rightarrow> BuiltStyledStreamWriter \<Rightarrow> BuiltStyledStreamWriter" where
  "BuiltStyledStreamWriter_writeArrayValue write values w =
     (if length values = 0 then BuiltStyledStreamWriter_pushValue ''[]'' w
      else
        let (isMultiLine, w1) =
              (if bs_cs w = CS_All then (True, w) else BuiltStyledStreamWriter_isMultineArray write values w) in
        if isMultiLine then
          (let w2 = BuiltStyledStreamWriter_indent (BuiltStyledStreamWriter_writeWithIndent ''['' w1);
               hasChildValue = (bs_childValues w2 \<noteq> []);
               w3 = each_line (bs_put '','') (\<lambda>e. BuiltStyledStreamWriter_writeCommentAfterValueOnSameLine (snd e)) (bs_line write hasChildValue)
                 (enumerate 0 values) w2
           in BuiltStyledStreamWriter_writeWithIndent '']'' (BuiltStyledStreamWriter_unindent w3))
        else
          let space = (if bs_indentation w1 \<noteq> [] then '' '' else []) in
          bs_put (space @ '']'') (bs_put (join '', '' (map (child_at (bs_childValues w1)) [0..<length values]))
            (bs_put (''['' @ space) w1)))"

lemma BuiltStyledStreamWriter_writeArrayValue_cong [fundef_cong]:
  assumes "\<And>x s. x \<in> set ys \<Longrightarrow> f x s = g x s" and "xs = ys" and "w = w'"
  shows "BuiltStyledStreamWriter_writeArrayValue f xs w = BuiltStyledStreamWriter_writeArrayValue g ys w'"
proof -
  have "measure_children f c i ys n s = measure_children g c i ys n s" for c i n and s :: BuiltStyledStreamWriter
    by (rule measure_children_cong) (simp_all add: assms(1))
  then have m: "BuiltStyledStreamWriter_isMultineArray f ys w' = BuiltStyledStreamWriter_isMultineArray g ys w'"
    by (simp add: BuiltStyledStreamWriter_isMultineArray_def Let_def)
  have "each_line c a (bs_line f h) (enumerate 0 ys) w2 = each_line c a (bs_line g h) (enumerate 0 ys) w2" for c a h w2
    by (rule each_line_cong) (simp_all add: assms(1) enumerate_mem bs_line_def Let_def)
  then show ?thesis unfolding BuiltStyledStreamWriter_writeArrayValue_def assms(2,3) m by (simp add: Let_def split: prod.split)
qed

function (sequential) BuiltStyledStreamWriter_writeValue ::
  "libc \<Rightarrow> Node \<Rightarrow> BuiltStyledStreamWriter \<Rightarrow> BuiltStyledStreamWriter" where
  "BuiltStyledStreamWriter_writeValue L (N, NullV) w = BuiltStyledStreamWriter_pushValue (bs_nullSymbol w) w"
| "BuiltStyledStreamWriter_writeValue L (N, IntV i) w = BuiltStyledStreamWriter_pushValue (valueToString_int i) w"
| "BuiltStyledStreamWriter_writeValue L (N, UIntV u) w = BuiltStyledStreamWriter_pushValue (valueToString_uint u) w"
| "BuiltStyledStreamWriter_writeValue L (N, RealV d) w =
     BuiltStyledStreamWriter_pushValue (valueToString_double L d (bs_useSpecialFloats w)) w"
| "BuiltStyledStreamWriter_writeValue L (N, StringV s) w = BuiltStyledStreamWriter_pushValue (valueToQuotedStringN s) w"
| "BuiltStyledStreamWriter_writeValue L (N, BoolV b) w = BuiltStyledStreamWriter_pushValue (valueToString_bool b) w"
| "BuiltStyledStreamWriter_writeValue L (N, ArrayV m) w =
     BuiltStyledStreamWriter_writeArrayValue (BuiltStyledStreamWriter_writeValue L) (array_nodes N m) w"
| "BuiltStyledStreamWriter_writeValue L (N, ObjectV m) w =
     (if map_keys m = [] then BuiltStyledStreamWriter_pushValue ''{}'' w
      else
        let w1 = BuiltStyledStreamWriter_indent (BuiltStyledStreamWriter_writeWithIndent ''{'' w);
            w2 = each_line (bs_put '','') (\<lambda>name. BuiltStyledStreamWriter_writeCommentAfterValueOnSameLine (member_node N m name))
              (\<lambda>name w. BuiltStyledStreamWriter_writeValue L (member_node N m name)
                 ((\<lambda>w. bs_put (bs_colonSymbol w) w) (BuiltStyledStreamWriter_writeWithIndent (valueToQuotedStringN name)
                   (BuiltStyledStreamWriter_writeCommentBeforeValue (member_node N m name) w))))
              (map_keys m) w1
        in BuiltStyledStreamWriter_writeWithIndent ''}'' (BuiltStyledStreamWriter_unindent w2))"
  by pat_completeness auto
termination
  by (relation "measure (\<lambda>(L, v, w). size (snd v))") (auto simp: member_node_size array_nodes_size)

definition BuiltStyledStreamWriter_write :: "libc \<Rightarrow> Node \<Rightarrow> BuiltStyledStreamWriter \<Rightarrow> string" where
  "BuiltStyledStreamWriter_write L value w =
     (let w1 = BuiltStyledStreamWriter_writeCommentBeforeValue value
            (w\<lparr>bs_sout := [], bs_addChildValues := False, bs_indented := True, bs_indentString := []\<rparr>);
          w2 = (if \<not> bs_indented w1 then BuiltStyledStreamWriter_writeIndent w1 else w1)\<lparr>bs_indented := True\<rparr>;
          w3 = BuiltStyledStreamWriter_writeCommentAfterValueOnSameLine value (BuiltStyledStreamWriter_writeValue L value w2)
      in bs_sout (bs_put (bs_endingLineFeedSymbol w3) w3))"

section \<open>StreamWriterBuilder\<close>

definition StreamWriterBuilder_setDefaults :: "Value \<Rightarrow> Value cxx" where
  "StreamWriterBuilder_setDefaults settings = settings_put_all
     [(''commentStyle'', StringV ''All''),
      (''indentation'', StringV [CHR 0x09]),
      (''enableYAMLCompatibility'', BoolV False),
      (''dropNullPlaceholders'', BoolV False),
      (''useSpecialFloats'', BoolV False)] settings"

definition new_StreamWriterBuilder :: "Value cxx" where
  "new_StreamWriterBuilder = StreamWriterBuilder_setDefaults NullV"

definition newStreamWriter :: "libc \<Rightarrow> Value \<Rightarrow> BuiltStyledStreamWriter cxx" where
  "newStreamWriter L settings =
     cxx_bind (cxx_bind (member_const ''indentation'' settings) (asString L)) (\<lambda>indentation.
     cxx_bind (cxx_bind (member_const ''commentStyle'' settings) (asString L)) (\<lambda>cs_str.
     cxx_bind (setting_bool ''enableYAMLCompatibility'' settings) (\<lambda>eyc.
     cxx_bind (setting_bool ''dropNullPlaceholders'' settings) (\<lambda>dnp.
     cxx_bind (setting_bool ''useSpecialFloats'' settings) (\<lambda>usf.
     cxx_bind (if cs_str = ''All'' then Ret CS_All
               else if cs_str = ''None'' then Ret CS_None
               else Throw (Json_RuntimeError (''commentStyle must be '' @ [CHR 0x27] @ ''All'' @ [CHR 0x27] @ '' or '' @
                      [CHR 0x27] @ ''None'' @ [CHR 0x27]))) (\<lambda>cs.
     let colonSymbol = (if eyc then '': '' else if indentation = [] then '':'' else '' : '');
         nullSymbol = (if dnp then [] else ''null'')
     in Ret (new_BuiltStyledStreamWriter indentation cs colonSymbol nullSymbol [] usf)))))))"

definition getValidWriterKeys :: "string list" where
  "getValidWriterKeys = fold set_insert
     [''indentation'', ''commentStyle'', ''enableYAMLCompatibility'', ''dropNullPlaceholders'', ''useSpecialFloats''] []"

fun invalid_writer_settings :: "string list \<Rightarrow> Value \<Rightarrow> Value \<Rightarrow> Value cxx" where
  "invalid_writer_settings [] settings bad = Ret bad"
| "invalid_writer_settings (key # keys) settings bad =
     (if set_count key getValidWriterKeys = 0
      then cxx_bind (member_const key settings) (\<lambda>x.
             cxx_bind (settings_put key x bad) (invalid_writer_settings keys settings))
      else invalid_writer_settings keys settings bad)"

definition StreamWriterBuilder_validate :: "Value \<Rightarrow> Value \<Rightarrow> (bool \<times> Value) cxx" where
  "StreamWriterBuilder_validate settings invalid =
     cxx_bind (getMemberNames settings) (\<lambda>keys.
     cxx_bind (invalid_writer_settings keys settings invalid) (\<lambda>bad. Ret (json_size bad = 0, bad)))"

definition writeString :: "libc \<Rightarrow> Value \<Rightarrow> Node \<Rightarrow> string cxx" where
  "writeString L settings value =
     cxx_bind (newStreamWriter L settings) (\<lambda>writer. Ret (BuiltStyledStreamWriter_write L value writer))"

text \<open>\<^verbatim>\<open>operator<<\<close>: what it sends to the stream.\<close>

definition stream_insert :: "libc \<Rightarrow> Node \<Rightarrow> string cxx" where
  "stream_insert L value = cxx_bind new_StreamWriterBuilder (\<lambda>settings. writeString L settings value)"

text \<open>The default settings are valid, and give a writer that indents with tabs.\<close>

lemma default_writer_settings_valid:
  "cxx_bind new_StreamWriterBuilder (\<lambda>s. StreamWriterBuilder_validate s NullV) = Ret (True, NullV)"
  by code_simp

lemma default_stream_writer:
  "cxx_bind new_StreamWriterBuilder (newStreamWriter L) =
     Ret (new_BuiltStyledStreamWriter [CHR 0x09] CS_All '' : '' ''null'' [] False)"
proof -
  define settings where "settings = ObjectV [(''commentStyle'', StringV ''All''), (''dropNullPlaceholders'', BoolV False),
     (''enableYAMLCompatibility'', BoolV False), (''indentation'', StringV [CHR 0x09]), (''useSpecialFloats'', BoolV False)]"
  have defaults: "new_StreamWriterBuilder = Ret settings" unfolding settings_def by code_simp
  have "newStreamWriter L settings = Ret (new_BuiltStyledStreamWriter [CHR 0x09] CS_All '' : '' ''null'' [] False)"
    unfolding settings_def
    by (simp add: newStreamWriter_def json_simps setting_bool_def asBool_def CZString_short)
  then show ?thesis by (simp add: defaults)
qed

end
