(* ===== verification/Json_Printer.thy ===== *)
theory Json_Printer
  imports Json_Styled
begin

text \<open>
  What the indenting writers of jsoncpp have in common. The locale \<open>styled_printer\<close> states the equations the
  writers satisfy and what their primitive operations add to the output; from them it follows that what
  is written is a layout of the value, with the comments of its tree between the tokens.
\<close>

section \<open>Quoting of names\<close>

lemma escape_cchar_eq: "c \<noteq> NUL \<Longrightarrow> escape_cchar c = escape_char c"
  by (simp add: escape_cchar_def escape_char_def)

lemma quote_loop_eq: "NUL \<notin> set s \<Longrightarrow> quote_loop s result = escape_loop s result"
  by (induction s arbitrary: result) (auto simp: escape_cchar_eq)

lemma containsControlCharacter_eq: "NUL \<notin> set s \<Longrightarrow> containsControlCharacter s = containsControlCharacter0 s"
  by (induction s) auto

lemma c_str_plain: "NUL \<notin> set s \<Longrightarrow> c_str s = s"
  by (auto simp: c_str_def takeWhile_eq_all_conv NUL_def)

lemma strnpbrk_None: "strnpbrk s accept = None \<longleftrightarrow> \<not> list_ex (\<lambda>c. c \<in> set accept) s"
  by (induction s) auto

lemma valueToQuotedString_plain: "NUL \<notin> set s \<Longrightarrow> valueToQuotedString s = valueToQuotedStringN s"
  by (simp add: valueToQuotedString_def valueToQuotedStringN_def c_str_plain strnpbrk_None containsControlCharacter_eq
      quote_loop_eq)

section \<open>Padded pieces\<close>

definition padded :: "bool \<Rightarrow> Value \<Rightarrow> string \<Rightarrow> bool" where
  "padded cm x p \<longleftrightarrow> (\<exists>a t b. p = a @ t @ b \<and> sep cm a \<and> sep cm b \<and> layout cm x t)"

definition padded_member :: "bool \<Rightarrow> string \<times> Value \<Rightarrow> string \<Rightarrow> bool" where
  "padded_member cm e p \<longleftrightarrow> (\<exists>a b q. p = a @ valueToQuotedStringN (fst e) @ b @ CHR '':'' # q \<and>
     sep cm a \<and> blank b \<and> padded cm (snd e) q)"

lemma padded_sep: "padded cm x p \<Longrightarrow> sep cm a \<Longrightarrow> sep cm b \<Longrightarrow> padded cm x (a @ p @ b)"
proof -
  assume "padded cm x p" "sep cm a" "sep cm b"
  then obtain c t d where "p = c @ t @ d" "sep cm c" "sep cm d" "layout cm x t" by (auto simp: padded_def)
  with \<open>sep cm a\<close> \<open>sep cm b\<close> show ?thesis
    unfolding padded_def by (intro exI [of _ "a @ c"] exI [of _ t] exI [of _ "d @ b"]) (simp add: sep_append)
qed

lemma padded_layout: "layout cm x t \<Longrightarrow> padded cm x t"
  unfolding padded_def by (intro exI [of _ "[]"] exI [of _ t]) (simp add: sep_blank)

lemma padded_member_after: "padded_member cm e p \<Longrightarrow> sep cm b \<Longrightarrow> padded_member cm e (p @ b)"
proof -
  assume "padded_member cm e p" "sep cm b"
  then obtain a c q where "p = a @ valueToQuotedStringN (fst e) @ c @ CHR '':'' # q" "sep cm a" "blank c" "padded cm (snd e) q"
    by (auto simp: padded_member_def)
  with padded_sep [of cm "snd e" q "[]" b] \<open>sep cm b\<close> show ?thesis
    unfolding padded_member_def by (intro exI [of _ a] exI [of _ c] exI [of _ "q @ b"]) simp
qed

lemma comma_separated_last: "comma_separated (ps @ [p]) @ b = comma_separated (ps @ [p @ b])"
proof (induction ps)
  case (Cons q ps)
  then show ?case by (cases ps) simp_all
qed simp

lemma list_all2_last:
  assumes "list_all2 P xs ps" and "xs \<noteq> []" and "\<And>x p. P x p \<Longrightarrow> P x (p @ b)"
  obtains qs where "list_all2 P xs qs" "comma_separated ps @ b = comma_separated qs"
proof -
  obtain ys y where xs: "xs = ys @ [y]" using assms(2) by (cases xs rule: rev_cases) simp_all
  with assms(1) obtain rs p where "ps = rs @ [p]" "list_all2 P ys rs" "P y p"
    by (auto simp: list_all2_append1 list_all2_Cons1)
  with xs assms(3) show thesis
    by (intro that [of "rs @ [p @ b]"]) (auto simp: comma_separated_last intro: list_all2_appendI)
qed

lemma padded_first:
  assumes "list_all2 (padded cm) xs ps" and "xs \<noteq> []" and "sep cm a"
  obtains qs where "list_all2 (padded cm) xs qs" "a @ comma_separated ps = comma_separated qs"
proof -
  obtain x xs' p ps' where *: "xs = x # xs'" "ps = p # ps'" "padded cm x p" "list_all2 (padded cm) xs' ps'"
    using assms(1,2) by (cases xs; cases ps) auto
  have "list_all2 (padded cm) xs ((a @ p) # ps')" using * padded_sep [of cm x p a "[]"] assms(3) by simp
  moreover have "a @ comma_separated ps = comma_separated ((a @ p) # ps')" by (cases ps') (simp_all add: *(2))
  ultimately show thesis by (rule that)
qed

lemma layout_elements:
  assumes "xs \<noteq> []" and "list_all2 (padded cm) xs ps" and "sep cm a" and "sep cm b"
  shows "layout cm (ArrayV (enumerate 0 xs)) (CHR ''['' # a @ comma_separated ps @ b @ '']'')"
proof -
  obtain rs where rs: "list_all2 (padded cm) xs rs" "a @ comma_separated ps = comma_separated rs"
    by (rule padded_first [OF assms(2,1,3)])
  obtain qs where qs: "list_all2 (padded cm) xs qs" "comma_separated rs @ b = comma_separated qs"
    by (rule list_all2_last [OF rs(1) assms(1), of b]) (use padded_sep [of cm _ _ "[]" b] assms(4) in simp_all)
  have "\<exists>es :: element list. map el_value es = xs \<and> map element_text es = qs \<and>
      (\<forall>e\<in>set es. layout cm (el_value e) (el_text e) \<and> sep cm (el_before e) \<and> sep cm (el_after e))"
    using qs(1)
  proof induction
    case (Cons x xs q qs)
    then obtain es :: "element list" and a t c where *: "map el_value es = xs" "map element_text es = qs"
        "\<forall>e\<in>set es. layout cm (el_value e) (el_text e) \<and> sep cm (el_before e) \<and> sep cm (el_after e)"
        "q = a @ t @ c" "sep cm a" "sep cm c" "layout cm x t"
      by (auto simp: padded_def)
    let ?e = "\<lparr>el_value = x, el_before = a, el_text = t, el_after = c\<rparr>"
    have "element_text ?e = q" using *(4) by (simp add: element_text_def)
    with * show ?case by (intro exI [of _ "?e # es"]) simp
  qed simp
  then obtain es :: "element list" where es: "map el_value es = xs" "map element_text es = qs"
      "\<forall>e\<in>set es. layout cm (el_value e) (el_text e) \<and> sep cm (el_before e) \<and> sep cm (el_after e)" by blast
  with assms(1) have "es \<noteq> []" by auto
  from layout.elements [OF this es(3)] es(1,2) qs(2) rs(2) show ?thesis by (metis append_assoc)
qed

lemma layout_members:
  assumes "m \<noteq> []" and "map_inv m" and "\<forall>e\<in>set m. int (length (fst e)) < 2 ^ 30"
    and "list_all2 (padded_member cm) m ps" and "sep cm b"
  shows "layout cm (ObjectV m) (CHR ''{'' # comma_separated ps @ b @ ''}'')"
proof -
  obtain qs where qs: "list_all2 (padded_member cm) m qs" "comma_separated ps @ b = comma_separated qs"
    by (rule list_all2_last [OF assms(4,1), of b]) (use padded_member_after [of cm _ _ b] assms(5) in simp_all)
  have "\<exists>es. map member_entry es = m \<and> map member_text es = qs \<and> (\<forall>e\<in>set es. layout cm (el_value e) (el_text e) \<and>
      sep cm (el_before e) \<and> sep cm (el_after e) \<and> sep cm (mb_start e) \<and> blank (mb_colon e))"
    using qs(1)
  proof induction
    case (Cons x xs q qs)
    then obtain es a b c t d where *: "map member_entry es = xs" "map member_text es = qs"
        "\<forall>e\<in>set es. layout cm (el_value e) (el_text e) \<and>
           sep cm (el_before e) \<and> sep cm (el_after e) \<and> sep cm (mb_start e) \<and> blank (mb_colon e)"
        "q = a @ valueToQuotedStringN (fst x) @ b @ CHR '':'' # c @ t @ d" "sep cm a" "blank b" "sep cm c" "sep cm d"
        "layout cm (snd x) t"
      by (auto simp: padded_member_def padded_def)
    let ?e = "\<lparr>el_value = snd x, el_before = c, el_text = t, el_after = d, mb_name = fst x, mb_start = a, mb_colon = b\<rparr>"
    have "member_entry ?e = x" "member_text ?e = q"
      using *(4) by (simp_all add: member_text_def element_text_def member_entry_def)
    with * show ?case by (intro exI [of _ "?e # es"]) simp
  qed simp
  then obtain es where es: "map member_entry es = m" "map member_text es = qs"
      "\<forall>e\<in>set es. layout cm (el_value e) (el_text e) \<and>
         sep cm (el_before e) \<and> sep cm (el_after e) \<and> sep cm (mb_start e) \<and> blank (mb_colon e)" by blast
  have "int (length (mb_name e)) < 2 ^ 30" if "e \<in> set es" for e
  proof -
    have "member_entry e \<in> set m" using that by (simp add: es(1) [symmetric])
    with assms(3) show ?thesis by (auto simp: member_entry_def)
  qed
  then have "layout cm (ObjectV (map member_entry es)) (CHR ''{'' # comma_separated (map member_text es) @ ''}'')"
    using assms(1,2) es by (intro layout.members) auto
  with es(1,2) qs(2) show ?thesis by (metis append_assoc)
qed

lemma join_padded:
  assumes "list_all2 (padded cm) xs ts"
  obtains ps where "list_all2 (padded cm) xs ps" "join '', '' ts = comma_separated ps"
proof -
  have "\<exists>ps. list_all2 (padded cm) xs ps \<and> join '', '' ts = comma_separated ps"
    using assms
  proof induction
    case (Cons x xs t ts)
    then obtain ps where ps: "list_all2 (padded cm) xs ps" "join '', '' ts = comma_separated ps" by blast
    show ?case
    proof (cases "xs = []")
      case False
      then obtain qs where "list_all2 (padded cm) xs qs" "'' '' @ comma_separated ps = comma_separated qs"
        using padded_first [OF ps(1), of "'' ''"] by (auto simp: sep_blank is_space_def)
      with False Cons ps show ?thesis
        by (intro exI [of _ "t # qs"]) (cases ts; cases qs; auto)
    qed (use Cons in \<open>auto intro!: exI [of _ "[t]"]\<close>)
  qed simp
  then show thesis using that by blast
qed

section \<open>The interface of an indenting writer\<close>

text \<open>What a writer has written, the elements it has kept back, and whether it is keeping elements back.\<close>

record view =
  vw_out :: string
  vw_kids :: "string list"
  vw_adding :: bool

text \<open>The values written as one token.\<close>

fun plain_text :: "Value \<Rightarrow> string option" where
  "plain_text NullV = Some ''null''"
| "plain_text (IntV i) = Some (valueToString_int i)"
| "plain_text (UIntV u) = Some (valueToString_uint u)"
| "plain_text (StringV s) = Some (valueToQuotedStringN s)"
| "plain_text (BoolV b) = Some (valueToString_bool b)"
| "plain_text (ArrayV []) = Some ''[]''"
| "plain_text (ObjectV []) = Some ''{}''"
| "plain_text _ = None"

fun all_names :: "(string \<Rightarrow> bool) \<Rightarrow> Value \<Rightarrow> bool" where
  "all_names P (ArrayV m) \<longleftrightarrow> list_all (\<lambda>e. all_names P (snd e)) m"
| "all_names P (ObjectV m) \<longleftrightarrow> list_all (\<lambda>e. P (fst e) \<and> all_names P (snd e)) m"
| "all_names P _ \<longleftrightarrow> True"

lemma plain_text_layout: "canonical v \<Longrightarrow> plain_text v = Some t \<Longrightarrow> layout cm v t"
  using layout.no_element [of "[]"] layout.no_member [of "[]"]
  by (cases v rule: plain_text.cases) (auto intro: layout.intros)

lemma canonical_array_size: "canonical (ArrayV m) \<Longrightarrow> json_size (ArrayV m) = length m"
  using size_enumerate [of "map snd m"] by (metis canonical.simps(5) length_map)

lemma canonical_object_size: "canonical (ObjectV m) \<Longrightarrow> json_size (ObjectV m) = length m"
  by (simp add: json_size_object)

lemma plain_text_None: "canonical v \<Longrightarrow> plain_text v = None \<Longrightarrow> nonempty_container v"
  by (cases v rule: plain_text.cases)
    (auto simp: nonempty_container_def canonical_array_size canonical_object_size isArray_def isObject_def type_of_def
      simp del: canonical.simps(5,6))

text \<open>The nodes below an array without gaps and below an object.\<close>

definition index_nodes :: "Notes \<Rightarrow> Value list \<Rightarrow> Node list" where
  "index_nodes N xs = map (\<lambda>(i, x). (sub_notes N (Step_index i), x)) (enumerate 0 xs)"

definition entry_node :: "Notes \<Rightarrow> string \<times> Value \<Rightarrow> Node" where
  "entry_node N e = (sub_notes N (Step_name (fst e)), snd e)"

lemma snd_index_nodes: "map snd (index_nodes N xs) = xs"
  by (simp add: index_nodes_def o_def case_prod_unfold)

lemma length_index_nodes [simp]: "length (index_nodes N xs) = length xs"
  by (simp add: index_nodes_def)

text \<open>A property of the annotations of all nodes of a tree.\<close>

fun all_notes :: "(Annotation \<Rightarrow> bool) \<Rightarrow> Notes \<Rightarrow> Value \<Rightarrow> bool" where
  "all_notes P N (ArrayV m) \<longleftrightarrow> P (N []) \<and> list_all (\<lambda>e. all_notes P (sub_notes N (Step_index (fst e))) (snd e)) m"
| "all_notes P N (ObjectV m) \<longleftrightarrow> P (N []) \<and> list_all (\<lambda>e. all_notes P (sub_notes N (Step_name (fst e))) (snd e)) m"
| "all_notes P N _ \<longleftrightarrow> P (N [])"

lemma all_notes_own: "all_notes P N v \<Longrightarrow> P (N [])"
  by (cases v) simp_all

lemma all_notes_mono: "all_notes P N v \<Longrightarrow> (\<And>p. P (N p) \<Longrightarrow> Q (N p)) \<Longrightarrow> all_notes Q N v"
proof (induction v arbitrary: N)
  case (ArrayV m)
  then show ?case by (auto simp: list_all_iff sub_notes_def snds.simps)
next
  case (ObjectV m)
  then show ?case by (auto simp: list_all_iff sub_notes_def snds.simps)
qed simp_all

lemma all_notes_all: "\<forall>p. P (N p) \<Longrightarrow> all_notes P N v"
proof (induction v arbitrary: N)
  case (ArrayV m)
  then show ?case by (auto simp: list_all_iff sub_notes_def snds.simps)
next
  case (ObjectV m)
  then show ?case by (auto simp: list_all_iff sub_notes_def snds.simps)
qed simp_all

lemma index_nodes_notes:
  assumes "all_notes P N (ArrayV m)" and "m = enumerate 0 (map snd m)" and "x \<in> set (index_nodes N (map snd m))"
  shows "all_notes P (fst x) (snd x)"
proof -
  obtain e where "e \<in> set (enumerate 0 (map snd m))" "x = (sub_notes N (Step_index (fst e)), snd e)"
    using assms(3) by (auto simp: index_nodes_def)
  then show ?thesis using assms(1) unfolding assms(2) [symmetric] by (auto simp: list_all_iff)
qed

lemma entry_node_notes: "all_notes P N (ObjectV m) \<Longrightarrow> e \<in> set m \<Longrightarrow> all_notes P (fst (entry_node N e)) (snd e)"
  by (auto simp: entry_node_def list_all_iff)

text \<open>
  What has been written since the last token: a separator, or one that lacks its last line feed
  while the writer is about to write one.
\<close>

definition pend :: "bool \<Rightarrow> bool \<Rightarrow> string \<Rightarrow> bool" where
  "pend cm feed q \<longleftrightarrow> sep cm q \<or> feed \<and> sep cm (q @ [CHR 0x0A])"

lemma pend_Nil: "pend cm feed []"
  by (simp add: pend_def sep_blank)

lemma pend_indent:
  assumes "pend cm feed q" and "blank a" and "feed \<longrightarrow> (\<exists>b. a = CHR 0x0A # b)"
  shows "sep cm (q @ a)"
proof (cases "sep cm q")
  case True
  then show ?thesis using sep_blank [OF assms(2)] by (rule sep_append)
next
  case False
  then obtain b where "sep cm (q @ [CHR 0x0A])" "a = CHR 0x0A # b" using assms(1,3) by (auto simp: pend_def)
  with assms(2) show ?thesis by (simp add: sep_NL)
qed

text \<open>A step that ends outside an element kept back and has added \<open>p\<close> to the output.\<close>

definition wrote :: "('s \<Rightarrow> view) \<Rightarrow> ('s \<Rightarrow> bool) \<Rightarrow> ('s \<Rightarrow> bool) \<Rightarrow> 's \<Rightarrow> string \<Rightarrow> 's \<Rightarrow> bool" where
  "wrote view good ready s p s' \<longleftrightarrow> vw_out (view s') = vw_out (view s) @ p \<and> \<not> vw_adding (view s') \<and> good s' \<and>
     (ready s \<longrightarrow> ready s')"

text \<open>
  The operations of a writer: \<open>remark\<close> and \<open>trail\<close> write the comments before and after a node, \<open>line\<close> writes
  a text on a line of its own and \<open>before\<close> begins one. A line begins with a line feed if \<open>feed\<close> holds; after a
  value the writer is \<open>ready\<close> for a comment.
\<close>

locale styled_printer =
  fixes cm :: bool and fine :: "Annotation \<Rightarrow> bool"
    and view :: "'s \<Rightarrow> view" and good :: "'s \<Rightarrow> bool" and ready :: "'s \<Rightarrow> bool" and feed :: "'s \<Rightarrow> bool"
    and push :: "string \<Rightarrow> 's \<Rightarrow> 's" and line :: "string \<Rightarrow> 's \<Rightarrow> 's"
    and single :: "string \<Rightarrow> 's \<Rightarrow> 's" and colon :: "'s \<Rightarrow> 's" and comma :: "'s \<Rightarrow> 's"
    and deeper :: "'s \<Rightarrow> 's" and shallower :: "'s \<Rightarrow> 's" and before :: "'s \<Rightarrow> 's" and after :: "'s \<Rightarrow> 's"
    and remark :: "Node \<Rightarrow> 's \<Rightarrow> 's" and trail :: "Node \<Rightarrow> 's \<Rightarrow> 's" and noted :: "Node \<Rightarrow> bool"
    and clear :: "'s \<Rightarrow> 's" and start :: "'s \<Rightarrow> 's" and stop :: "'s \<Rightarrow> 's" and long :: "Value list \<Rightarrow> bool"
    and quotable :: "string \<Rightarrow> bool" and quote :: "string \<Rightarrow> string"
    and emit :: "Node \<Rightarrow> 's \<Rightarrow> 's"
  assumes push: "view (push t s) = (if vw_adding (view s) then (view s)\<lparr>vw_kids := vw_kids (view s) @ [t]\<rparr>
      else (view s)\<lparr>vw_out := vw_out (view s) @ t\<rparr>)"
    and line: "good s \<Longrightarrow> \<exists>a. view (line t s) = (view s)\<lparr>vw_out := vw_out (view s) @ a @ t\<rparr> \<and>
      (\<forall>q. pend cm (feed s) q \<longrightarrow> sep cm (q @ a))"
    and before: "good s \<Longrightarrow> \<exists>a. view (before s) = (view s)\<lparr>vw_out := vw_out (view s) @ a\<rparr> \<and>
      (\<forall>q. pend cm (feed s) q \<longrightarrow> sep cm (q @ a))"
    and remark: "good s \<Longrightarrow> fine (own_note x) \<Longrightarrow> \<exists>p. view (remark x s) = (view s)\<lparr>vw_out := vw_out (view s) @ p\<rparr> \<and>
      (\<forall>q. pend cm (feed s) q \<longrightarrow> pend cm (feed (remark x s)) (q @ p))"
    and trail: "good s \<Longrightarrow> fine (own_note x) \<Longrightarrow> \<exists>p. view (trail x s) = (view s)\<lparr>vw_out := vw_out (view s) @ p\<rparr> \<and>
      sep cm (p @ [CHR 0x0A]) \<and> (ready s \<longrightarrow> pend cm (feed (trail x s)) p)"
    and single: "good s \<Longrightarrow> \<exists>a b. blank a \<and> blank b \<and>
      view (single t s) = (view s)\<lparr>vw_out := vw_out (view s) @ CHR ''['' # a @ t @ b @ '']''\<rparr>"
    and colon: "good s \<Longrightarrow> \<exists>a b. blank a \<and> blank b \<and>
      view (colon s) = (view s)\<lparr>vw_out := vw_out (view s) @ a @ CHR '':'' # b\<rparr>"
    and comma: "view (comma s) = (view s)\<lparr>vw_out := vw_out (view s) @ '',''\<rparr>"
    and silent: "view (deeper s) = view s" "view (shallower s) = view s" "view (after s) = view s"
      "feed (shallower s) = feed s"
    and clear: "good s \<Longrightarrow> \<not> vw_adding (view s) \<Longrightarrow> view (clear s) = (view s)\<lparr>vw_kids := []\<rparr> \<and> good (clear s)"
    and start: "view (start s) = (view s)\<lparr>vw_kids := [], vw_adding := True\<rparr>" "good s \<Longrightarrow> \<not> long xs \<Longrightarrow> good (start s)"
    and stop: "view (stop s) = (view s)\<lparr>vw_adding := False\<rparr>" "good s \<Longrightarrow> good (stop s)"
    and keeps: "good s \<Longrightarrow> good (push t s)" "good s \<Longrightarrow> good (line t s)" "good s \<Longrightarrow> good (single t s)" "good s \<Longrightarrow> good (colon s)"
      "good s \<Longrightarrow> good (comma s)" "good s \<Longrightarrow> good (before s)" "good s \<Longrightarrow> good (deeper s)"
      "good s \<Longrightarrow> good (shallower s)" "good s \<Longrightarrow> good (after s)" "good s \<Longrightarrow> good (remark x s)" "good s \<Longrightarrow> good (trail x s)"
    and settles: "ready (line t s)" "ready (after s)"
    and stays: "ready s \<Longrightarrow> ready (push t s)" "ready s \<Longrightarrow> ready (single t s)" "ready s \<Longrightarrow> ready (colon s)"
      "ready s \<Longrightarrow> ready (comma s)" "ready s \<Longrightarrow> ready (trail x s)" "ready s \<Longrightarrow> ready (start s)" "ready s \<Longrightarrow> ready (stop s)"
    and quote: "quotable k \<Longrightarrow> quote k = valueToQuotedStringN k"
    and nested: "list_ex nonempty_container xs \<Longrightarrow> long xs"
    and emit_plain: "good s \<Longrightarrow> plain_text v = Some t \<Longrightarrow> emit (N, v) s = push t s"
    and emit_array: "good s \<Longrightarrow> xs \<noteq> [] \<Longrightarrow> ns = index_nodes N xs \<Longrightarrow> length xs < 2 ^ 31 \<Longrightarrow> emit (N, ArrayV (enumerate 0 xs)) s =
      (let (multi, s1) = (if long xs then (True, clear s)
             else let (n, s') = measure_children emit (\<lambda>s. vw_kids (view s)) 0 ns (4 + (length ns - 1) * 2) (start s)
                  in (list_ex noted ns \<or> n \<ge> rightMargin, stop s'))
       in if multi then
            let s2 = deeper (line ''['' s1);
                s3 = each_line comma (\<lambda>e. trail (snd e)) (\<lambda>e s. if vw_kids (view s2) \<noteq> []
                       then line (child_at (vw_kids (view (remark (snd e) s))) (fst e)) (remark (snd e) s)
                       else after (emit (snd e) (before (remark (snd e) s)))) (enumerate 0 ns) s2
            in line '']'' (shallower s3)
          else single (join '', '' (map (child_at (vw_kids (view s1))) [0..<length ns])) s1)"
    and emit_object: "good s \<Longrightarrow> m \<noteq> [] \<Longrightarrow> map_inv m \<Longrightarrow> \<forall>e\<in>set m. int (length (fst e)) < 2 ^ 30 \<Longrightarrow> emit (N, ObjectV m) s =
      line ''}'' (shallower (each_line comma (\<lambda>e. trail (entry_node N e))
        (\<lambda>e s. emit (entry_node N e) (colon (line (quote (fst e)) (remark (entry_node N e) s)))) m (deeper (line ''{'' s))))"
begin

lemma line_wrote:
  assumes "good s" and "\<not> vw_adding (view s)"
  obtains a where "\<forall>q. pend cm (feed s) q \<longrightarrow> sep cm (q @ a)" "wrote view good ready s (a @ t) (line t s)"
    "vw_kids (view (line t s)) = vw_kids (view s)"
proof -
  obtain a where "view (line t s) = (view s)\<lparr>vw_out := vw_out (view s) @ a @ t\<rparr>" "\<forall>q. pend cm (feed s) q \<longrightarrow> sep cm (q @ a)"
    using line [OF assms(1), of t] by blast
  with that [of a] keeps(2) [OF assms(1), of t] settles(1) assms(2) show thesis by (simp add: wrote_def)
qed

text \<open>
  The loop over the elements or members \<open>xs\<close>, whose nodes are \<open>node x\<close>: from a state in which \<open>q\<close> is pending
  it writes one piece for each, with commas between them, and leaves \<open>r\<close> pending.
\<close>

lemma each_line_wrote:
  assumes I: "\<And>s. I s \<longleftrightarrow> good s \<and> \<not> vw_adding (view s) \<and> (K \<longrightarrow> vw_kids (view s) = ks)"
    and step: "\<And>x s q. x \<in> set xs \<Longrightarrow> I s \<Longrightarrow> pend cm (feed s) q \<Longrightarrow>
      \<exists>p. P x (q @ p) \<and> wrote view good ready s p (f x s) \<and> ready (f x s) \<and> I (f x s)"
    and "\<forall>x\<in>set xs. fine (own_note (node x))" and "I s" and "pend cm (feed s) q" and "xs \<noteq> []"
  shows "\<exists>ps w r. list_all2 P xs ps \<and> q @ w = comma_separated ps @ r \<and>
    pend cm (feed (each_line comma (\<lambda>x. trail (node x)) f xs s)) r \<and>
    wrote view good ready s w (each_line comma (\<lambda>x. trail (node x)) f xs s)"
  using assms(2-6)
proof (induction xs arbitrary: s q)
  case (Cons x xs)
  obtain p where p: "P x (q @ p)" "wrote view good ready s p (f x s)" "ready (f x s)" "I (f x s)"
    using Cons.prems(1) [of x s q] Cons.prems(3,4) by auto
  have fine: "fine (own_note (node x))" using Cons.prems(2) by simp
  show ?case
  proof (cases xs)
    case Nil
    obtain r where "view (trail (node x) (f x s)) = (view (f x s))\<lparr>vw_out := vw_out (view (f x s)) @ r\<rparr>"
        "pend cm (feed (trail (node x) (f x s))) r"
      using trail [of "f x s", OF _ fine] p(3,4) I by auto
    with p Nil keeps(11) stays(5) I show ?thesis
      by (intro exI [of _ "[q @ p]"] exI [of _ "p @ r"] exI [of _ r]) (auto simp: wrote_def)
  next
    case (Cons y ys)
    let ?c = "comma (f x s)" and ?s = "trail (node x) (comma (f x s))"
    have c: "ready ?c" "I ?c" using p(3,4) stays(4) keeps(5) I by (auto simp: comma)
    then obtain r where r: "view ?s = (view ?c)\<lparr>vw_out := vw_out (view ?c) @ r\<rparr>" "pend cm (feed ?s) r"
      using trail [of ?c, OF _ fine] I by auto
    have s: "I ?s" "ready ?s" using c r keeps(11) stays(5) I by auto
    obtain ps w r' where ps: "list_all2 P xs ps" "r @ w = comma_separated ps @ r'"
        "pend cm (feed (each_line comma (\<lambda>x. trail (node x)) f xs ?s)) r'"
        "wrote view good ready ?s w (each_line comma (\<lambda>x. trail (node x)) f xs ?s)"
      using Cons.IH [OF _ _ s(1) r(2)] Cons.prems(1,2) Cons by auto
    have "ps \<noteq> []" using ps(1) Cons by auto
    then have "comma_separated ((q @ p) # ps) = q @ p @ CHR '','' # comma_separated ps" by (cases ps) simp_all
    with ps p Cons r s show ?thesis
      by (intro exI [of _ "(q @ p) # ps"] exI [of _ "p @ CHR '','' # r @ w"] exI [of _ r'])
        (auto simp: wrote_def comma)
  qed
qed simp

text \<open>A container on several lines: its opening line, its elements, its closing line.\<close>

lemma lines_wrote:
  assumes "good s" and "\<not> vw_adding (view s)"
    and I: "\<And>s'. I s' \<longleftrightarrow> good s' \<and> \<not> vw_adding (view s') \<and> (K \<longrightarrow> vw_kids (view s') = vw_kids (view s))"
    and step: "\<And>x s q. x \<in> set xs \<Longrightarrow> I s \<Longrightarrow> pend cm (feed s) q \<Longrightarrow>
      \<exists>p. P x (q @ p) \<and> wrote view good ready s p (f x s) \<and> ready (f x s) \<and> I (f x s)"
    and fine: "\<forall>x\<in>set xs. fine (own_note (node x))" and "xs \<noteq> []"
  shows "\<exists>a ps b. sep cm a \<and> sep cm b \<and> list_all2 P xs ps \<and> wrote view good ready s (a @ l @ comma_separated ps @ b @ r)
    (line r (shallower (each_line comma (\<lambda>x. trail (node x)) f xs (deeper (line l s)))))"
proof -
  obtain a where a: "\<forall>q. pend cm (feed s) q \<longrightarrow> sep cm (q @ a)" "wrote view good ready s (a @ l) (line l s)"
      "vw_kids (view (line l s)) = vw_kids (view s)"
    by (rule line_wrote [OF assms(1,2), where t = l])
  let ?s2 = "deeper (line l s)"
  let ?s3 = "each_line comma (\<lambda>x. trail (node x)) f xs ?s2"
  have s2: "I ?s2" using a keeps(7) I by (auto simp: wrote_def silent)
  obtain ps w q where ps: "list_all2 P xs ps" "w = comma_separated ps @ q" "pend cm (feed ?s3) q" "wrote view good ready ?s2 w ?s3"
    using each_line_wrote [where P = P and f = f, OF I step fine s2 pend_Nil assms(6)] by auto
  have s4: "good (shallower ?s3)" "\<not> vw_adding (view (shallower ?s3))"
    using ps keeps(8) by (auto simp: wrote_def silent)
  obtain b where b: "\<forall>q. pend cm (feed (shallower ?s3)) q \<longrightarrow> sep cm (q @ b)"
      "wrote view good ready (shallower ?s3) (b @ r) (line r (shallower ?s3))"
    by (rule line_wrote [OF s4, where t = r])
  have "sep cm a" "sep cm (q @ b)" using a(1) pend_Nil [of cm "feed s"] b(1) ps(3) by (auto simp: silent)
  then show ?thesis
    using a b ps settles(1)
    by (intro exI [of _ a] exI [of _ ps] exI [of _ "q @ b"]) (auto simp: wrote_def silent)
qed

lemma array_lines:
  assumes "xs \<noteq> []" and "ns = index_nodes N xs" and "good s" and "\<not> vw_adding (view s)"
    and "\<forall>x\<in>set ns. fine (own_note x)"
    and I: "\<And>s'. I s' \<longleftrightarrow> good s' \<and> \<not> vw_adding (view s') \<and> (K \<longrightarrow> vw_kids (view s') = vw_kids (view s))"
    and "\<And>e s q. e \<in> set (enumerate 0 ns) \<Longrightarrow> I s \<Longrightarrow> pend cm (feed s) q \<Longrightarrow>
      \<exists>p. padded cm (snd (snd e)) (q @ p) \<and> wrote view good ready s p (f e s) \<and> ready (f e s) \<and> I (f e s)"
  shows "\<exists>a t. sep cm a \<and> layout cm (ArrayV (enumerate 0 xs)) t \<and> wrote view good ready s (a @ t)
    (line '']'' (shallower (each_line comma (\<lambda>e. trail (snd e)) f (enumerate 0 ns) (deeper (line ''['' s)))))"
proof -
  have ne: "enumerate 0 ns \<noteq> []" using assms(1) arg_cong [OF assms(2), of length] by (cases ns) auto
  have fine: "\<forall>e\<in>set (enumerate 0 ns). fine (own_note (snd e))" using assms(5) enumerate_mem by blast
  obtain a ps b where *: "sep cm a" "sep cm b" "list_all2 (\<lambda>e. padded cm (snd (snd e))) (enumerate 0 ns) ps"
      "wrote view good ready s (a @ ''['' @ comma_separated ps @ b @ '']'')
        (line '']'' (shallower (each_line comma (\<lambda>e. trail (snd e)) f (enumerate 0 ns) (deeper (line ''['' s)))))"
    using lines_wrote [where P = "\<lambda>e. padded cm (snd (snd e))" and f = f, OF assms(3,4) I assms(7) fine ne, where l = "''[''" and r = "'']''"] by blast
  have "map (\<lambda>e. snd (snd e)) (enumerate 0 ns) = map snd (map snd (enumerate 0 ns))" by (simp only: list.map_comp o_def)
  then have "map (\<lambda>e. snd (snd e)) (enumerate 0 ns) = xs" by (simp add: assms(2) snd_index_nodes)
  then have "list_all2 (padded cm) xs ps"
    using *(3) list_all2_map1 [of "padded cm" "\<lambda>e. snd (snd e)" "enumerate 0 ns" ps] by simp
  from layout_elements [OF assms(1) this sep_Nil *(2)] *(1,4) show ?thesis
    by (intro exI [of _ a] exI [of _ "CHR ''['' # comma_separated ps @ b @ '']''"]) simp
qed

lemma children_kept:
  assumes "\<forall>x\<in>set ns. plain_text (snd x) \<noteq> None" and "good s" and "vw_adding (view s)"
  obtains n s' where "measure_children emit (\<lambda>s. vw_kids (view s)) i ns n0 s = (n, s')" "good s'" "ready s \<longrightarrow> ready s'"
    "view s' = (view s)\<lparr>vw_kids := vw_kids (view s) @ map (\<lambda>x. the (plain_text (snd x))) ns\<rparr>"
proof -
  have "\<exists>n s'. measure_children emit (\<lambda>s. vw_kids (view s)) i ns n0 s = (n, s') \<and> good s' \<and> (ready s \<longrightarrow> ready s') \<and>
      view s' = (view s)\<lparr>vw_kids := vw_kids (view s) @ map (\<lambda>x. the (plain_text (snd x))) ns\<rparr>"
    using assms
  proof (induction ns arbitrary: s i n0)
    case (Cons x ns)
    then obtain t where t: "plain_text (snd x) = Some t" by auto
    have e: "emit x s = push t s" using emit_plain [OF Cons.prems(2) t, of "fst x"] by simp
    have v: "view (push t s) = (view s)\<lparr>vw_kids := vw_kids (view s) @ [t]\<rparr>" using push Cons.prems(3) by simp
    let ?n = "n0 + length (child_at (vw_kids (view (push t s))) i)"
    obtain n s' where "measure_children emit (\<lambda>s. vw_kids (view s)) (Suc i) ns ?n (push t s) = (n, s')" "good s'"
        "ready (push t s) \<longrightarrow> ready s'"
        "view s' = (view (push t s))\<lparr>vw_kids := vw_kids (view (push t s)) @ map (\<lambda>x. the (plain_text (snd x))) ns\<rparr>"
      using Cons.IH [of "push t s" "Suc i" ?n] Cons.prems keeps(1) v by auto
    with stays(1) [of s t] v t show ?case by (auto simp: e Let_def)
  qed simp
  then show thesis using that by blast
qed

text \<open>An element on a line of its own, with the comment before it: one that was kept back, or one written now.\<close>

lemma kept_element:
  assumes "good s" and "\<not> vw_adding (view s)" and "fine (own_note x)" and "pend cm (feed s) q"
    and "padded cm v t" and "t = child_at (vw_kids (view s)) i"
  shows "\<exists>p. padded cm v (q @ p) \<and>
    wrote view good ready s p (line (child_at (vw_kids (view (remark x s))) i) (remark x s)) \<and>
    vw_kids (view (line (child_at (vw_kids (view (remark x s))) i) (remark x s))) = vw_kids (view s)"
proof -
  obtain u where u: "view (remark x s) = (view s)\<lparr>vw_out := vw_out (view s) @ u\<rparr>" "pend cm (feed (remark x s)) (q @ u)"
    using remark [OF assms(1,3)] assms(4) by blast
  obtain a where a: "\<forall>q. pend cm (feed (remark x s)) q \<longrightarrow> sep cm (q @ a)"
      "wrote view good ready (remark x s) (a @ t) (line t (remark x s))"
      "vw_kids (view (line t (remark x s))) = vw_kids (view (remark x s))"
    using line_wrote [of "remark x s"] keeps(10) [OF assms(1)] u(1) assms(2) by auto
  have "padded cm v ((q @ u @ a) @ t @ [])"
    using padded_sep [OF assms(5), of "q @ u @ a" "[]"] a(1) u(2) by (metis append_assoc sep_Nil)
  with a(2,3) u(1) assms(6) settles(1) show ?thesis by (intro exI [of _ "u @ a @ t"]) (auto simp: wrote_def)
qed

lemma written_element:
  assumes "good s" and "\<not> vw_adding (view s)" and "fine (own_note x)" and "pend cm (feed s) q"
    and "\<And>s. good s \<Longrightarrow> \<not> vw_adding (view s) \<Longrightarrow> \<exists>p. padded cm (snd x) p \<and> wrote view good ready s p (emit x s)"
  shows "\<exists>p. padded cm (snd x) (q @ p) \<and> wrote view good ready s p (after (emit x (before (remark x s))))"
proof -
  obtain u where u: "view (remark x s) = (view s)\<lparr>vw_out := vw_out (view s) @ u\<rparr>" "pend cm (feed (remark x s)) (q @ u)"
    using remark [OF assms(1,3)] assms(4) by blast
  have w: "good (remark x s)" using keeps(10) [OF assms(1)] .
  obtain a where a: "view (before (remark x s)) = (view (remark x s))\<lparr>vw_out := vw_out (view (remark x s)) @ a\<rparr>" "sep cm ((q @ u) @ a)"
    using before [OF w] u(2) by blast
  obtain p where p: "padded cm (snd x) p" "wrote view good ready (before (remark x s)) p (emit x (before (remark x s)))"
    using assms(5) [OF keeps(6) [OF w]] a(1) u(1) assms(2) by auto
  have "padded cm (snd x) (((q @ u) @ a) @ p @ [])" using padded_sep [OF p(1) a(2) sep_Nil] .
  with a u p keeps(9) settles(2) show ?thesis by (intro exI [of _ "u @ a @ p"]) (auto simp: wrote_def silent)
qed

text \<open>An array whose elements are written one by one.\<close>

lemma emit_array_long:
  assumes "xs \<noteq> []" and "\<forall>x\<in>set xs. canonical x" and ns: "ns = index_nodes N xs"
    and emits: "\<And>x s. x \<in> set ns \<Longrightarrow> good s \<Longrightarrow> \<not> vw_adding (view s) \<Longrightarrow> \<exists>p. padded cm (snd x) p \<and> wrote view good ready s p (emit x s)"
    and fine: "\<forall>x\<in>set ns. fine (own_note x)" and "good s" and "\<not> vw_adding (view s)" and "long xs" and few: "length xs < 2 ^ 31"
  shows "\<exists>a t. sep cm a \<and> layout cm (ArrayV (enumerate 0 xs)) t \<and>
    wrote view good ready s (a @ t) (emit (N, ArrayV (enumerate 0 xs)) s)"
proof -
  have s1: "view (clear s) = (view s)\<lparr>vw_kids := []\<rparr>" "good (clear s)" using clear [OF assms(6,7)] by simp_all
  obtain a0 where "view (line ''['' (clear s)) = (view (clear s))\<lparr>vw_out := vw_out (view (clear s)) @ a0 @ ''[''\<rparr>"
    using line [OF s1(2)] by blast
  then have kids: "vw_kids (view (deeper (line ''['' (clear s)))) = []" by (simp add: silent s1)
  let ?f = "\<lambda>e s'. after (emit (snd e) (before (remark (snd e) s')))"
  have one: "\<exists>p. padded cm (snd (snd e)) (q @ p) \<and> wrote view good ready s' p (?f e s') \<and> ready (?f e s') \<and>
      good (?f e s') \<and> \<not> vw_adding (view (?f e s'))"
    if "e \<in> set (enumerate 0 ns)" "good s' \<and> \<not> vw_adding (view s')" "pend cm (feed s') q" for e s' q
    using written_element [OF _ _ _ that(3) emits [OF enumerate_mem [OF that(1)]]] that fine enumerate_mem [OF that(1)] settles(2)
    by (auto simp: wrote_def)
  have "\<exists>a t. sep cm a \<and> layout cm (ArrayV (enumerate 0 xs)) t \<and>
      wrote view good ready (clear s) (a @ t) (line '']'' (shallower (each_line comma (\<lambda>e. trail (snd e)) ?f
        (enumerate 0 ns) (deeper (line ''['' (clear s))))))"
    using one s1 assms(7) fine
    by (intro array_lines [OF assms(1) ns, where K = False and I = "\<lambda>s'. good s' \<and> \<not> vw_adding (view s')"]) simp_all
  then show ?thesis using emit_array [OF assms(6,1) ns few] assms(8) s1 kids settles(1) by (simp add: Let_def wrote_def)
qed

text \<open>An array whose elements were kept back: on lines of their own, or on one line.\<close>

lemma kept_lines:
  assumes "xs \<noteq> []" and ns: "ns = index_nodes N xs" and fine: "\<forall>x\<in>set ns. fine (own_note x)"
    and s: "good s" "\<not> vw_adding (view s)" "vw_kids (view s) = ts"
    and kid: "\<And>i. i < length ns \<Longrightarrow> padded cm (snd (ns ! i)) (child_at ts i)"
  shows "\<exists>a t. sep cm a \<and> layout cm (ArrayV (enumerate 0 xs)) t \<and>
    wrote view good ready s (a @ t) (line '']'' (shallower (each_line comma (\<lambda>e. trail (snd e))
      (\<lambda>e s. line (child_at (vw_kids (view (remark (snd e) s))) (fst e)) (remark (snd e) s)) (enumerate 0 ns)
      (deeper (line ''['' s)))))"
proof (intro array_lines [OF assms(1) ns, where K = True and I = "\<lambda>w. good w \<and> \<not> vw_adding (view w) \<and> vw_kids (view w) = ts"])
  fix e w q
  let ?w = "line (child_at (vw_kids (view (remark (snd e) w))) (fst e)) (remark (snd e) w)"
  assume e: "e \<in> set (enumerate 0 ns)" and w: "good w \<and> \<not> vw_adding (view w) \<and> vw_kids (view w) = ts" and q: "pend cm (feed w) q"
  have "fst e < length ns" "ns ! fst e = snd e" using e by (simp_all add: in_set_enumerate_eq)
  then have "padded cm (snd (snd e)) (child_at ts (fst e))" using kid [of "fst e"] by simp
  then have "\<exists>p. padded cm (snd (snd e)) (q @ p) \<and> wrote view good ready w p ?w \<and> vw_kids (view ?w) = vw_kids (view w)"
    using w fine enumerate_mem [OF e] by (intro kept_element [OF _ _ _ q]) simp_all
  then show "\<exists>p. padded cm (snd (snd e)) (q @ p) \<and> wrote view good ready w p ?w \<and> ready ?w \<and>
      good ?w \<and> \<not> vw_adding (view ?w) \<and> vw_kids (view ?w) = ts"
    using w settles(1) by (auto simp: wrote_def)
qed (use s fine in auto)

lemma emit_array_kept:
  assumes "xs \<noteq> []" and "\<forall>x\<in>set xs. canonical x" and ns: "ns = index_nodes N xs"
    and emits: "\<And>x s. x \<in> set ns \<Longrightarrow> good s \<Longrightarrow> \<not> vw_adding (view s) \<Longrightarrow> \<exists>p. padded cm (snd x) p \<and> wrote view good ready s p (emit x s)"
    and fine: "\<forall>x\<in>set ns. fine (own_note x)" and "good s" and "\<not> vw_adding (view s)" and "\<not> long xs" and few: "length xs < 2 ^ 31"
  shows "\<exists>a t. sep cm a \<and> layout cm (ArrayV (enumerate 0 xs)) t \<and>
    wrote view good ready s (a @ t) (emit (N, ArrayV (enumerate 0 xs)) s)"
proof -
  have vals: "map snd ns = xs" by (simp add: ns snd_index_nodes)
  then have mem: "snd x \<in> set xs" if "x \<in> set ns" for x using that by auto
  have plain: "plain_text v \<noteq> None \<and> padded cm v (the (plain_text v))" if "v \<in> set xs" for v
    using that assms(2,8) plain_text_None [of v] nested [of xs] padded_layout [OF plain_text_layout [of v]]
    by (cases "plain_text v") (auto simp: list_ex_iff)
  define ts where "ts = map (\<lambda>x. the (plain_text (snd x))) ns"
  obtain n s' where m: "measure_children emit (\<lambda>s. vw_kids (view s)) 0 ns (4 + (length ns - 1) * 2) (start s) = (n, s')"
      "good s'" "ready (start s) \<longrightarrow> ready s'" "view s' = (view (start s))\<lparr>vw_kids := vw_kids (view (start s)) @ ts\<rparr>"
    unfolding ts_def by (rule children_kept [of ns "start s"]) (use plain mem start assms(6,8) in auto)
  have s1: "good (stop s')" "view (stop s') = (view s)\<lparr>vw_kids := ts\<rparr>" "\<not> vw_adding (view (stop s'))" "ready s \<longrightarrow> ready (stop s')"
    using m stop start assms(7) stays(6,7) by auto
  have kid: "padded cm (snd (ns ! i)) (child_at ts i)" if "i < length ns" for i
    using plain [OF mem [OF nth_mem [OF that]]] that by (simp add: ts_def child_at_def)
  have "ts \<noteq> []" "length ts = length ns" using assms(1) vals by (auto simp: ts_def)
  show ?thesis
  proof (cases "list_ex noted ns \<or> n \<ge> rightMargin")
    case True
    obtain a0 where "view (line ''['' (stop s')) = (view (stop s'))\<lparr>vw_out := vw_out (view (stop s')) @ a0 @ ''[''\<rparr>"
      using line [OF s1(1)] by blast
    then have kids: "vw_kids (view (deeper (line ''['' (stop s')))) = ts" by (simp add: silent s1)
    from kept_lines [OF assms(1) ns fine s1(1,3), of ts] s1(2) kid
    show ?thesis using emit_array [OF assms(6,1) ns few] assms(8) True s1 kids \<open>ts \<noteq> []\<close> m(1) settles(1) by (simp add: Let_def wrote_def)
  next
    case single_line: False
    have kids: "map (child_at (vw_kids (view (stop s')))) [0..<length ns] = ts"
      using \<open>length ts = length ns\<close> by (intro nth_equalityI) (simp_all add: s1 child_at_def)
    have "list_all2 (padded cm) xs ts"
      unfolding vals [symmetric] using kid by (simp add: list_all2_conv_all_nth ts_def child_at_def)
    then obtain ps where ps: "list_all2 (padded cm) xs ps" "join '', '' ts = comma_separated ps" by (rule join_padded)
    obtain a b where ab: "blank a" "blank b" "view (single (join '', '' ts) (stop s')) =
        (view (stop s'))\<lparr>vw_out := vw_out (view (stop s')) @ CHR ''['' # a @ join '', '' ts @ b @ '']''\<rparr>"
      using single [OF s1(1)] by blast
    from layout_elements [OF assms(1) ps(1) ab(1,2) [THEN sep_blank]] show ?thesis
      using emit_array [OF assms(6,1) ns few] assms(8) single_line s1 ab ps(2) m(1) keeps(3) [OF s1(1)] kids stays(2)
      by (intro exI [of _ "[]"] exI [of _ "CHR ''['' # a @ comma_separated ps @ b @ '']''"]) (simp add: wrote_def)
  qed
qed

lemma emit_object_layout:
  assumes "m \<noteq> []" and "map_inv m" and "\<forall>e\<in>set m. int (length (fst e)) < 2 ^ 30 \<and> quotable (fst e)"
    and emits: "\<And>e s. e \<in> set m \<Longrightarrow> good s \<Longrightarrow> \<not> vw_adding (view s) \<Longrightarrow>
      \<exists>p. padded cm (snd e) p \<and> wrote view good ready s p (emit (entry_node N e) s)"
    and fine: "\<forall>e\<in>set m. fine (own_note (entry_node N e))" and "good s" and "\<not> vw_adding (view s)"
  shows "\<exists>a t. sep cm a \<and> layout cm (ObjectV m) t \<and> wrote view good ready s (a @ t) (emit (N, ObjectV m) s)"
proof -
  let ?f = "\<lambda>e s. emit (entry_node N e) (colon (line (quote (fst e)) (remark (entry_node N e) s)))"
  have one: "\<exists>p. padded_member cm e (r @ p) \<and> wrote view good ready w p (?f e w) \<and> ready (?f e w) \<and> good (?f e w) \<and> \<not> vw_adding (view (?f e w))"
    if e: "e \<in> set m" and w: "good w \<and> \<not> vw_adding (view w)" and r: "pend cm (feed w) r" for e w r
  proof -
    let ?q = "valueToQuotedStringN (fst e)" and ?w = "remark (entry_node N e) w"
    have q: "quote (fst e) = ?q" using e assms(3) quote by simp
    obtain u where u: "view ?w = (view w)\<lparr>vw_out := vw_out (view w) @ u\<rparr>" "pend cm (feed ?w) (r @ u)"
      using remark [of w "entry_node N e"] w fine e r by auto
    have w': "good ?w" "\<not> vw_adding (view ?w)" using keeps(10) w u(1) by auto
    obtain a where a: "\<forall>q. pend cm (feed ?w) q \<longrightarrow> sep cm (q @ a)" "wrote view good ready ?w (a @ ?q) (line ?q ?w)"
      by (rule line_wrote [OF w', where t = ?q])
    then have l: "good (line ?q ?w)" by (simp add: wrote_def)
    obtain b c where bc: "blank b" "blank c"
        "view (colon (line ?q ?w)) = (view (line ?q ?w))\<lparr>vw_out := vw_out (view (line ?q ?w)) @ b @ CHR '':'' # c\<rparr>"
      using colon [OF l] by blast
    obtain p where p: "padded cm (snd e) p" "wrote view good ready (colon (line ?q ?w)) p (?f e w)"
      using emits [OF e keeps(4) [OF l]] bc(3) a(2) by (auto simp: wrote_def q)
    have "sep cm ((r @ u) @ a)" using a(1) u(2) by blast
    moreover have "padded cm (snd e) (c @ p @ [])" using padded_sep [OF p(1) sep_blank [OF bc(2)] sep_Nil] .
    ultimately have "padded_member cm e (r @ u @ a @ ?q @ b @ CHR '':'' # c @ p)"
      unfolding padded_member_def using bc(1) by (intro exI [of _ "r @ u @ a"] exI [of _ b] exI [of _ "c @ p"]) simp
    with a u bc p settles(1) stays(3) show ?thesis
      by (intro exI [of _ "u @ a @ ?q @ b @ CHR '':'' # c @ p"]) (auto simp: wrote_def q)
  qed
  obtain a ps b where *: "sep cm a" "sep cm b" "list_all2 (padded_member cm) m ps"
      "wrote view good ready s (a @ ''{'' @ comma_separated ps @ b @ ''}'') (emit (N, ObjectV m) s)"
    using lines_wrote [where P = "padded_member cm" and f = ?f and K = False and I = "\<lambda>w. good w \<and> \<not> vw_adding (view w)"
        and l = "''{''" and r = "''}''", OF assms(6,7) _ one fine assms(1)] emit_object [OF assms(6,1,2)] assms(3) by auto
  from layout_members [OF assms(1,2) _ *(3,2)] assms(3) *(1,4) show ?thesis
    by (intro exI [of _ a] exI [of _ "CHR ''{'' # comma_separated ps @ b @ ''}''"]) simp
qed

lemma emit_plain_layout:
  assumes "canonical v" and "plain_text v = Some t" and "good s" and "\<not> vw_adding (view s)"
  shows "\<exists>a t. sep cm a \<and> layout cm v t \<and> wrote view good ready s (a @ t) (emit (N, v) s)"
  using plain_text_layout [OF assms(1,2)] emit_plain [OF assms(3,2)] push [of t s] keeps(1) [OF assms(3), of t] assms(4) stays(1)
  by (intro exI [of _ "[]"] exI [of _ t]) (simp add: wrote_def)

theorem emit_layout:
  assumes "canonical v" and "all_names quotable v" and "all_notes fine N v" and "good s" and "\<not> vw_adding (view s)"
  shows "\<exists>a t. sep cm a \<and> layout cm v t \<and> wrote view good ready s (a @ t) (emit (N, v) s)"
  using assms
proof (induction v arbitrary: s N)
  case (ArrayV m)
  let ?ns = "index_nodes N (map snd m)"
  have m: "m = enumerate 0 (map snd m)" and few: "length m < 2 ^ 31" and c: "\<forall>e\<in>set m. canonical (snd e) \<and> all_names quotable (snd e)"
    using ArrayV.prems(1,2) by (auto simp: list_all_iff)
  have fine: "all_notes fine (fst x) (snd x)" if "x \<in> set ?ns" for x using index_nodes_notes [OF ArrayV.prems(3) m that] .
  have "\<exists>p. padded cm (snd x) p \<and> wrote view good ready s' p (emit x s')"
    if x: "x \<in> set ?ns" and s': "good s'" "\<not> vw_adding (view s')" for x s'
  proof -
    have "snd x \<in> set (map snd ?ns)" using x by simp
    then obtain e where e: "e \<in> set m" "snd x = snd e" unfolding snd_index_nodes by auto
    then have "\<exists>a t. sep cm a \<and> layout cm (snd x) t \<and> wrote view good ready s' (a @ t) (emit (fst x, snd x) s')"
      unfolding e(2) using c s' fine [OF x, unfolded e(2)] by (intro ArrayV.IH [OF e(1)]) (simp_all add: snds.simps)
    then show ?thesis using padded_sep [OF padded_layout, of cm "snd x" _ _ "[]"] by fastforce
  qed
  moreover have "\<forall>x\<in>set ?ns. fine (own_note x)" using all_notes_own [OF fine] by (simp add: own_note_def)
  ultimately show ?case
    using emit_array_long [of "map snd m" ?ns N s, OF _ _ refl] emit_array_kept [of "map snd m" ?ns N s, OF _ _ refl]
      m few c emit_plain_layout [of "ArrayV []"] ArrayV.prems(4,5)
    by (cases "m = []"; cases "long (map snd m)") auto
next
  case (ObjectV m)
  have m: "map_inv m" and c: "\<forall>e\<in>set m. canonical (snd e) \<and> all_names quotable (snd e) \<and> int (length (fst e)) < 2 ^ 30 \<and> quotable (fst e)"
    using ObjectV.prems(1,2) by (auto simp: list_all_iff)
  have fine: "all_notes fine (fst (entry_node N e)) (snd e)" if "e \<in> set m" for e using entry_node_notes [OF ObjectV.prems(3) that] .
  have emits: "\<exists>p. padded cm (snd e) p \<and> wrote view good ready s' p (emit (entry_node N e) s')"
    if "e \<in> set m" "good s'" "\<not> vw_adding (view s')" for e s'
  proof -
    have "\<exists>a t. sep cm a \<and> layout cm (snd e) t \<and> wrote view good ready s' (a @ t) (emit (fst (entry_node N e), snd e) s')"
      using c that fine by (intro ObjectV.IH [OF that(1)]) (simp_all add: snds.simps)
    then show ?thesis using padded_sep [OF padded_layout, of cm "snd e" _ _ "[]"] by (fastforce simp: entry_node_def)
  qed
  have "\<forall>e\<in>set m. fine (own_note (entry_node N e))" using all_notes_own [OF fine] by (simp add: own_note_def)
  from emit_object_layout [OF _ m _ emits this ObjectV.prems(4,5)] c show ?case
    using emit_plain_layout [of "ObjectV []"] ObjectV.prems(4,5) by (cases "m = []") simp_all
qed (use emit_plain_layout in simp_all)

text \<open>The whole document: the comment before the value and the indentation, the value and the comments after it.\<close>

lemma root_before:
  assumes "fine (N [])" and "good s" and "\<not> vw_adding (view s)"
  obtains a where "sep cm a" "vw_out (view (before (remark (N, v) s))) = vw_out (view s) @ a"
    "good (before (remark (N, v) s))" "\<not> vw_adding (view (before (remark (N, v) s)))"
proof -
  let ?s = "remark (N, v) s"
  obtain p where p: "view ?s = (view s)\<lparr>vw_out := vw_out (view s) @ p\<rparr>" "pend cm (feed ?s) p"
    using remark [OF assms(2), of "(N, v)"] assms(1) pend_Nil [of cm "feed s"] by (auto simp: own_note_def)
  have "good ?s" using keeps(10) [OF assms(2)] .
  then obtain a where "view (before ?s) = (view ?s)\<lparr>vw_out := vw_out (view ?s) @ a\<rparr>" "sep cm (p @ a)"
    using before [of ?s] p(2) by blast
  with p(1) assms(3) keeps(6) [OF \<open>good ?s\<close>] that [of "p @ a"] show thesis by simp
qed

lemma emit_root:
  assumes "canonical v" and "all_names quotable v" and "all_notes fine N v" and "good s" and "\<not> vw_adding (view s)"
  obtains a t b where "sep cm a" "layout cm v t" "sep cm (b @ [CHR 0x0A])" "good (trail (N, v) (emit (N, v) s))"
    "vw_out (view (trail (N, v) (emit (N, v) s))) = vw_out (view s) @ a @ t @ b"
proof -
  obtain a t where a: "sep cm a" "layout cm v t" "wrote view good ready s (a @ t) (emit (N, v) s)"
    using emit_layout [OF assms] by blast
  then have "good (emit (N, v) s)" by (simp add: wrote_def)
  with trail [of "emit (N, v) s" "(N, v)"] all_notes_own [OF assms(3)] obtain b where "sep cm (b @ [CHR 0x0A])"
      "view (trail (N, v) (emit (N, v) s)) = (view (emit (N, v) s))\<lparr>vw_out := vw_out (view (emit (N, v) s)) @ b\<rparr>"
    by (auto simp: own_note_def)
  with a keeps(11) [OF \<open>good (emit (N, v) s)\<close>] that [of a t b] show thesis by (simp add: wrote_def)
qed

end

end
