(* ===== verification/Json_Styled_Roundtrip.thy ===== *)
theory Json_Styled_Roundtrip
  imports Json_Printer
begin

text \<open>
  \<^verbatim>\<open>StyledWriter\<close>, \<^verbatim>\<open>StyledStreamWriter\<close> and \<^verbatim>\<open>BuiltStyledStreamWriter\<close> are interpretations of \<open>styled_printer\<close>, so the
  reader inverts what they write. Each has a condition on the comments of the tree: those under which it
  ends a line comment before it writes the next token.
\<close>

section \<open>The comments of a value\<close>

text \<open>
  Comments that a reader takes for comments: each is a gap once a line feed follows it, and has the
  further property \<open>P\<close>; where comments are off there are none.
\<close>

definition remarks :: "bool \<Rightarrow> (string \<Rightarrow> bool) \<Rightarrow> Annotation \<Rightarrow> bool" where
  "remarks cm P a \<longleftrightarrow> (\<forall>placement. hasComment placement a \<longrightarrow>
     cm \<and> gap (getComment placement a @ [CHR 0x0A]) \<and> P (getComment placement a))"

lemma remarks_none: "remarks cm P no_annotation"
  by (simp add: remarks_def hasComment_def no_annotation_def)

lemma remarks_sep:
  assumes "remarks cm P a" and "hasComment placement a"
  shows "sep cm (getComment placement a @ [CHR 0x0A])" and "P (getComment placement a)"
    and "blank i \<Longrightarrow> sep cm (comment_lines i (getComment placement a) @ [CHR 0x0A])"
    and "gap (getComment placement a) \<Longrightarrow> sep cm (getComment placement a)"
    and "gap (getComment placement a) \<Longrightarrow> blank i \<Longrightarrow> sep cm (comment_lines i (getComment placement a))"
  using assms gap_comment_lines [of "getComment placement a @ [CHR 0x0A]" i] gap_comment_lines [of "getComment placement a" i]
  by (auto simp: remarks_def sep_def comment_lines_NL)

text \<open>The comment on the same line, the first of those after a value.\<close>

definition tail_text :: "Annotation \<Rightarrow> string" where
  "tail_text a = (if hasComment commentAfterOnSameLine a then '' '' @ getComment commentAfterOnSameLine a else [])"

lemma sep_space: "sep cm s \<Longrightarrow> sep cm (CHR '' '' # s)"
  using sep_append [of cm "'' ''" s] by (simp add: sep_blank is_space_def)

lemma sep_tail_text:
  assumes "remarks cm P a"
  shows "sep cm (tail_text a @ [CHR 0x0A])"
    and "(hasComment commentAfterOnSameLine a \<Longrightarrow> gap (getComment commentAfterOnSameLine a)) \<Longrightarrow> sep cm (tail_text a)"
  using remarks_sep [OF assms] by (auto simp: tail_text_def sep_space sep_blank is_space_NL)

lemma sep_after_NL: "sep cm (s @ [CHR 0x0A]) \<Longrightarrow> sep cm t \<Longrightarrow> sep cm (s @ CHR 0x0A # t)"
  using sep_append [of cm "s @ [CHR 0x0A]" t] by simp

section \<open>The three writers\<close>

lemma array_nodes_enumerate:
  assumes "length xs < 2 ^ 31"
  shows "array_nodes N (enumerate 0 xs) = index_nodes N xs"
proof -
  have "json_size (ArrayV (enumerate 0 xs)) = length xs" using assms by (rule size_enumerate)
  moreover have "element_node N (enumerate 0 xs) i = (sub_notes N (Step_index i), xs ! i)" if "i < length xs" for i
  proof -
    have "(i, xs ! i) \<in> set (enumerate 0 xs)" using that by (simp add: in_set_enumerate_eq)
    moreover have "map_inv (enumerate 0 xs)" by (simp add: map_inv_def set_inv_def map_keys_enumerate)
    ultimately show ?thesis by (simp add: element_node_def map_entries_find)
  qed
  ultimately show ?thesis
    by (intro nth_equalityI) (simp_all add: array_nodes_def index_nodes_def nth_enumerate_eq)
qed

lemma member_node_entry:
  assumes "map_inv m" and "\<forall>e\<in>set m. int (length (fst e)) < 2 ^ 30" and "e \<in> set m"
  shows "member_node N m (fst e) = entry_node N e"
  using assms map_entries_find [OF assms(1), of "fst e" "snd e"] by (simp add: member_node_def entry_node_def CZString_key)

lemma each_line_keys:
  assumes "map_inv m" and "\<forall>e\<in>set m. int (length (fst e)) < 2 ^ 30"
  shows "each_line c (\<lambda>name. a (member_node N m name)) (\<lambda>name. f name (member_node N m name)) (map_keys m) s =
    each_line c (\<lambda>e. a (entry_node N e)) (\<lambda>e. f (fst e) (entry_node N e)) m s"
proof -
  have *: "each_line c b h (map g xs) s = each_line c (\<lambda>e. b (g e)) (\<lambda>e. h (g e)) xs s" for b h g s and xs :: "(string \<times> Value) list"
    by (induction c "\<lambda>e. b (g e)" "\<lambda>e. h (g e)" xs s rule: each_line.induct) simp_all
  have "each_line c (\<lambda>e. a (member_node N m (fst e))) (\<lambda>e. f (fst e) (member_node N m (fst e))) es s =
      each_line c (\<lambda>e. a (entry_node N e)) (\<lambda>e. f (fst e) (entry_node N e)) es s" if "set es \<subseteq> set m" for es
    using that
    by (induction c "\<lambda>e. a (entry_node N e)" "\<lambda>e. f (fst e) (entry_node N e)" es s rule: each_line.induct)
      (simp_all add: member_node_entry [OF assms])
  then show ?thesis by (simp add: map_keys_def *)
qed

lemma list_ex_values: "list_ex (\<lambda>x. P (snd x)) (index_nodes N xs) \<longleftrightarrow> list_ex P xs"
proof -
  have "list_ex (\<lambda>x. P (snd x)) ns \<longleftrightarrow> list_ex P (map snd ns)" for ns :: "Node list" by (induction ns) simp_all
  then show ?thesis by (simp add: snd_index_nodes)
qed

lemma blank_take: "blank s \<Longrightarrow> blank (take n s)"
  by (auto simp: list_all_iff dest: in_set_takeD)

lemma blank_spaces: "blank (replicate n (CHR '' ''))"
  by (simp add: list_all_iff is_space_def)

subsection \<open>StyledWriter\<close>

definition sw_view :: "StyledWriter \<Rightarrow> view" where
  "sw_view w = \<lparr>vw_out = sw_document w, vw_kids = sw_childValues w, vw_adding = sw_addChildValues w\<rparr>"

lemma sw_view_sel [simp]:
  "vw_out (sw_view w) = sw_document w" "vw_kids (sw_view w) = sw_childValues w" "vw_adding (sw_view w) = sw_addChildValues w"
  by (simp_all add: sw_view_def)

lemma sw_put_put: "sw_put t (sw_put s w) = sw_put (s @ t) w" "sw_put [] w = w"
  by (simp_all add: sw_put_def)

lemma sw_put_inj: "sw_put s w = sw_put t w \<longleftrightarrow> s = t" "w = sw_put t w \<longleftrightarrow> t = []"
  by (auto simp: sw_put_def dest: arg_cong [where f = sw_document])

lemma sw_view_put: "sw_view (sw_put t w) = (sw_view w)\<lparr>vw_out := vw_out (sw_view w) @ t\<rparr>" "sw_indentString (sw_put t w) = sw_indentString w"
  by (simp_all add: sw_view_def sw_put_def)

definition sw_feed :: "StyledWriter \<Rightarrow> bool" where
  "sw_feed w \<longleftrightarrow> sw_document w \<noteq> [] \<and> last (sw_document w) \<noteq> CHR '' '' \<and> last (sw_document w) \<noteq> CHR 0x0A"

lemma sw_indentation:
  assumes "blank (sw_indentString w)"
  obtains a where "StyledWriter_writeIndent w = sw_put a w" "\<forall>q. pend cm (sw_feed w) q \<longrightarrow> sep cm (q @ a)"
proof -
  let ?a = "if sw_document w \<noteq> [] \<and> last (sw_document w) = CHR '' '' then []
    else if sw_feed w then CHR 0x0A # sw_indentString w else sw_indentString w"
  have a: "blank ?a" "sw_feed w \<longrightarrow> (\<exists>b. ?a = CHR 0x0A # b)" using assms by (auto simp: is_space_NL sw_feed_def)
  have "\<forall>q. pend cm (sw_feed w) q \<longrightarrow> sep cm (q @ ?a)" using pend_indent [OF _ a] by blast
  moreover have "StyledWriter_writeIndent w = sw_put ?a w"
    by (simp add: StyledWriter_writeIndent_def sw_put_def sw_feed_def Let_def)
  ultimately show thesis by (intro that)
qed

text \<open>A comment that ends in a space is taken for indentation, so that nothing ends it.\<close>

definition sw_comment :: "string \<Rightarrow> bool" where
  "sw_comment c \<longleftrightarrow> gap c \<or> last c \<noteq> CHR '' '' \<and> last c \<noteq> CHR 0x0A"

lemma sw_write_comment:
  "write_comment sw_put StyledWriter_writeIndent c w = sw_put (comment_lines (sw_indentString w) c) w"
proof (induction c arbitrary: w)
  case (Cons a c)
  have "StyledWriter_writeIndent (sw_put [CHR 0x0A] w) = sw_put (CHR 0x0A # sw_indentString w) w"
    by (simp add: StyledWriter_writeIndent_def sw_put_def)
  with Cons show ?case by (simp add: Let_def sw_put_put sw_view_put)
qed (simp add: sw_put_put)

lemma sw_before_text:
  "StyledWriter_writeCommentBeforeValue x w =
    (if hasComment commentBefore (own_note x)
     then sw_put ((CHR 0x0A # sw_indentString w) @ comment_lines (sw_indentString w) (getComment commentBefore (own_note x)) @ [CHR 0x0A]) w
     else w)"
proof -
  have "StyledWriter_writeIndent (sw_put [CHR 0x0A] w) = sw_put (CHR 0x0A # sw_indentString w) w"
    by (simp add: StyledWriter_writeIndent_def sw_put_def)
  then show ?thesis
    by (simp add: StyledWriter_writeCommentBeforeValue_def sw_write_comment sw_put_put sw_view_put)
qed

lemma sw_after_text:
  "StyledWriter_writeCommentAfterValueOnSameLine x w = sw_put (tail_text (own_note x) @
     (if hasComment commentAfter (own_note x) then CHR 0x0A # getComment commentAfter (own_note x) @ [CHR 0x0A] else [])) w"
  by (simp add: StyledWriter_writeCommentAfterValueOnSameLine_def tail_text_def sw_put_put)

lemma sw_remark:
  assumes "blank (sw_indentString w)" and "remarks cm sw_comment (own_note x)" and "pend cm (sw_feed w) q"
    and "StyledWriter_writeCommentBeforeValue x w = sw_put p w"
  shows "pend cm (sw_feed (sw_put p w)) (q @ p)"
proof (cases "hasComment commentBefore (own_note x)")
  case True
  let ?a = "CHR 0x0A # sw_indentString w" and ?c = "comment_lines (sw_indentString w) (getComment commentBefore (own_note x))"
  have "p = ?a @ ?c @ [CHR 0x0A]" using assms(4) True by (simp add: sw_before_text sw_put_inj)
  moreover have "sep cm (q @ ?a)" using pend_indent [OF assms(3), of ?a] assms(1) by (simp add: is_space_NL)
  ultimately have "sep cm (q @ p)"
    using sep_append [OF _ remarks_sep(3) [OF assms(2) True assms(1)], of "q @ ?a"] by simp
  then show ?thesis by (simp add: pend_def)
next
  case False
  then show ?thesis using assms(3,4) by (simp add: sw_before_text sw_put_inj sw_put_put)
qed

lemma sw_trail:
  assumes "remarks cm sw_comment (own_note x)" and "StyledWriter_writeCommentAfterValueOnSameLine x w = sw_put p w"
  shows "sep cm (p @ [CHR 0x0A])" and "pend cm (sw_feed (sw_put p w)) p"
proof -
  let ?a = "own_note x"
  have p: "p = tail_text ?a @ (if hasComment commentAfter ?a then CHR 0x0A # getComment commentAfter ?a @ [CHR 0x0A] else [])"
    using assms(2) by (simp add: sw_after_text sw_put_inj)
  have tail: "sep cm (tail_text ?a @ [CHR 0x0A])" using sep_tail_text(1) [OF assms(1)] .
  have full: "sep cm p" if "hasComment commentAfter ?a"
    using sep_after_NL [OF tail remarks_sep(1) [OF assms(1) that]] that by (simp add: p)
  then show "sep cm (p @ [CHR 0x0A])" using tail sep_append [of cm p "[CHR 0x0A]"] by (auto simp: p sep_blank is_space_NL)
  show "pend cm (sw_feed (sw_put p w)) p"
  proof (cases "hasComment commentAfter ?a \<or> (hasComment commentAfterOnSameLine ?a \<longrightarrow> gap (getComment commentAfterOnSameLine ?a))")
    case True
    then show ?thesis using full sep_tail_text(2) [OF assms(1)] by (auto simp: pend_def p)
  next
    case False
    then have "sw_feed (sw_put p w)"
      using remarks_sep(2) [OF assms(1), of commentAfterOnSameLine] gap.empty
      by (cases "getComment commentAfterOnSameLine ?a") (auto simp: p tail_text_def sw_feed_def sw_put_def sw_comment_def)
    then show ?thesis using tail False by (simp add: pend_def p)
  qed
qed

lemma sw_array:
  assumes "xs \<noteq> []" and "ns = index_nodes N xs" and "length xs < 2 ^ 31"
  shows "StyledWriter_writeValue L (N, ArrayV (enumerate 0 xs)) s =
      (let (multi, s1) = (if length xs * 3 \<ge> rightMargin \<or> list_ex nonempty_container xs then (True, s\<lparr>sw_childValues := []\<rparr>)
             else let (n, s') = measure_children (StyledWriter_writeValue L) (\<lambda>s. vw_kids (sw_view s)) 0 ns (4 + (length ns - 1) * 2)
                    (s\<lparr>sw_childValues := [], sw_addChildValues := True\<rparr>)
                  in (list_ex StyledWriter_hasCommentForValue ns \<or> n \<ge> rightMargin, s'\<lparr>sw_addChildValues := False\<rparr>))
       in if multi then
            let s2 = StyledWriter_indent (StyledWriter_writeWithIndent ''['' s1);
                s3 = each_line (sw_put '','') (\<lambda>e. StyledWriter_writeCommentAfterValueOnSameLine (snd e))
                  (\<lambda>e s. if vw_kids (sw_view s2) \<noteq> []
                     then StyledWriter_writeWithIndent (child_at (vw_kids (sw_view (StyledWriter_writeCommentBeforeValue (snd e) s))) (fst e))
                       (StyledWriter_writeCommentBeforeValue (snd e) s)
                     else StyledWriter_writeValue L (snd e) (StyledWriter_writeIndent (StyledWriter_writeCommentBeforeValue (snd e) s)))
                  (enumerate 0 ns) s2
            in StyledWriter_writeWithIndent '']'' (StyledWriter_unindent s3)
          else sw_put '' ]'' (sw_put (join '', '' (map (child_at (vw_kids (sw_view s1))) [0..<length ns])) (sw_put ''[ '' s1)))"
  unfolding sw_view_sel assms(2)
  using assms(1,3)
  by (simp add: array_nodes_enumerate StyledWriter_writeArrayValue_def StyledWriter_isMultineArray_def Let_def
      list_ex_values sw_line_def [abs_def] split: prod.split)

lemma sw_object:
  assumes "m \<noteq> []" and "map_inv m" and "\<forall>e\<in>set m. int (length (fst e)) < 2 ^ 30"
  shows "StyledWriter_writeValue L (N, ObjectV m) s =
      StyledWriter_writeWithIndent ''}'' (StyledWriter_unindent (each_line (sw_put '','')
        (\<lambda>e. StyledWriter_writeCommentAfterValueOnSameLine (entry_node N e))
        (\<lambda>e s. StyledWriter_writeValue L (entry_node N e) (sw_put '' : '' (StyledWriter_writeWithIndent (valueToQuotedString (fst e))
          (StyledWriter_writeCommentBeforeValue (entry_node N e) s)))) m
        (StyledWriter_indent (StyledWriter_writeWithIndent ''{'' s))))"
  using assms(1) each_line_keys [OF assms(2,3), of _ StyledWriter_writeCommentAfterValueOnSameLine N
      "\<lambda>name x w. StyledWriter_writeValue L x (sw_put '' : '' (StyledWriter_writeWithIndent (valueToQuotedString name)
         (StyledWriter_writeCommentBeforeValue x w)))"]
  by (simp add: map_keys_def)

interpretation sw: styled_printer cm "remarks cm sw_comment" sw_view "\<lambda>w. blank (sw_indentString w)" "\<lambda>w. True" sw_feed
  StyledWriter_pushValue StyledWriter_writeWithIndent
  "\<lambda>t w. sw_put '' ]'' (sw_put t (sw_put ''[ '' w))" "sw_put '' : ''" "sw_put '',''"
  StyledWriter_indent StyledWriter_unindent StyledWriter_writeIndent "\<lambda>w. w"
  StyledWriter_writeCommentBeforeValue StyledWriter_writeCommentAfterValueOnSameLine StyledWriter_hasCommentForValue
  "\<lambda>w. w\<lparr>sw_childValues := []\<rparr>" "\<lambda>w. w\<lparr>sw_childValues := [], sw_addChildValues := True\<rparr>" "\<lambda>w. w\<lparr>sw_addChildValues := False\<rparr>"
  "\<lambda>xs. length xs * 3 \<ge> rightMargin \<or> list_ex nonempty_container xs"
  "\<lambda>k. NUL \<notin> set k" valueToQuotedString "StyledWriter_writeValue L" for cm L
proof unfold_locales
  fix t and s :: StyledWriter
  assume good: "blank (sw_indentString s)"
  obtain a where a: "StyledWriter_writeIndent s = sw_put a s" "\<forall>q. pend cm (sw_feed s) q \<longrightarrow> sep cm (q @ a)"
    using good by (rule sw_indentation)
  then show "\<exists>a. sw_view (StyledWriter_writeWithIndent t s) = (sw_view s)\<lparr>vw_out := vw_out (sw_view s) @ a @ t\<rparr> \<and>
      (\<forall>q. pend cm (sw_feed s) q \<longrightarrow> sep cm (q @ a))"
    by (auto simp: StyledWriter_writeWithIndent_def sw_put_put sw_view_put)
  show "\<exists>a. sw_view (StyledWriter_writeIndent s) = (sw_view s)\<lparr>vw_out := vw_out (sw_view s) @ a\<rparr> \<and>
      (\<forall>q. pend cm (sw_feed s) q \<longrightarrow> sep cm (q @ a))"
    using a by (auto simp: sw_view_put)
  show "blank (sw_indentString (StyledWriter_writeIndent s))" "blank (sw_indentString (StyledWriter_writeWithIndent t s))"
    using a(1) good by (simp_all add: StyledWriter_writeWithIndent_def sw_view_put)
  show "\<exists>a b. blank a \<and> blank b \<and> sw_view (sw_put '' ]'' (sw_put t (sw_put ''[ '' s))) =
      (sw_view s)\<lparr>vw_out := vw_out (sw_view s) @ CHR ''['' # a @ t @ b @ '']''\<rparr>"
    by (intro exI [of _ "'' ''"]) (simp add: sw_view_def sw_put_def is_space_def)
  show "\<exists>a b. blank a \<and> blank b \<and> sw_view (sw_put '' : '' s) = (sw_view s)\<lparr>vw_out := vw_out (sw_view s) @ a @ CHR '':'' # b\<rparr>"
    by (intro exI [of _ "'' ''"]) (simp add: sw_view_def sw_put_def is_space_def)
  fix x :: Node
  assume x: "remarks cm sw_comment (own_note x)"
  obtain p where p: "StyledWriter_writeCommentBeforeValue x s = sw_put p s"
    by (metis sw_before_text sw_put_put(2))
  then show "\<exists>p. sw_view (StyledWriter_writeCommentBeforeValue x s) = (sw_view s)\<lparr>vw_out := vw_out (sw_view s) @ p\<rparr> \<and>
      (\<forall>q. pend cm (sw_feed s) q \<longrightarrow> pend cm (sw_feed (StyledWriter_writeCommentBeforeValue x s)) (q @ p))"
    using sw_remark [OF good x _ p] by (auto simp: sw_view_put)
  obtain p where p: "StyledWriter_writeCommentAfterValueOnSameLine x s = sw_put p s" by (metis sw_after_text)
  then show "\<exists>p. sw_view (StyledWriter_writeCommentAfterValueOnSameLine x s) = (sw_view s)\<lparr>vw_out := vw_out (sw_view s) @ p\<rparr> \<and>
      sep cm (p @ [CHR 0x0A]) \<and> (True \<longrightarrow> pend cm (sw_feed (StyledWriter_writeCommentAfterValueOnSameLine x s)) p)"
    using sw_trail [OF x p] by (auto simp: sw_view_put)
next
  fix N v t and s :: StyledWriter
  assume "plain_text v = Some t"
  then show "StyledWriter_writeValue L (N, v) s = StyledWriter_pushValue t s"
    by (cases v rule: plain_text.cases)
      (auto simp: StyledWriter_writeArrayValue_def array_nodes_def json_size_def map_keys_def)
qed ((rule sw_array sw_object, assumption+) | (simp add: sw_view_def sw_put_def StyledWriter_pushValue_def sw_feed_def sw_before_text
    sw_after_text StyledWriter_indent_def StyledWriter_unindent_def valueToQuotedString_plain blank_take blank_spaces))+

subsection \<open>StyledStreamWriter\<close>

definition ss_view :: "StyledStreamWriter \<Rightarrow> view" where
  "ss_view w = \<lparr>vw_out = ss_document w, vw_kids = ss_childValues w, vw_adding = ss_addChildValues w\<rparr>"

lemma ss_view_sel [simp]:
  "vw_out (ss_view w) = ss_document w" "vw_kids (ss_view w) = ss_childValues w" "vw_adding (ss_view w) = ss_addChildValues w"
  by (simp_all add: ss_view_def)

definition ss_before :: "StyledStreamWriter \<Rightarrow> StyledStreamWriter" where
  "ss_before w = (if \<not> ss_indented w then StyledStreamWriter_writeIndent w else w)\<lparr>ss_indented := True\<rparr>"

lemma ss_write_comment:
  "write_comment ss_put (\<lambda>w. ss_put (ss_indentString w) w) c w = ss_put (comment_lines (ss_indentString w) c) w"
  by (induction c arbitrary: w) (simp_all add: Let_def ss_put_def)

lemma ss_before_text:
  "StyledStreamWriter_writeCommentBeforeValue x w =
    (if hasComment commentBefore (own_note x)
     then (ss_put (comment_lines (ss_indentString w) (getComment commentBefore (own_note x)))
       (if \<not> ss_indented w then StyledStreamWriter_writeIndent w else w))\<lparr>ss_indented := False\<rparr>
     else w)"
  unfolding StyledStreamWriter_writeCommentBeforeValue_def ss_write_comment by (simp add: StyledStreamWriter_writeIndent_def ss_put_def)

definition ss_single :: "string \<Rightarrow> StyledStreamWriter \<Rightarrow> StyledStreamWriter" where
  "ss_single t w = ss_put '' ]'' (ss_put t (ss_put ''[ '' w))"

lemma ss_array:
  assumes "xs \<noteq> []" and "ns = index_nodes N xs" and "length xs < 2 ^ 31"
  shows "StyledStreamWriter_writeValue L (N, ArrayV (enumerate 0 xs)) s =
      (let (multi, s1) = (if length xs * 3 \<ge> rightMargin \<or> list_ex nonempty_container xs then (True, s\<lparr>ss_childValues := []\<rparr>)
             else let (n, s') = measure_children (StyledStreamWriter_writeValue L) (\<lambda>s. vw_kids (ss_view s)) 0 ns (4 + (length ns - 1) * 2)
                    (s\<lparr>ss_childValues := [], ss_addChildValues := True\<rparr>)
                  in (list_ex StyledStreamWriter_hasCommentForValue ns \<or> n \<ge> rightMargin, s'\<lparr>ss_addChildValues := False\<rparr>))
       in if multi then
            let s2 = StyledStreamWriter_indent (StyledStreamWriter_writeWithIndent ''['' s1);
                s3 = each_line (ss_put '','') (\<lambda>e. StyledStreamWriter_writeCommentAfterValueOnSameLine (snd e))
                  (\<lambda>e s. if vw_kids (ss_view s2) \<noteq> []
                     then StyledStreamWriter_writeWithIndent (child_at (vw_kids (ss_view (StyledStreamWriter_writeCommentBeforeValue (snd e) s))) (fst e))
                       (StyledStreamWriter_writeCommentBeforeValue (snd e) s)
                     else (StyledStreamWriter_writeValue L (snd e) (ss_before (StyledStreamWriter_writeCommentBeforeValue (snd e) s)))\<lparr>ss_indented := False\<rparr>)
                  (enumerate 0 ns) s2
            in StyledStreamWriter_writeWithIndent '']'' (StyledStreamWriter_unindent s3)
          else ss_single (join '', '' (map (child_at (vw_kids (ss_view s1))) [0..<length ns])) s1)"
  unfolding ss_view_sel ss_before_def assms(2)
  using assms(1,3)
  by (simp add: array_nodes_enumerate StyledStreamWriter_writeArrayValue_def StyledStreamWriter_isMultineArray_def Let_def
      list_ex_values ss_line_def [abs_def] ss_single_def split: prod.split)

lemma ss_object:
  assumes "m \<noteq> []" and "map_inv m" and "\<forall>e\<in>set m. int (length (fst e)) < 2 ^ 30"
  shows "StyledStreamWriter_writeValue L (N, ObjectV m) s =
      StyledStreamWriter_writeWithIndent ''}'' (StyledStreamWriter_unindent (each_line (ss_put '','')
        (\<lambda>e. StyledStreamWriter_writeCommentAfterValueOnSameLine (entry_node N e))
        (\<lambda>e s. StyledStreamWriter_writeValue L (entry_node N e) (ss_put '' : '' (StyledStreamWriter_writeWithIndent (valueToQuotedString (fst e))
          (StyledStreamWriter_writeCommentBeforeValue (entry_node N e) s)))) m
        (StyledStreamWriter_indent (StyledStreamWriter_writeWithIndent ''{'' s))))"
  using assms(1) each_line_keys [OF assms(2,3), of _ StyledStreamWriter_writeCommentAfterValueOnSameLine N
      "\<lambda>name x w. StyledStreamWriter_writeValue L x (ss_put '' : '' (StyledStreamWriter_writeWithIndent (valueToQuotedString name)
         (StyledStreamWriter_writeCommentBeforeValue x w)))"]
  by (simp add: map_keys_def)

lemmas ss_defs = ss_view_def ss_put_def ss_before_def ss_single_def StyledStreamWriter_pushValue_def
  StyledStreamWriter_writeIndent_def StyledStreamWriter_writeWithIndent_def StyledStreamWriter_indent_def
  StyledStreamWriter_unindent_def ss_before_text StyledStreamWriter_writeCommentAfterValueOnSameLine_def Let_def

definition ss_good :: "StyledStreamWriter \<Rightarrow> bool" where
  "ss_good w \<longleftrightarrow> blank (ss_indentString w) \<and> blank (ss_indentation w)"

text \<open>What begins a line.\<close>

definition ss_indent_text :: "StyledStreamWriter \<Rightarrow> string" where
  "ss_indent_text w = (if ss_indented w then [] else CHR 0x0A # ss_indentString w)"

lemma ss_indent_sep: "ss_good w \<Longrightarrow> pend cm (\<not> ss_indented w) q \<Longrightarrow> sep cm (q @ ss_indent_text w)"
  by (rule pend_indent) (auto simp: ss_good_def ss_indent_text_def is_space_NL)

lemma ss_remark:
  assumes "ss_good s" and x: "remarks cm (\<lambda>c. True) (own_note x)"
  shows "\<exists>p. ss_view (StyledStreamWriter_writeCommentBeforeValue x s) = (ss_view s)\<lparr>vw_out := vw_out (ss_view s) @ p\<rparr> \<and>
    (\<forall>q. pend cm (\<not> ss_indented s) q \<longrightarrow> pend cm (\<not> ss_indented (StyledStreamWriter_writeCommentBeforeValue x s)) (q @ p))"
proof (cases "hasComment commentBefore (own_note x)")
  case True
  let ?c = "comment_lines (ss_indentString s) (getComment commentBefore (own_note x))"
  have "pend cm True (q @ ss_indent_text s @ ?c)" if "pend cm (\<not> ss_indented s) q" for q
    using sep_append [OF ss_indent_sep [OF assms(1) that] remarks_sep(3) [OF x True, of "ss_indentString s"]] assms(1)
    by (simp add: pend_def ss_good_def)
  with True show ?thesis by (intro exI [of _ "ss_indent_text s @ ?c"]) (simp add: ss_defs ss_indent_text_def)
qed (auto simp: ss_defs intro: exI [of _ "[]"])

lemma ss_trail:
  assumes "ss_good s" and x: "remarks cm (\<lambda>c. True) (own_note x)"
  shows "\<exists>p. ss_view (StyledStreamWriter_writeCommentAfterValueOnSameLine x s) = (ss_view s)\<lparr>vw_out := vw_out (ss_view s) @ p\<rparr> \<and>
    sep cm (p @ [CHR 0x0A])"
proof -
  let ?a = "own_note x" and ?i = "ss_indentString s"
  let ?p = "tail_text ?a @ (if hasComment commentAfter ?a then CHR 0x0A # ?i @ getComment commentAfter ?a else [])"
  have "sep cm (?i @ getComment commentAfter ?a @ [CHR 0x0A])" if "hasComment commentAfter ?a"
    using sep_append [OF sep_blank remarks_sep(1) [OF x that]] assms(1) by (simp add: ss_good_def)
  with sep_after_NL [OF sep_tail_text(1) [OF x]] have "sep cm (?p @ [CHR 0x0A])" using sep_tail_text(1) [OF x] by simp
  then show ?thesis by (intro exI [of _ ?p]) (simp add: ss_defs tail_text_def)
qed

interpretation ss: styled_printer cm "remarks cm (\<lambda>c. True)" ss_view ss_good "\<lambda>w. \<not> ss_indented w" "\<lambda>w. \<not> ss_indented w"
  StyledStreamWriter_pushValue StyledStreamWriter_writeWithIndent ss_single "ss_put '' : ''" "ss_put '',''"
  StyledStreamWriter_indent StyledStreamWriter_unindent ss_before "\<lambda>w. w\<lparr>ss_indented := False\<rparr>"
  StyledStreamWriter_writeCommentBeforeValue StyledStreamWriter_writeCommentAfterValueOnSameLine
  StyledStreamWriter_hasCommentForValue
  "\<lambda>w. w\<lparr>ss_childValues := []\<rparr>" "\<lambda>w. w\<lparr>ss_childValues := [], ss_addChildValues := True\<rparr>" "\<lambda>w. w\<lparr>ss_addChildValues := False\<rparr>"
  "\<lambda>xs. length xs * 3 \<ge> rightMargin \<or> list_ex nonempty_container xs"
  "\<lambda>k. NUL \<notin> set k" valueToQuotedString "StyledStreamWriter_writeValue L" for cm L
proof unfold_locales
  fix t and s :: StyledStreamWriter
  assume good: "ss_good s"
  note sep = ss_indent_sep [OF good]
  show "\<exists>a. ss_view (StyledStreamWriter_writeWithIndent t s) = (ss_view s)\<lparr>vw_out := vw_out (ss_view s) @ a @ t\<rparr> \<and>
      (\<forall>q. pend cm (\<not> ss_indented s) q \<longrightarrow> sep cm (q @ a))"
    using sep by (intro exI [of _ "ss_indent_text s"]) (simp add: ss_defs ss_indent_text_def)
  show "\<exists>a. ss_view (ss_before s) = (ss_view s)\<lparr>vw_out := vw_out (ss_view s) @ a\<rparr> \<and>
      (\<forall>q. pend cm (\<not> ss_indented s) q \<longrightarrow> sep cm (q @ a))"
    using sep by (intro exI [of _ "ss_indent_text s"]) (simp add: ss_defs ss_indent_text_def)
  show "\<exists>a b. blank a \<and> blank b \<and> ss_view (ss_single t s) =
      (ss_view s)\<lparr>vw_out := vw_out (ss_view s) @ CHR ''['' # a @ t @ b @ '']''\<rparr>"
    by (intro exI [of _ "'' ''"]) (simp add: ss_defs is_space_def)
  show "\<exists>a b. blank a \<and> blank b \<and> ss_view (ss_put '' : '' s) = (ss_view s)\<lparr>vw_out := vw_out (ss_view s) @ a @ CHR '':'' # b\<rparr>"
    by (intro exI [of _ "'' ''"]) (simp add: ss_defs is_space_def)
  fix x :: Node
  assume x: "remarks cm (\<lambda>c. True) (own_note x)"
  show "\<exists>p. ss_view (StyledStreamWriter_writeCommentBeforeValue x s) = (ss_view s)\<lparr>vw_out := vw_out (ss_view s) @ p\<rparr> \<and>
      (\<forall>q. pend cm (\<not> ss_indented s) q \<longrightarrow> pend cm (\<not> ss_indented (StyledStreamWriter_writeCommentBeforeValue x s)) (q @ p))"
    using ss_remark [OF good x] .
  show "\<exists>p. ss_view (StyledStreamWriter_writeCommentAfterValueOnSameLine x s) = (ss_view s)\<lparr>vw_out := vw_out (ss_view s) @ p\<rparr> \<and>
      sep cm (p @ [CHR 0x0A]) \<and> (\<not> ss_indented s \<longrightarrow> pend cm (\<not> ss_indented (StyledStreamWriter_writeCommentAfterValueOnSameLine x s)) p)"
    using ss_trail [OF good x] by (auto simp: pend_def StyledStreamWriter_writeCommentAfterValueOnSameLine_def Let_def)
next
  fix N v t and s :: StyledStreamWriter
  assume "plain_text v = Some t"
  then show "StyledStreamWriter_writeValue L (N, v) s = StyledStreamWriter_pushValue t s"
    by (cases v rule: plain_text.cases)
      (auto simp: StyledStreamWriter_writeArrayValue_def array_nodes_def json_size_def map_keys_def)
qed ((rule ss_array ss_object, assumption+) | (simp add: ss_defs ss_good_def valueToQuotedString_plain blank_take))+

subsection \<open>BuiltStyledStreamWriter\<close>

definition bs_view :: "BuiltStyledStreamWriter \<Rightarrow> view" where
  "bs_view w = \<lparr>vw_out = bs_sout w, vw_kids = bs_childValues w, vw_adding = bs_addChildValues w\<rparr>"

lemma bs_view_sel [simp]:
  "vw_out (bs_view w) = bs_sout w" "vw_kids (bs_view w) = bs_childValues w" "vw_adding (bs_view w) = bs_addChildValues w"
  by (simp_all add: bs_view_def)

definition bs_before :: "BuiltStyledStreamWriter \<Rightarrow> BuiltStyledStreamWriter" where
  "bs_before w = (if \<not> bs_indented w then BuiltStyledStreamWriter_writeIndent w else w)\<lparr>bs_indented := True\<rparr>"

lemma bs_write_comment:
  "write_comment bs_put (\<lambda>w. bs_put (bs_indentString w) w) c w = bs_put (comment_lines (bs_indentString w) c) w"
  by (induction c arbitrary: w) (simp_all add: Let_def bs_put_def)

lemma bs_before_text:
  "BuiltStyledStreamWriter_writeCommentBeforeValue x w =
    (if bs_cs w \<noteq> CS_None \<and> hasComment commentBefore (own_note x)
     then (bs_put (comment_lines (bs_indentString w) (getComment commentBefore (own_note x)))
       (if \<not> bs_indented w then BuiltStyledStreamWriter_writeIndent w else w))\<lparr>bs_indented := False\<rparr>
     else w)"
  unfolding BuiltStyledStreamWriter_writeCommentBeforeValue_def bs_write_comment by (simp add: BuiltStyledStreamWriter_writeIndent_def bs_put_def)

definition bs_single :: "string \<Rightarrow> BuiltStyledStreamWriter \<Rightarrow> BuiltStyledStreamWriter" where
  "bs_single t w = (let space = (if bs_indentation w \<noteq> [] then '' '' else []) in
     bs_put (space @ '']'') (bs_put t (bs_put (''['' @ space) w)))"

definition bs_colon :: "BuiltStyledStreamWriter \<Rightarrow> BuiltStyledStreamWriter" where
  "bs_colon w = bs_put (bs_colonSymbol w) w"

definition bs_clear :: "BuiltStyledStreamWriter \<Rightarrow> BuiltStyledStreamWriter" where
  "bs_clear w = (if bs_cs w = CS_All then w else w\<lparr>bs_childValues := []\<rparr>)"

text \<open>
  A built writer that writes nulls and keeps to white space around the colon. With comments on it
  puts every array on lines of its own and never keeps an element back.
\<close>

definition bs_good :: "CommentStyle \<Rightarrow> string \<Rightarrow> BuiltStyledStreamWriter \<Rightarrow> bool" where
  "bs_good cs i w \<longleftrightarrow> bs_cs w = cs \<and> bs_endingLineFeedSymbol w = [] \<and> blank (bs_indentString w) \<and> blank i \<and>
     bs_indentation w = i \<and> bs_nullSymbol w = ''null'' \<and>
     (\<exists>a b. blank a \<and> blank b \<and> bs_colonSymbol w = a @ CHR '':'' # b) \<and>
     (cs = CS_All \<longrightarrow> bs_childValues w = [] \<and> \<not> bs_addChildValues w)"

text \<open>Without an indentation there are no line feeds, and nothing ends a comment that needs one; without comments, any will do.\<close>

definition bs_notes :: "bool \<Rightarrow> CommentStyle \<Rightarrow> string \<Rightarrow> Annotation \<Rightarrow> bool" where
  "bs_notes cm cs i a \<longleftrightarrow> cs = CS_None \<or> remarks cm (\<lambda>c. gap c \<or> i \<noteq> []) a"

definition bs_feed :: "BuiltStyledStreamWriter \<Rightarrow> bool" where
  "bs_feed w \<longleftrightarrow> \<not> bs_indented w \<and> bs_indentation w \<noteq> []"

lemma bs_array:
  assumes "xs \<noteq> []" and "ns = index_nodes N xs" and "bs_good cs i s" and "length xs < 2 ^ 31"
  shows "BuiltStyledStreamWriter_writeValue L (N, ArrayV (enumerate 0 xs)) s =
      (let (multi, s1) = (if cs = CS_All \<or> length xs * 3 \<ge> rightMargin \<or> list_ex nonempty_container xs then (True, bs_clear s)
             else let (n, s') = measure_children (BuiltStyledStreamWriter_writeValue L) (\<lambda>s. vw_kids (bs_view s)) 0 ns (4 + (length ns - 1) * 2)
                    (s\<lparr>bs_childValues := [], bs_addChildValues := True\<rparr>)
                  in (list_ex BuiltStyledStreamWriter_hasCommentForValue ns \<or> n \<ge> rightMargin, s'\<lparr>bs_addChildValues := False\<rparr>))
       in if multi then
            let s2 = BuiltStyledStreamWriter_indent (BuiltStyledStreamWriter_writeWithIndent ''['' s1);
                s3 = each_line (bs_put '','') (\<lambda>e. BuiltStyledStreamWriter_writeCommentAfterValueOnSameLine (snd e))
                  (\<lambda>e s. if vw_kids (bs_view s2) \<noteq> []
                     then BuiltStyledStreamWriter_writeWithIndent (child_at (vw_kids (bs_view (BuiltStyledStreamWriter_writeCommentBeforeValue (snd e) s))) (fst e))
                       (BuiltStyledStreamWriter_writeCommentBeforeValue (snd e) s)
                     else (BuiltStyledStreamWriter_writeValue L (snd e) (bs_before (BuiltStyledStreamWriter_writeCommentBeforeValue (snd e) s)))\<lparr>bs_indented := False\<rparr>)
                  (enumerate 0 ns) s2
            in BuiltStyledStreamWriter_writeWithIndent '']'' (BuiltStyledStreamWriter_unindent s3)
          else bs_single (join '', '' (map (child_at (vw_kids (bs_view s1))) [0..<length ns])) s1)"
  unfolding bs_view_sel bs_before_def assms(2)
  using assms(1,3,4)
  by (simp add: array_nodes_enumerate BuiltStyledStreamWriter_writeArrayValue_def BuiltStyledStreamWriter_isMultineArray_def Let_def
      list_ex_values bs_line_def [abs_def] bs_single_def bs_clear_def bs_good_def split: prod.split)

lemma bs_object:
  assumes "m \<noteq> []" and "map_inv m" and "\<forall>e\<in>set m. int (length (fst e)) < 2 ^ 30"
  shows "BuiltStyledStreamWriter_writeValue L (N, ObjectV m) s =
      BuiltStyledStreamWriter_writeWithIndent ''}'' (BuiltStyledStreamWriter_unindent (each_line (bs_put '','')
        (\<lambda>e. BuiltStyledStreamWriter_writeCommentAfterValueOnSameLine (entry_node N e))
        (\<lambda>e s. BuiltStyledStreamWriter_writeValue L (entry_node N e) (bs_colon (BuiltStyledStreamWriter_writeWithIndent (valueToQuotedStringN (fst e))
          (BuiltStyledStreamWriter_writeCommentBeforeValue (entry_node N e) s)))) m
        (BuiltStyledStreamWriter_indent (BuiltStyledStreamWriter_writeWithIndent ''{'' s))))"
  using assms(1) each_line_keys [OF assms(2,3), of _ BuiltStyledStreamWriter_writeCommentAfterValueOnSameLine N
      "\<lambda>name x w. BuiltStyledStreamWriter_writeValue L x (bs_colon (BuiltStyledStreamWriter_writeWithIndent (valueToQuotedStringN name)
         (BuiltStyledStreamWriter_writeCommentBeforeValue x w)))"]
  by (simp add: map_keys_def bs_colon_def)

lemmas bs_defs = bs_view_def bs_put_def bs_before_def bs_single_def bs_colon_def bs_clear_def bs_feed_def
  BuiltStyledStreamWriter_pushValue_def BuiltStyledStreamWriter_writeIndent_def
  BuiltStyledStreamWriter_writeWithIndent_def BuiltStyledStreamWriter_indent_def BuiltStyledStreamWriter_unindent_def
  bs_before_text BuiltStyledStreamWriter_writeCommentAfterValueOnSameLine_def Let_def

definition bs_indent_text :: "BuiltStyledStreamWriter \<Rightarrow> string" where
  "bs_indent_text w = (if bs_indentation w = [] then [] else CHR 0x0A # bs_indentString w)"

definition bs_line_text :: "BuiltStyledStreamWriter \<Rightarrow> string" where
  "bs_line_text w = (if bs_indented w then [] else bs_indent_text w)"

lemma bs_line_sep: "bs_good cs i w \<Longrightarrow> pend cm (bs_feed w) q \<Longrightarrow> sep cm (q @ bs_line_text w)"
  by (rule pend_indent) (auto simp: bs_good_def bs_line_text_def bs_indent_text_def bs_feed_def is_space_NL)

lemma bs_remark:
  assumes "bs_good cs i s" and "bs_notes cm cs i (own_note x)"
  shows "\<exists>p. bs_view (BuiltStyledStreamWriter_writeCommentBeforeValue x s) = (bs_view s)\<lparr>vw_out := vw_out (bs_view s) @ p\<rparr> \<and>
    (\<forall>q. pend cm (bs_feed s) q \<longrightarrow> pend cm (bs_feed (BuiltStyledStreamWriter_writeCommentBeforeValue x s)) (q @ p))"
proof (cases "cs \<noteq> CS_None \<and> hasComment commentBefore (own_note x)")
  case True
  then have x: "remarks cm (\<lambda>c. gap c \<or> i \<noteq> []) (own_note x)" and c: "hasComment commentBefore (own_note x)"
    using assms(2) by (simp_all add: bs_notes_def)
  let ?c = "comment_lines (bs_indentString s) (getComment commentBefore (own_note x))"
  have "pend cm (bs_indentation s \<noteq> []) (q @ bs_line_text s @ ?c)" if "pend cm (bs_feed s) q" for q
    using sep_append [OF bs_line_sep [OF assms(1) that] remarks_sep(3) [OF x c, of "bs_indentString s"]]
      sep_append [OF bs_line_sep [OF assms(1) that] remarks_sep(5) [OF x c, of "bs_indentString s"]] remarks_sep(2) [OF x c] assms(1)
    by (auto simp: pend_def bs_good_def)
  moreover have "bs_view (BuiltStyledStreamWriter_writeCommentBeforeValue x s) =
      (bs_view s)\<lparr>vw_out := vw_out (bs_view s) @ bs_line_text s @ ?c\<rparr>"
    and "bs_feed (BuiltStyledStreamWriter_writeCommentBeforeValue x s) \<longleftrightarrow> bs_indentation s \<noteq> []"
    using True assms(1) by (simp_all add: bs_defs bs_line_text_def bs_indent_text_def bs_good_def)
  ultimately show ?thesis by auto
next
  case False
  then show ?thesis using assms(1) by (intro exI [of _ "[]"]) (auto simp: bs_defs bs_good_def)
qed

lemma bs_trail_text:
  assumes "bs_good cs i s" and "remarks cm (\<lambda>c. gap c \<or> i \<noteq> []) a"
    and "p = tail_text a @ (if hasComment commentAfter a then bs_indent_text s @ getComment commentAfter a else [])"
  shows "sep cm (p @ [CHR 0x0A])" and "i = [] \<Longrightarrow> sep cm p"
proof -
  have i: "bs_indentation s = i" "blank (bs_indentString s)" using assms(1) by (simp_all add: bs_good_def)
  have empty: "sep cm (tail_text a)" "hasComment commentAfter a \<Longrightarrow> sep cm (getComment commentAfter a)" if "i = []"
    using sep_tail_text(2) [OF assms(2)] remarks_sep(2,4) [OF assms(2)] that by auto
  then show "sep cm p" if "i = []" using that by (auto simp: assms(3) bs_indent_text_def i sep_append)
  have "sep cm (tail_text a @ bs_indent_text s)" if "hasComment commentAfter a"
    using empty(1) sep_after_NL [OF sep_tail_text(1) [OF assms(2)] sep_blank [OF i(2)]] by (auto simp: bs_indent_text_def i(1))
  then show "sep cm (p @ [CHR 0x0A])"
    using sep_append [OF _ remarks_sep(1) [OF assms(2)], of "tail_text a @ bs_indent_text s"] sep_tail_text(1) [OF assms(2)]
    by (auto simp: assms(3))
qed

lemma bs_trail:
  assumes "bs_good cs i s" and "bs_notes cm cs i (own_note x)"
  shows "\<exists>p. bs_view (BuiltStyledStreamWriter_writeCommentAfterValueOnSameLine x s) = (bs_view s)\<lparr>vw_out := vw_out (bs_view s) @ p\<rparr> \<and>
    sep cm (p @ [CHR 0x0A]) \<and> (\<not> bs_indented s \<longrightarrow> pend cm (bs_feed (BuiltStyledStreamWriter_writeCommentAfterValueOnSameLine x s)) p)"
proof (cases "cs = CS_None")
  case True
  then show ?thesis using assms(1) by (intro exI [of _ "[]"]) (simp add: bs_defs bs_good_def pend_def sep_blank is_space_NL)
next
  case False
  let ?a = "own_note x"
  let ?p = "tail_text ?a @ (if hasComment commentAfter ?a then bs_indent_text s @ getComment commentAfter ?a else [])"
  have "remarks cm (\<lambda>c. gap c \<or> i \<noteq> []) ?a" using assms(2) False by (simp add: bs_notes_def)
  from bs_trail_text [OF assms(1) this refl] False assms(1) show ?thesis
    by (intro exI [of _ ?p]) (auto simp: bs_defs bs_good_def bs_indent_text_def tail_text_def pend_def)
qed

interpretation bs: styled_printer cm "bs_notes cm cs i" bs_view "bs_good cs i" "\<lambda>w. \<not> bs_indented w" bs_feed
  BuiltStyledStreamWriter_pushValue BuiltStyledStreamWriter_writeWithIndent bs_single bs_colon "bs_put '',''"
  BuiltStyledStreamWriter_indent BuiltStyledStreamWriter_unindent bs_before "\<lambda>w. w\<lparr>bs_indented := False\<rparr>"
  BuiltStyledStreamWriter_writeCommentBeforeValue BuiltStyledStreamWriter_writeCommentAfterValueOnSameLine
  BuiltStyledStreamWriter_hasCommentForValue bs_clear
  "\<lambda>w. w\<lparr>bs_childValues := [], bs_addChildValues := True\<rparr>" "\<lambda>w. w\<lparr>bs_addChildValues := False\<rparr>"
  "\<lambda>xs. cs = CS_All \<or> length xs * 3 \<ge> rightMargin \<or> list_ex nonempty_container xs"
  "\<lambda>k. True" valueToQuotedStringN "BuiltStyledStreamWriter_writeValue L" for cm L cs i
proof unfold_locales
  fix t and s :: BuiltStyledStreamWriter
  assume good: "bs_good cs i s"
  note sep = bs_line_sep [OF good]
  show "\<exists>a. bs_view (BuiltStyledStreamWriter_writeWithIndent t s) = (bs_view s)\<lparr>vw_out := vw_out (bs_view s) @ a @ t\<rparr> \<and>
      (\<forall>q. pend cm (bs_feed s) q \<longrightarrow> sep cm (q @ a))"
    using sep by (intro exI [of _ "bs_line_text s"]) (simp add: bs_defs bs_line_text_def bs_indent_text_def)
  show "\<exists>a. bs_view (bs_before s) = (bs_view s)\<lparr>vw_out := vw_out (bs_view s) @ a\<rparr> \<and>
      (\<forall>q. pend cm (bs_feed s) q \<longrightarrow> sep cm (q @ a))"
    using sep by (intro exI [of _ "bs_line_text s"]) (simp add: bs_defs bs_line_text_def bs_indent_text_def)
  show "\<exists>a b. blank a \<and> blank b \<and> bs_view (bs_single t s) = (bs_view s)\<lparr>vw_out := vw_out (bs_view s) @ CHR ''['' # a @ t @ b @ '']''\<rparr>"
    by (intro exI [of _ "if bs_indentation s = [] then [] else '' ''"]) (simp add: bs_defs is_space_def)
  show "\<exists>a b. blank a \<and> blank b \<and> bs_view (bs_colon s) = (bs_view s)\<lparr>vw_out := vw_out (bs_view s) @ a @ CHR '':'' # b\<rparr>"
    using good by (auto simp: bs_defs bs_good_def)
  fix x :: Node
  assume x: "bs_notes cm cs i (own_note x)"
  show "\<exists>p. bs_view (BuiltStyledStreamWriter_writeCommentBeforeValue x s) = (bs_view s)\<lparr>vw_out := vw_out (bs_view s) @ p\<rparr> \<and>
      (\<forall>q. pend cm (bs_feed s) q \<longrightarrow> pend cm (bs_feed (BuiltStyledStreamWriter_writeCommentBeforeValue x s)) (q @ p))"
    using bs_remark [OF good x] .
  show "\<exists>p. bs_view (BuiltStyledStreamWriter_writeCommentAfterValueOnSameLine x s) = (bs_view s)\<lparr>vw_out := vw_out (bs_view s) @ p\<rparr> \<and>
      sep cm (p @ [CHR 0x0A]) \<and> (\<not> bs_indented s \<longrightarrow> pend cm (bs_feed (BuiltStyledStreamWriter_writeCommentAfterValueOnSameLine x s)) p)"
    using bs_trail [OF good x] .
next
  fix N v t and s :: BuiltStyledStreamWriter
  assume "bs_good cs i s" "plain_text v = Some t"
  then show "BuiltStyledStreamWriter_writeValue L (N, v) s = BuiltStyledStreamWriter_pushValue t s"
    by (cases v rule: plain_text.cases)
      (auto simp: BuiltStyledStreamWriter_writeArrayValue_def array_nodes_def json_size_def map_keys_def bs_good_def)
qed ((rule bs_array bs_object, assumption+) | (simp add: bs_defs bs_good_def blank_take))+

section \<open>The reader inverts the indenting writers\<close>

lemma parse_StyledWriter:
  assumes "canonical v" and "all_names (\<lambda>k. NUL \<notin> set k) v" and "all_notes (remarks (allowComments F) sw_comment) N v"
    and "int (nest v) \<le> stackLimit F" and "strictRoot F \<longrightarrow> isArray v \<or> isObject v"
  shows "OurReader_parse F L (StyledWriter_write L (N, v) w) v0 = Some (Ret (True, [], v))"
proof -
  define w0 where "w0 = w\<lparr>sw_document := [], sw_addChildValues := False, sw_indentString := []\<rparr>"
  let ?cm = "allowComments F"
  have w0: "sw_document w0 = []" "sw_addChildValues w0 = False" "sw_indentString w0 = []" by (simp_all add: w0_def)
  obtain p where p: "StyledWriter_writeCommentBeforeValue (N, v) w0 = sw_put p w0" by (metis sw_before_text sw_put_put(2))
  have "pend ?cm (sw_feed (sw_put p w0)) p"
    using sw_remark [OF _ _ pend_Nil p, of ?cm] all_notes_own [OF assms(3)] w0 by (simp add: own_note_def)
  moreover have "p = [] \<or> last p = CHR 0x0A" using p by (auto simp: sw_before_text sw_put_inj split: if_splits)
  then have "\<not> sw_feed (sw_put p w0)" using w0(1) by (auto simp: sw_feed_def sw_put_def)
  ultimately have "sep ?cm p" by (simp add: pend_def)
  obtain a t b where "sep ?cm a" "layout ?cm v t" and b: "sep ?cm (b @ [CHR 0x0A])"
      and doc: "sw_document (StyledWriter_writeCommentAfterValueOnSameLine (N, v) (StyledWriter_writeValue L (N, v) (sw_put p w0))) =
        p @ a @ t @ b"
    by (rule sw.emit_root [where v = v and N = N and s = "sw_put p w0" and cm = ?cm and L = L])
      (use assms(1-3) w0 in \<open>simp_all add: sw_put_def\<close>)
  then have "OurReader_parse F L ((p @ a) @ t @ (b @ [CHR 0x0A])) v0 = Some (Ret (True, [], v))"
    using \<open>sep ?cm p\<close> sep_append [OF b, of "[CHR 0x0A]"]
    by (intro parse_layout [OF _ assms(4,5)]) (simp_all add: sep_append sep_blank is_space_NL)
  then show ?thesis using doc by (simp add: StyledWriter_write_def w0_def [symmetric] p Let_def sw_put_def [of "[CHR 0x0A]"])
qed

lemma parse_StyledStreamWriter:
  assumes "canonical v" and "all_names (\<lambda>k. NUL \<notin> set k) v" and "all_notes (remarks (allowComments F) (\<lambda>c. True)) N v"
    and "int (nest v) \<le> stackLimit F" and "strictRoot F \<longrightarrow> isArray v \<or> isObject v" and "blank (ss_indentation w)"
  shows "OurReader_parse F L (StyledStreamWriter_write L (N, v) w) v0 = Some (Ret (True, [], v))"
proof -
  let ?w = "w\<lparr>ss_document := [], ss_addChildValues := False, ss_indentString := [], ss_indented := True\<rparr>" and ?cm = "allowComments F"
  let ?w2 = "ss_before (StyledStreamWriter_writeCommentBeforeValue (N, v) ?w)"
  obtain p where p: "sep ?cm p" "ss_document ?w2 = ss_document ?w @ p" "ss_good ?w2" "\<not> ss_addChildValues ?w2"
    by (rule ss.root_before [of ?cm N ?w v]) (use all_notes_own [OF assms(3)] assms(6) in \<open>simp_all add: ss_good_def\<close>)
  obtain a t b where "sep ?cm a" "layout ?cm v t" and b: "sep ?cm (b @ [CHR 0x0A])"
      and doc: "ss_document (StyledStreamWriter_writeCommentAfterValueOnSameLine (N, v) (StyledStreamWriter_writeValue L (N, v) ?w2)) =
        ss_document ?w2 @ a @ t @ b"
    by (rule ss.emit_root [where v = v and N = N and s = ?w2 and cm = ?cm and L = L]) (use assms(1-3) p(3,4) in simp_all)
  then have "OurReader_parse F L ((p @ a) @ t @ (b @ [CHR 0x0A])) v0 = Some (Ret (True, [], v))"
    using p(1) sep_append [OF b, of "[CHR 0x0A]"]
    by (intro parse_layout [OF _ assms(4,5)]) (simp_all add: sep_append sep_blank is_space_NL)
  then show ?thesis using doc p(2) by (simp add: StyledStreamWriter_write_def ss_before_def [symmetric] ss_put_def [of "[CHR 0x0A]"])
qed

lemma parse_BuiltStyledStreamWriter:
  assumes "canonical v" and "all_notes (bs_notes (allowComments F) cs indentation) N v"
    and "int (nest v) \<le> stackLimit F" and "strictRoot F \<longrightarrow> isArray v \<or> isObject v"
    and "w = new_BuiltStyledStreamWriter indentation cs colonSymbol ''null'' [] usf" and "blank indentation"
    and "colonSymbol \<in> {'' : '', '': '', '':''}"
  shows "OurReader_parse F L (BuiltStyledStreamWriter_write L (N, v) w) v0 = Some (Ret (True, [], v))"
proof -
  let ?w = "w\<lparr>bs_sout := [], bs_addChildValues := False, bs_indented := True, bs_indentString := []\<rparr>" and ?cm = "allowComments F"
  let ?w2 = "bs_before (BuiltStyledStreamWriter_writeCommentBeforeValue (N, v) ?w)"
  let ?w3 = "BuiltStyledStreamWriter_writeCommentAfterValueOnSameLine (N, v) (BuiltStyledStreamWriter_writeValue L (N, v) ?w2)"
  have "\<exists>a b. blank a \<and> blank b \<and> colonSymbol = a @ CHR '':'' # b"
    using assms(7) by (intro exI [of _ "takeWhile is_space colonSymbol"] exI [of _ "tl (dropWhile is_space colonSymbol)"])
      (auto simp: is_space_def)
  then have good: "bs_good cs indentation ?w" using assms(5,6) by (simp add: bs_good_def new_BuiltStyledStreamWriter_def)
  have names: "all_names (\<lambda>k. True) v" by (induction v) (fastforce simp: list_all_iff)+
  obtain p where p: "sep ?cm p" "bs_sout ?w2 = bs_sout ?w @ p" "bs_good cs indentation ?w2" "\<not> bs_addChildValues ?w2"
    by (rule bs.root_before [of ?cm cs indentation N ?w v]) (use all_notes_own [OF assms(2)] good in simp_all)
  obtain a t b where "sep ?cm a" "layout ?cm v t" and b: "sep ?cm (b @ [CHR 0x0A])" "bs_good cs indentation ?w3"
      and doc: "bs_sout ?w3 = bs_sout ?w2 @ a @ t @ b"
    by (rule bs.emit_root [where v = v and N = N and s = ?w2 and cm = ?cm and L = L and cs = cs and i = indentation])
      (use assms(1,2) names p(3,4) in simp_all)
  then have "OurReader_parse F L ((p @ a) @ t @ b) v0 = Some (Ret (True, [], v))"
    using p(1) by (intro parse_layout [OF _ assms(3,4)]) (simp_all add: sep_append)
  moreover have "bs_endingLineFeedSymbol ?w3 = []" using b(2) by (simp add: bs_good_def)
  ultimately show ?thesis using doc p(2) by (simp add: BuiltStyledStreamWriter_write_def bs_before_def [symmetric] bs_put_def Let_def)
qed

text \<open>What \<^verbatim>\<open>newStreamWriter\<close> builds from any settings it accepts.\<close>

lemma newStreamWriter_shape:
  assumes "newStreamWriter L settings = Ret w"
  shows "w = new_BuiltStyledStreamWriter (bs_indentation w) (bs_cs w) (bs_colonSymbol w) (bs_nullSymbol w) [] (bs_useSpecialFloats w)"
    and "bs_colonSymbol w \<in> {'' : '', '': '', '':''}"
proof -
  from assms obtain i cs eyc n u
    where w: "w = new_BuiltStyledStreamWriter i cs (if eyc then '': '' else if i = [] then '':'' else '' : '') n [] u"
    unfolding newStreamWriter_def cxx_bind_eq_Ret Let_def cxx.inject by blast
  show "w = new_BuiltStyledStreamWriter (bs_indentation w) (bs_cs w) (bs_colonSymbol w) (bs_nullSymbol w) [] (bs_useSpecialFloats w)"
    and "bs_colonSymbol w \<in> {'' : '', '': '', '':''}"
    by (simp_all add: w new_BuiltStyledStreamWriter_def)
qed

lemma parse_newStreamWriter:
  assumes "canonical v" and "newStreamWriter L settings = Ret w"
    and "all_notes (bs_notes (allowComments F) (bs_cs w) (bs_indentation w)) N v"
    and "int (nest v) \<le> stackLimit F" and "strictRoot F \<longrightarrow> isArray v \<or> isObject v"
    and "blank (bs_indentation w)" and "bs_nullSymbol w = ''null''"
  shows "OurReader_parse F L (BuiltStyledStreamWriter_write L (N, v) w) v0 = Some (Ret (True, [], v))"
  using parse_BuiltStyledStreamWriter [OF assms(1,3,4,5) newStreamWriter_shape(1) [OF assms(2), unfolded assms(7)] assms(6)
    newStreamWriter_shape(2) [OF assms(2)]] .

lemma bs_notes_indented: "remarks cm (\<lambda>c. True) a \<Longrightarrow> i \<noteq> [] \<Longrightarrow> bs_notes cm cs i a"
  by (auto simp: bs_notes_def remarks_def)

lemma parse_stream_insert:
  assumes "canonical v" and "all_notes (remarks (allowComments F) (\<lambda>c. True)) N v"
    and "int (nest v) \<le> stackLimit F" and "strictRoot F \<longrightarrow> isArray v \<or> isObject v"
  shows "\<exists>s. stream_insert L (N, v) = Ret s \<and> OurReader_parse F L s v0 = Some (Ret (True, [], v))"
proof -
  let ?w = "new_BuiltStyledStreamWriter [CHR 0x09] CS_All '' : '' ''null'' [] False"
  have "stream_insert L (N, v) = Ret (BuiltStyledStreamWriter_write L (N, v) ?w)"
    using default_stream_writer [of L] by (auto simp: stream_insert_def writeString_def cxx_simps)
  moreover have "OurReader_parse F L (BuiltStyledStreamWriter_write L (N, v) ?w) v0 = Some (Ret (True, [], v))"
    using all_notes_mono [OF assms(2) bs_notes_indented]
    by (intro parse_BuiltStyledStreamWriter [OF assms(1) _ assms(3,4) refl]) (simp_all add: is_space_def)
  ultimately show ?thesis by blast
qed

text \<open>\<^verbatim>\<open>operator>>\<close> inverts \<^verbatim>\<open>operator<<\<close>.\<close>

lemma stream_extract_insert:
  assumes "canonical v" and "all_notes (remarks True (\<lambda>c. True)) N v" and "nest v \<le> 1000" and "stream_insert L (N, v) = Ret s"
  shows "stream_extract L s v0 = Ret v"
proof -
  have "OurReader_parse default_features L s v0 = Some (Ret (True, [], v))"
    using parse_stream_insert [OF assms(1), of default_features N L v0] assms(2-4) by (auto simp: default_features_def)
  from stream_extract_Ret [OF this] show ?thesis by simp
qed

text \<open>The two conditions on line comments are needed. \<^verbatim>\<open>StyledWriter::writeIndent\<close> takes a document that ends in a space
  for indented already, so a line comment that ends in one goes on over the next element.\<close>

lemma StyledWriter_swallows_element:
  "let L = \<lparr>scan_lf = (\<lambda>_. None), print_g17 = (\<lambda>_. [])\<rparr>;
       N = (\<lambda>p. if p = [Step_index 0] then no_annotation\<lparr>an_comments := [commentAfterOnSameLine \<mapsto> ''//c '']\<rparr> else no_annotation);
       doc = StyledWriter_write L (N, ArrayV [(0, IntV 1), (1, IntV 2)]) new_StyledWriter
   in (case OurReader_parse default_features L doc NullV of Some (Ret (ok, errors, v)) \<Rightarrow> \<not> ok | _ \<Rightarrow> False)"
  by code_simp

text \<open>The built writer without indentation writes no line feed at all, so a line comment before a value swallows it.\<close>

lemma BuiltStyledStreamWriter_swallows_value:
  "let L = \<lparr>scan_lf = (\<lambda>_. None), print_g17 = (\<lambda>_. [])\<rparr>
   in BuiltStyledStreamWriter_write L (\<lambda>p. no_annotation\<lparr>an_comments := [commentBefore \<mapsto> ''//c'']\<rparr>, BoolV True)
     (new_BuiltStyledStreamWriter [] CS_All '':'' ''null'' [] False) = ''//ctrue''"
  by code_simp

end
