(* ===== verification/Json_Rewrite.thy ===== *)
theory Json_Rewrite
  imports Json_Collecting Json_Styled_Roundtrip
begin

text \<open>
  A document read with its comments and written again. The comments that the reader collects from a
  document whose last line is ended are gaps, so what the indenting writers write between the tokens is
  skipped when it is read.
\<close>

section \<open>The text of a comment\<close>

lemma normalize_Cons:
  "normalize_loop (c # s) =
     (if c = CHR 0x0D then CHR 0x0A # normalize_loop (if s \<noteq> [] \<and> hd s = CHR 0x0A then tl s else s) else c # normalize_loop s)"
  by (cases s) simp_all

lemmas normalize_eqs = normalize_loop.simps(1) normalize_Cons

declare normalize_loop.simps(2) [simp del]

lemma normalize_induct [case_names Nil Cons]:
  assumes "P []" and "\<And>c s. P s \<Longrightarrow> P (tl s) \<Longrightarrow> P (c # s)"
  shows "P s"
proof -
  have "P s \<and> P (tl s)" using assms by (induction s) simp_all
  then show ?thesis ..
qed

lemma normalize_append: "u \<noteq> [] \<Longrightarrow> hd u \<noteq> CHR 0x0A \<Longrightarrow> normalize_loop (s @ u) = normalize_loop s @ normalize_loop u"
proof (induction s rule: normalize_induct)
  case (Cons c s)
  then show ?case by (cases s) (simp_all add: normalize_Cons)
qed simp

lemma normalize_plain: "CHR 0x0D \<notin> set s \<Longrightarrow> normalize_loop (s @ u) = s @ normalize_loop u"
  by (induction s) (auto simp: normalize_Cons)

lemma peek_normalize: "peekChar (normalize_loop s) = CHR ''/'' \<longleftrightarrow> peekChar s = CHR ''/''"
  by (cases s) (simp_all add: peekChar_def normalize_Cons)

lemma closes_normalize: "closes (normalize_loop s) \<Longrightarrow> closes s"
proof (induction s rule: normalize_induct)
  case (Cons c s)
  then show ?case by (cases s) (auto simp: normalize_Cons [of c] peek_normalize split: if_splits)
qed simp

lemma set_normalize: "set (normalize_loop s) \<subseteq> insert (CHR 0x0A) (set s)"
proof (induction s rule: normalize_induct)
  case (Cons c s)
  then show ?case by (cases s) (auto simp: normalize_Cons [of c])
qed simp

lemma cStyle_split:
  assumes "readCStyleComment s = (True, r)"
  obtains t where "s = t @ CHR ''*'' # CHR ''/'' # r" "\<not> closes t"
proof -
  have "\<exists>t. s = t @ CHR ''*'' # CHR ''/'' # r \<and> \<not> closes t" if "cStyle_loop s = CHR ''/'' # r" for s
    using that
  proof (induction s)
    case (Cons c s)
    show ?case
    proof (cases "c = CHR ''*'' \<and> peekChar s = CHR ''/''")
      case True
      with Cons.prems show ?thesis by (intro exI [of _ "[]"]) simp
    next
      case False
      with Cons obtain t where "s = t @ CHR ''*'' # CHR ''/'' # r" "\<not> closes t" by auto
      with False show ?thesis by (intro exI [of _ "c # t"]) (cases t; auto simp: peekChar_def NUL_def)
    qed
  qed simp
  moreover have "cStyle_loop s = CHR ''/'' # r"
    using assms by (cases "cStyle_loop s") (auto simp: readCStyleComment_def getNextChar_def NUL_def)
  ultimately show thesis using that by blast
qed

lemma cpp_split:
  assumes "s \<noteq> []" and "last s = CHR 0x0A"
  obtains t e where "s = t @ e @ readCppStyleComment s" "CHR 0x0A \<notin> set t" "CHR 0x0D \<notin> set t"
    "e \<in> {[CHR 0x0A], [CHR 0x0D], [CHR 0x0D, CHR 0x0A]}"
proof -
  have "\<exists>t e. s = t @ e @ readCppStyleComment s \<and> CHR 0x0A \<notin> set t \<and> CHR 0x0D \<notin> set t \<and>
      e \<in> {[CHR 0x0A], [CHR 0x0D], [CHR 0x0D, CHR 0x0A]}"
    using assms
  proof (induction s)
    case (Cons c s)
    show ?case
    proof (cases "c = CHR 0x0A \<or> c = CHR 0x0D")
      case True
      then show ?thesis
        by (intro exI [of _ "[]"] exI [of _ "c # (if c = CHR 0x0D \<and> peekChar s = CHR 0x0A then [CHR 0x0A] else [])"])
          (cases s; auto simp: getNextChar_def peekChar_def NUL_def)
    next
      case False
      then have "s \<noteq> []" "last s = CHR 0x0A" using Cons.prems by (auto split: if_splits)
      with Cons.IH obtain t e where "s = t @ e @ readCppStyleComment s" "CHR 0x0A \<notin> set t" "CHR 0x0D \<notin> set t"
          "e \<in> {[CHR 0x0A], [CHR 0x0D], [CHR 0x0D, CHR 0x0A]}" by blast
      with False show ?thesis by (intro exI [of _ "c # t"] exI [of _ e]) auto
    qed
  qed simp
  then show thesis using that by blast
qed

lemma normalizeEOL_prefix: "normalizeEOL (c @ r) r = normalize_loop c"
  by (simp add: normalizeEOL_def)

lemma gap_comment:
  assumes "readComment s = (True, r)" and "s \<noteq> []" and "last s = CHR 0x0A"
  shows "gap (normalizeEOL (CHR ''/'' # s) r)"
proof -
  obtain c s' where s: "s = c # s'" using assms(2) by (cases s) simp_all
  show ?thesis
  proof (cases "c = CHR ''*''")
    case True
    then have "readCStyleComment s' = (True, r)" using assms(1) by (simp add: readComment_def s getNextChar_def)
    then obtain t where t: "s' = t @ CHR ''*'' # CHR ''/'' # r" "\<not> closes t" by (rule cStyle_split)
    have "CHR ''/'' # s = (CHR ''/'' # CHR ''*'' # t @ ''*/'') @ r" by (simp add: s True t)
    then have "normalizeEOL (CHR ''/'' # s) r = CHR ''/'' # CHR ''*'' # normalize_loop t @ CHR ''*'' # CHR ''/'' # []"
      using normalizeEOL_prefix [of "CHR ''/'' # CHR ''*'' # t @ ''*/''" r] normalize_append [of "''*/''" t] by (simp add: normalize_eqs)
    then show ?thesis using gap.block [OF _ gap.empty, of "normalize_loop t"] closes_normalize [of t] t(2) by auto
  next
    case False
    then have c: "c = CHR ''/''" "r = readCppStyleComment s'"
      using assms(1) by (auto simp: readComment_def s getNextChar_def split: if_splits)
    then have "s' \<noteq> []" "last s' = CHR 0x0A" using assms(3) s by (auto split: if_splits)
    then obtain t e where t: "s' = t @ e @ readCppStyleComment s'" "CHR 0x0A \<notin> set t" "CHR 0x0D \<notin> set t"
        "e \<in> {[CHR 0x0A], [CHR 0x0D], [CHR 0x0D, CHR 0x0A]}" by (rule cpp_split)
    have "CHR ''/'' # s = (CHR ''/'' # CHR ''/'' # t @ e) @ r" using t(1) by (simp add: s c)
    moreover have "normalize_loop e = [CHR 0x0A]" using t(4) by (auto simp: normalize_eqs)
    ultimately have "normalizeEOL (CHR ''/'' # s) r = CHR ''/'' # CHR ''/'' # t @ CHR 0x0A # []"
      using normalizeEOL_prefix [of "CHR ''/'' # CHR ''/'' # t @ e" r] t(3) by (simp add: normalize_Cons [of "CHR ''/''"] normalize_plain)
    then show ?thesis using gap.line [OF t(2,3) gap.empty] by simp
  qed
qed

section \<open>Reading a document whose last line is ended\<close>

text \<open>What is known of the text still to be read, and of the comments in it.\<close>

definition ended :: "OurFeatures \<Rightarrow> string \<Rightarrow> bool" where
  "ended F s \<longleftrightarrow> no_quote F s \<and> (s = [] \<or> last s = CHR 0x0A) \<and> NUL \<notin> set s"

definition plain_gap :: "string \<Rightarrow> bool" where
  "plain_gap c \<longleftrightarrow> gap c \<and> NUL \<notin> set c"

lemma ended_suffix: "ended F s \<Longrightarrow> suffix t s \<Longrightarrow> ended F t"
  using no_quote_suffix [of F s t] set_mono_suffix [of t s] by (cases "t = []") (auto simp: ended_def suffix_def)

lemma ended_comment:
  assumes "ended F s" and "tok_type (fst (readToken F s)) = tokenComment"
  shows "plain_gap (normalizeEOL (tok_start (fst (readToken F s))) (snd (readToken F s)))"
proof -
  obtain c rest where c: "skipSpaces s = c # rest" "tok_start (fst (readToken F s)) = c # rest"
      "c = CHR ''/'' \<or> c = CHR 0x27 \<and> \<not> allowSingleQuotes F"
    by (rule readToken_comment [OF assms(2)])
  have e: "ended F (c # rest)" using ended_suffix [OF assms(1) suffix_skipSpaces] c(1) by simp
  then have slash: "c = CHR ''/''" and "rest \<noteq> []" "last rest = CHR 0x0A"
    using c(3) by (auto simp: ended_def no_quote_def split: if_splits)
  have "lex_case F c rest = (let (ok, r) = readComment rest in (ok, tokenComment, r))"
    by (simp add: slash lex_case_def)
  then have "readComment rest = (True, snd (readToken F s))"
    using assms(2) c(1) by (auto simp: readToken_def getNextChar_def Let_def split: prod.splits if_splits)
  then have "gap (normalizeEOL (c # rest) (snd (readToken F s)))"
    using gap_comment \<open>rest \<noteq> []\<close> \<open>last rest = CHR 0x0A\<close> slash by blast
  moreover have "NUL \<notin> set (normalizeEOL (c # rest) (snd (readToken F s)))"
    using set_normalize [of "take (length (c # rest) - length (snd (readToken F s))) (c # rest)"] e
      set_take_subset [of "length (c # rest) - length (snd (readToken F s))" "c # rest"]
    unfolding normalizeEOL_def ended_def NUL_def by auto
  ultimately show ?thesis by (simp add: plain_gap_def c(2))
qed

interpretation gap_comments: comment_source "our_descent F L" "ended F" plain_gap
proof (rule our_comment_source)
  show "ended F t" if "ended F s" "suffix t s" for s t using that by (rule ended_suffix)
  show "no_quote F s" if "ended F s" for s using that by (simp add: ended_def)
  show "plain_gap (normalizeEOL (tok_start (fst (readToken F s))) (snd (readToken F s)))"
    if "ended F s" "tok_type (fst (readToken F s)) = tokenComment" for s using that by (rule ended_comment)
  show "plain_gap (c @ c')" if "plain_gap c" "plain_gap c'" for c c' using that by (simp add: plain_gap_def gap_append)
qed

text \<open>The comments of such a document that were not cut are those the writers can write.\<close>

definition uncut :: "Annotation \<Rightarrow> bool" where
  "uncut a \<longleftrightarrow> list_all (\<lambda>placement. case an_comments a placement of None \<Rightarrow> True | Some c \<Rightarrow> int (length c) < maxInt - 1)
     [commentBefore, commentAfterOnSameLine, commentAfter]"

lemma uncut_length: "uncut a \<Longrightarrow> an_comments a placement = Some c \<Longrightarrow> int (length c) < maxInt - 1"
  by (cases placement) (auto simp: uncut_def)

lemma remarks_collected:
  assumes "note_ok plain_gap d n a" and "uncut a"
  shows "remarks True (\<lambda>c. True) a"
  unfolding remarks_def
proof (intro allI impI conjI TrueI)
  fix placement
  assume "hasComment placement a"
  then obtain c where c: "an_comments a placement = Some c" by (auto simp: hasComment_def)
  then have "stored_text plain_gap c" "int (length c) < maxInt - 1" using assms uncut_length [of a placement c] by (auto simp: note_ok_def)
  then have "plain_gap c \<or> plain_gap (c @ [CHR 0x0A])" by (simp add: stored_text_def)
  then have "gap (c @ [CHR 0x0A])" "NUL \<notin> set c"
    using gap_append [OF _ gap_blank [of "[CHR 0x0A]"]] by (auto simp: plain_gap_def is_space_NL)
  then show "gap (getComment placement a @ [CHR 0x0A])" by (simp add: getComment_def c c_str_plain)
qed

lemma collected_document:
  assumes "ended F doc" and "OurReader_parse_collect F L b doc v0 (\<lambda>_. no_annotation) = Some (Ret (ok, errors, v, N))"
    and "all_notes uncut N v"
  shows "OurReader_parse F L doc v0 = Some (Ret (ok, errors, v))" and "all_notes (remarks True (\<lambda>c. True)) N v"
proof -
  have "collected plain_gap (allowDroppedNullPlaceholders F) (length doc) (OurReader_parse_collect F L b doc v0 (\<lambda>_. no_annotation))
      (OurReader_parse F L doc v0)"
    using OurReader_collects [OF gap_comments.comment_source_axioms assms(1)] by (simp add: no_annotation_ok)
  then have "OurReader_parse F L doc v0 = Some (Ret (ok, errors, v))" "\<forall>p. note_ok plain_gap (allowDroppedNullPlaceholders F) (length doc) (N p)"
    by (simp_all add: assms(2))
  then show "OurReader_parse F L doc v0 = Some (Ret (ok, errors, v))" and "all_notes (remarks True (\<lambda>c. True)) N v"
    using all_notes_mono [OF assms(3)] remarks_collected by blast+
qed

text \<open>So \<^verbatim>\<open>operator<<\<close> after the reader loses no value, whatever comments came with the document.\<close>

lemma rewritten_document:
  assumes "ended F doc" and "OurReader_parse_collect F L b doc v0 (\<lambda>_. no_annotation) = Some (Ret (ok, errors, v, N))"
    and "all_notes uncut N v"
    and "allowComments F" and "canonical v" and "int (nest v) \<le> stackLimit F" and "strictRoot F \<longrightarrow> isArray v \<or> isObject v"
  shows "\<exists>s. stream_insert L (N, v) = Ret s \<and> OurReader_parse F L s v1 = Some (Ret (True, [], v))"
  using parse_stream_insert [OF assms(5) _ assms(6,7)] collected_document(2) [OF assms(1-3)] assms(4) by simp

end
