(* ===== verification/Spec2Isabelle.thy ===== *)
theory Spec2Isabelle
  imports System Daemon_Main Config_Document Config_File Json_Construct Json_Rewrite
begin

text \<open>
  Driveshaft (\<^verbatim>\<open>src/src\<close>) is a daemon that keeps pools of worker threads for a gearman job server. Each
  worker takes jobs of the functions its pool is configured for, posts each job to the pool's URI and
  hands the answer, a JSON object, back to gearmand. The main thread rereads the jobs configuration, a
  JSON file, and starts or stops workers until every pool has its configured size; signals make it
  stop all pools and leave. Paths below are relative to \<^verbatim>\<open>src/src\<close>.

  \<^bold>\<open>Conventions.\<close> A C++ call that may throw is a function into \<open>'a cxx\<close> (\<open>Ret\<close> a value, \<open>Throw\<close> an exception,
  \<open>Terminate\<close> for \<^verbatim>\<open>std::terminate\<close>); \<open>noexcept\<close> is the qualifier of that name. Objects are records, methods
  are functions that take and return the record, constructors are called \<open>new_C\<close> and destructors
  \<open>delete_C\<close>. Fixed-width integers are words. \<^verbatim>\<open>std::map\<close> and \<^verbatim>\<open>std::set\<close> are lists in iteration order whose
  order is the invariant \<open>map_inv\<close> or \<open>set_inv\<close>. A loop that waits for another program is driven by the
  finite list of what that program answers; running off the list is \<open>None\<close>, and the theorems of kind
  termination and liveness say when the result is \<open>Some\<close>.
  The main thread's work in one iteration is one function: what the workers do meanwhile is applied
  between iterations (\<open>it_workers\<close>), what other threads do while a worker runs is applied between its
  turns (\<open>tu_shared\<close>), and \<open>System\<close> interleaves all threads at the grain of single registry operations and of
  single operations on the mutex and the condition variable of a thread's start.

  \<^bold>\<open>Theories, in the order of their imports.\<close>

  \<^item> \<open>Prelude\<close>: integer types, \<open>cxx\<close>, the program's exceptions, decimal printing.
  \<^item> \<open>Containers\<close>: ordered sets and maps, \<^verbatim>\<open>set_difference\<close>, \<^verbatim>\<open>set_symmetric_difference\<close>; the interface
    \<open>keyed_store\<close> of a map and its interpretation.
  \<^item> \<open>Thread_Registry\<close> (\<^verbatim>\<open>thread-registry.h\<close>, \<^verbatim>\<open>thread-registry.cpp\<close>): the two maps of the class, all its
    operations, the invariant \<open>reg_inv\<close> that ties the maps together, and the abstraction \<open>reg_view\<close> to one
    map from threads to their data. The interface \<open>thread_table\<close> is what clients rely on.
  \<^item> \<open>Metric_Proxy\<close> (\<^verbatim>\<open>metric-proxy.h\<close>, \<^verbatim>\<open>metric-proxy.cpp\<close>): the calls made on the Prometheus client, and the
    wrapper that remembers the active function. The interface \<open>thread_gauges\<close> gives the readings of the
    idle and working gauges that the wrapper's lemmas use.
  \<^item> \<open>Json_Value\<close>, \<open>Json_Ops\<close>, \<open>Json_Lexer\<close>, \<open>Json_Decode\<close>, \<open>Json_Descent\<close>, \<open>Json_Reader\<close>, \<open>Json_Writer\<close> (\<^verbatim>\<open>dist/jsoncpp.cpp\<close>,
    \<^verbatim>\<open>dist/json/json.h\<close>): the value type with its tests, conversions and member access; comparison; the tokens,
    decoding, recursive descent, error recovery and error reports of \<^verbatim>\<open>OurReader\<close>; \<^verbatim>\<open>FastWriter\<close>. \<open>Json_Descent\<close> holds
    the descent that \<^verbatim>\<open>OurReader\<close> and the older \<^verbatim>\<open>Reader\<close> share, and the locale \<open>token_source\<close> what a lexer must
    promise for it to terminate. \<open>Json_Gap\<close> has the texts the reader skips between tokens, white space and comments;
    \<open>Json_Roundtrip\<close> defines the texts of a value up to them (\<open>layout\<close>) and proves that the reader inverts each,
    so the writer's text too.
  \<^item> \<open>Json_Agreement\<close>, \<open>Json_Old_Reader\<close>: the locale \<open>descent_agreement\<close>, in which two descents whose lexers and
    decoders agree are shown to be one function; the deprecated \<^verbatim>\<open>Reader\<close> with \<^verbatim>\<open>Features\<close>, and the documents on
    which it is \<^verbatim>\<open>OurReader\<close>.
  \<^item> \<open>Json_Annotation\<close>, \<open>Json_Comments\<close>, \<open>Json_Collecting\<close>: comments and byte offsets of values, kept beside the tree and
    named by the path to the node; both readers with the collection of comments on; \<^verbatim>\<open>pushError\<close>. The locale
    \<open>comment_source\<close> relates the collecting descent to that of \<open>Json_Descent\<close> step by step, and carries what is known
    of the text to the comments taken from it.
  \<^item> \<open>Json_Path\<close>, \<open>Json_Iterator\<close>: \<^verbatim>\<open>Path\<close>, its compilation and the access along it, proved from the contract
    \<open>element_access\<close> of references into arrays and objects; the iterators, and that the loops over
    \<^verbatim>\<open>begin()\<close> and \<^verbatim>\<open>end()\<close> visit the entries in order; the remaining operators of a value.
  \<^item> \<open>Json_Construct\<close>: the constructors of a value, the length-prefixed buffer of its strings, copying, swapping and
    assignment. The buffer represents the string of the model, accessors invert constructors, a copy is the value.
  \<^item> \<open>Json_Styled\<close>, \<open>Json_Printer\<close>, \<open>Json_Styled_Roundtrip\<close> (\<^verbatim>\<open>dist/jsoncpp.cpp\<close>): \<^verbatim>\<open>StyledWriter\<close>, \<^verbatim>\<open>StyledStreamWriter\<close> and the
    writer of \<^verbatim>\<open>StreamWriterBuilder\<close>, on a tree with comments. The locale \<open>styled_printer\<close> states what the three have in
    common, and from it that the text of every value is a layout of it; each of the three interprets it.
  \<^item> \<open>Json_Rewrite\<close>: the comments collected from a document whose last line is ended are gaps, so the document
    can be written again with them.
  \<^item> \<open>Config\<close>, \<open>Config_File\<close> (\<^verbatim>\<open>driveshaft-config.h\<close>, \<^verbatim>\<open>driveshaft-config.cpp\<close>): loading, validating, parsing,
    comparing and superseding configurations, on parsed trees and on the text of the file. The interface
    \<open>pool_watcher\<close> is what \<^verbatim>\<open>supersede\<close> needs of the watcher it informs. \<open>Config_Document\<close> states, apart from the parsing
    loops, when a document describes a configuration (\<open>describes\<close>), and that \<^verbatim>\<open>load\<close> accepts exactly those documents and
    gives back exactly what they describe.
  \<^item> \<open>Gearman_Client\<close> (\<^verbatim>\<open>gearman-client.h\<close>, \<^verbatim>\<open>gearman-client.cpp\<close>): construction, the curl callbacks,
    \<open>processJob\<close>, \<open>worker_callback\<close> and \<open>run\<close>.
  \<^item> \<open>Thread_Loop\<close> (\<^verbatim>\<open>thread-loop.h\<close>, \<^verbatim>\<open>thread-loop.cpp\<close>): the body of a worker thread, with the activity of the
    other threads as an argument of each turn, limited by \<open>turn_ok\<close>.
  \<^item> \<open>Main_Loop\<close> (\<^verbatim>\<open>main-loop.h\<close>, \<^verbatim>\<open>main-loop.cpp\<close>): the thread delegate, the watcher's \<open>inform\<close> (which provides
    \<open>pool_watcher\<close>), the signal handlers, \<open>reload\<close>, \<open>doShutdown\<close> and the loop itself.
  \<^item> \<open>System\<close>: the main thread and the workers interleaved, as the step relation \<open>step\<close>, labelled with the action taken;
    \<open>exec\<close> is a sequence of steps. One step is one operation under the registry's mutex or one operation of the start
    handshake: taking and releasing \<^verbatim>\<open>s_new_thread_mutex\<close> (its owner is \<open>s_mutex\<close>), creating the thread, testing and setting the flag,
    blocking on the condition variable, \<open>notify_one\<close>, a spurious wake-up, the client's constructor (which may fail and
    end the process) and the two registry calls of \<^verbatim>\<open>ThreadLoop\<close>'s constructor. What a worker's client does to the
    shared state inside \<^verbatim>\<open>run()\<close> is limited to what \<open>run\<close> is shown to do: its own state text, and nothing else of the registry.
  \<^item> \<open>Pidfile\<close> (\<^verbatim>\<open>pidfile.h\<close>, \<^verbatim>\<open>pidfile.cpp\<close>) and \<open>Daemon_Main\<close> (\<^verbatim>\<open>main.cpp\<close>): the pid file over a file system
    whose calls may fail; \<^verbatim>\<open>switch_user\<close>, \<^verbatim>\<open>do_daemon\<close>, the derived durations and \<^verbatim>\<open>main\<close>.

  \<^bold>\<open>What the theorems of this theory show.\<close> The first section: no interleaving makes an assertion of the
  registry fail, the handshake with a started thread is never stuck and ends within a bound, a told worker starts no
  further run, leaves the loop at its next check and can always unregister, the registry
  refines a map, \<open>sendShutdown\<close> tells the first threads of a pool, and the gauges balance over a worker's life. The second: \<open>inform\<close> moves a pool to its
  target on a host whose libraries work, \<open>compare\<close> finds exactly the pools that changed, a reload
  reaches the configured counts and tells every old worker of a changed pool, a shutdown tells every worker and ends the
  loop, \<open>load\<close> reads exactly the documents that describe a configuration, a configuration that
  cannot be read ends the daemon with an exit code of 1 after any number of good iterations, and a written configuration is
  loaded back as it was. The third:
  the request carries the job, the answer reaches gearmand, failures are counted once, long jobs are
  aborted, curl's resources are released, and the loops of the client and the worker end. The fourth:
  the JSON reader always answers and inverts all the writers, comments included, integers are read exactly, the older reader is
  the same function on plain documents, collecting comments changes nothing else and what was collected can be written again, a value stored along a path is found there, the pid file is gone
  at exit. Some theorems record where
  the code falls short of its intention: informing a pool again while told workers are still leaving
  stops too many; a worker that ends inside a job leaves an idle thread in the gauges; an exception
  of a constructor in a new thread, an unexpected answer of the job server and an unreadable
  configuration each end the process; the buffer handed to gearmand stops at a NUL byte; the retry of
  the worker loop is never taken; a path with a NUL byte is compiled for ever; \<^verbatim>\<open>Value::size()\<close> wraps to 0 at the last array
  index, where \<^verbatim>\<open>Path::resolve\<close> returns its default in place of the element.

  \<^bold>\<open>Bounds.\<close> \<open>OurReader_parse\<close> gives \<open>readValue\<close> the fuel \<open>2 * length doc + 1\<close>: every nested call has consumed a
  byte or is the second call at its position; that the fuel is never exhausted is proved
  (\<open>descent_fuel\<close> in \<open>token_source\<close>, \<open>readValue_fuel\<close>). \<open>makePath_loop\<close> is a partial function: not returning is \<open>None\<close>. \<open>run\<close>, \<open>loop_while\<close> and \<open>main_iterations\<close> recurse over the scripts of gearmand's answers, of
  the worker's turns and of the main loop's iterations. \<^verbatim>\<open>Value::size()\<close> and the \<^verbatim>\<open>int\<close> into which the writers put it are taken at
  their widths (\<open>json_size\<close>, \<open>int_bound\<close>); the values whose round trip is proved (\<open>canonical\<close>) have arrays of fewer than \<^verbatim>\<open>2^31\<close>
  and objects of fewer than \<^verbatim>\<open>2^32\<close> entries.

  \<^bold>\<open>Parameters.\<close> libgearman (\<open>gearman_lib\<close>, \<open>gearmand\<close>), libcurl (\<open>curl_lib\<close>, with \<open>curl_contract\<close>: a transfer whose
  progress callback returns non-zero ends with \<^verbatim>\<open>CURLE_ABORTED_BY_CALLBACK\<close>, and one whose write callback takes
  less than it was given does not succeed), the Prometheus client (its counters and gauges are the sums
  of the calls made), the file system and clock (\<open>config_env\<close>, \<open>fs_calls\<close>), the C library's conversion of
  doubles (\<open>libc\<close>) and the stream's (\<open>extract\<close>), the thread scheduler (\<open>h_spawn\<close>), and what \<^verbatim>\<open>boost::program_options\<close> has parsed.

  \<^bold>\<open>Not modelled.\<close> Log output; the Prometheus exporter; the CppTL variants of the JSON values and the release of their memory; the rounding of numbers to doubles
  and floats (a parameter of \<open>asDouble\<close> and \<open>asFloat\<close>); the sign of a floating zero;
  signed overflow, which C++ leaves undefined: of the \<^verbatim>\<open>int\<close> index with which both readers count the elements of an array,
  in documents of \<^verbatim>\<open>2^31\<close> elements and more, and of the \<^verbatim>\<open>int\<close> with which the indenting writers estimate a line, for
  arrays of \<^verbatim>\<open>2^31 / 3\<close> elements and more or elements whose texts reach \<^verbatim>\<open>2^31\<close> bytes; \<^verbatim>\<open>Value::compare\<close> on containers of \<^verbatim>\<open>2^31\<close> members and more; allocation failure.
\<close>

section \<open>Concrete inputs\<close>

text \<open>
  Small instances of the parameters and states, at which the theorems with hypotheses are
  applied: a registry with one worker, libraries that accept every call, a host that gives a new
  thread an identifier above all registered ones.
\<close>

definition one_worker :: ThreadRegistry where
  "one_worker = \<lparr>m_thread_map = [(7, fresh_data ''p'')], m_registry_store = [(''p'', [7])]\<rparr>"

definition demo_libc :: libc where
  "demo_libc = \<lparr>scan_lf = (\<lambda>s. None), print_g17 = (\<lambda>q. [])\<rparr>"

definition demo_gearman :: gearman_lib where
  "demo_gearman = \<lparr>gl_create = True, gl_add_servers = (\<lambda>s. GEARMAN_SUCCESS), gl_add_function = (\<lambda>f. GEARMAN_SUCCESS),
     gl_value = (\<lambda>r. 0), gl_cast = (\<lambda>n. if n = 0 then GEARMAN_SUCCESS else GEARMAN_OTHER n)\<rparr>"

definition demo_host :: host where
  "demo_host = \<lparr>h_gearman = demo_gearman, h_response_timeout = 10,
     h_spawn = (\<lambda>w. Some (Suc (sum_list (map_keys (m_thread_map (sh_registry (ws_shared w)))))))\<rparr>"

definition demo_shared :: shared where
  "demo_shared = \<lparr>sh_registry = one_worker, sh_metrics = new_MetricProxy, sh_curl_handles = 0, sh_curl_slists = 0,
     sh_curl_forms = 0\<rparr>"

definition demo_watcher :: watcher_state where
  "demo_watcher = \<lparr>ws_shared = demo_shared, ws_wakeup = TS_SUCCESS, ws_threads = []\<rparr>"

definition demo_client :: GearmanClient where
  "demo_client = \<lparr>m_metrics = wrap ''p'', m_http_uri = ''http://h/'', m_worker_servers = [], m_worker_functions = [],
     m_worker_timeout = 10000, m_json_parser = strict_features, m_state = GRAB_JOB\<rparr>"

definition demo_job :: gearman_job where
  "demo_job = \<lparr>job_function_name = ''f'', job_handle = ''h'', job_unique = ''u'', job_workload = ''w''\<rparr>"

definition demo_clock :: job_clock where
  "demo_clock = \<lparr>jc_start = 100, jc_delay = 0\<rparr>"

definition demo_config :: DriveshaftConfig where
  "demo_config = \<lparr>m_config_filename = ''jobs.json'', m_server_list = [''s''],
     m_pool_map = [(''p'', \<lparr>worker_count = 2, job_processing_uri = ''u'', job_list = [''f'']\<rparr>)], m_load_time = 0\<rparr>"

definition demo_env :: "string \<Rightarrow> config_env" where
  "demo_env contents = \<lparr>env_mtime = (\<lambda>f. Some 5), env_read = (\<lambda>f. Some contents), env_now = 9\<rparr>"

definition answers :: "CURLcode \<Rightarrow> int \<Rightarrow> string \<Rightarrow> transfer" where
  "answers code status body = \<lparr>tr_sockets = [0], tr_chunks = [\<lparr>ck_ptr = body, ck_size = 1,
     ck_nmemb = of_nat (length body), ck_stored = length body\<rparr>], tr_ticks = [(False, 101)], tr_code = code,
     tr_http_code = status\<rparr>"

definition demo_curl :: "transfer \<Rightarrow> curl_lib" where
  "demo_curl tr = \<lparr>cl_easy_init = True, cl_slist_append = True, cl_setopt = (\<lambda>opt. True), cl_formadd = (\<lambda>part. True),
     cl_perform = (\<lambda>handle. tr)\<rparr>"

lemma one_worker_view: "reg_view one_worker = [7 \<mapsto> fresh_data ''p'']"
  by (rule ext) (simp add: reg_view_def one_worker_def)

lemma one_worker_inv [simp]: "reg_inv one_worker"
proof -
  have "store_at pool one_worker = (if pool = ''p'' then [7] else [])" for pool
    by (simp add: store_at_def one_worker_def)
  then show ?thesis
    by (auto simp: reg_inv_def one_worker_def map_inv_def set_inv_def map_keys_def fresh_data_def)
qed

lemma one_worker_members: "pool_members p (reg_view one_worker) = (if p = ''p'' then {7} else {})"
  by (auto simp: pool_members_def one_worker_view fresh_data_def)

lemma demo_watcher_ok [simp]: "watcher_ok demo_watcher" "pool_size ''p'' demo_watcher = 1" "active ''p'' demo_watcher = 1"
proof -
  have "live ''p'' (reg_view one_worker) = {7}"
    by (auto simp: live_def pool_members_def unmarked_def one_worker_view fresh_data_def)
  then show "watcher_ok demo_watcher" "pool_size ''p'' demo_watcher = 1" "active ''p'' demo_watcher = 1"
    by (simp_all add: watcher_ok_def pool_size_def active_def demo_watcher_def demo_shared_def one_worker_members)
qed

lemma demo_host_gearman: "h_gearman demo_host = demo_gearman"
  by (simp add: demo_host_def)

lemma demo_healthy: "healthy demo_host servers jobs"
proof -
  have "map_find (Suc (sum_list (map_keys m))) m = None" for m :: ThreadMap
    using member_le_sum_list [of _ "map_keys m"] by (fastforce simp: map_find_None)
  then show ?thesis by (simp add: healthy_def accepts_def demo_host_def demo_gearman_def reg_view_def)
qed

text \<open>Reachable states of the thread system: a thread the main thread waits for, and one in its loop under a forced shutdown.\<close>

definition demo_args :: start_args where
  "demo_args = \<lparr>sa_pool = ''p'', sa_servers = [''s''], sa_jobs = [''f''], sa_uri = ''u''\<rparr>"

lemma waiting_reachable:
  "\<exists>s. reachable demo_host s \<and> alive s \<and> s_phase s = [7 \<mapsto> Spawned demo_args] \<and> s_main s = Main_waiting 7 \<and> s_mutex s = None \<and>
     s_reg s = sh_registry (ws_shared new_watcher)"
proof -
  let ?s1 = "sys_init\<lparr>s_main := Main_locked demo_args, s_mutex := Some Main_thread, s_wakeup := TS_INIT\<rparr>"
  let ?s2 = "set_phase 7 (Some (Spawned demo_args)) (?s1\<lparr>s_main := Main_testing 7\<rparr>)"
  let ?s3 = "?s2\<lparr>s_main := Main_waiting 7, s_mutex := None\<rparr>"
  have "step demo_host Main_acts sys_init ?s1" by (rule step.lock) (simp_all add: alive_def sys_init_def)
  moreover have "step demo_host Main_acts ?s1 ?s2" by (rule step.create) (simp_all add: alive_def sys_init_def)
  moreover have "step demo_host Main_acts ?s2 ?s3" by (rule step.test_wait) (simp_all add: alive_def sys_init_def set_phase_def)
  ultimately have "reachable demo_host ?s3" unfolding reachable_def by (meson exec_Cons exec_nil)
  then show ?thesis by (intro exI [of _ ?s3]) (simp add: alive_def sys_init_def set_phase_def)
qed

lemma forced_reachable:
  "\<exists>s loop. reachable demo_host s \<and> alive s \<and> s_phase s 7 = Some (Checking loop) \<and> m_pool loop = ''p'' \<and> s_force s"
proof -
  obtain s where s: "reachable demo_host s" "alive s" "s_phase s = [7 \<mapsto> Spawned demo_args]" "s_main s = Main_waiting 7" "s_mutex s = None"
      "s_reg s = sh_registry (ws_shared new_watcher)" using waiting_reachable by blast
  let ?s1 = "set_phase 7 (Some (Locked demo_args)) (s\<lparr>s_mutex := Some (Worker_thread 7)\<rparr>)"
  have s1: "step demo_host (Starts 7) s ?s1" by (rule step.enter) (use s in simp_all)
  have "returns (delegate_start demo_host 7 ''p'' [''s''] [''f''] ''u'' (s_shared ?s1))"
    using s(6) by (subst delegate_start_iff) (simp_all add: accepts_def demo_host_def demo_gearman_def new_watcher_def)
  then obtain loop sh wakeup where d: "delegate_start demo_host 7 ''p'' [''s''] [''f''] ''u'' (s_shared ?s1) = Ret (loop, sh, wakeup)"
    by (auto simp: returns_iff)
  then have pool: "m_pool loop = ''p''" "wakeup = TS_SUCCESS" by (auto simp: delegate_start_def new_ThreadLoop_def cxx_simps)
  obtain s2 where s2: "exec demo_host ?s1 [Starts 7, Starts 7, Starts 7, Starts 7] s2" "s_wakeup s2 = wakeup" "s_mutex s2 = None"
      "s_phase s2 = (s_phase ?s1)(7 \<mapsto> Notifying loop)" "s_main s2 = s_main ?s1" "alive s2"
    using start_steps_delegate [of ?s1 7 demo_args demo_host loop sh wakeup] s(2) d by (auto simp: demo_args_def alive_def)
  let ?s3 = "set_phase 7 (Some (Checking loop)) (s2\<lparr>s_main := Main_woken 7\<rparr>)"
  let ?s4 = "?s3\<lparr>s_main := Main_testing 7, s_mutex := Some Main_thread\<rparr>"
  let ?s5 = "?s4\<lparr>s_main := Main_idle, s_mutex := None\<rparr>"
  let ?s6 = "?s5\<lparr>s_force := True\<rparr>"
  have "step demo_host (Notifies 7) s2 (set_phase 7 (Some (Checking loop)) (s2\<lparr>s_main := notify_one (s_main s2)\<rparr>))"
    by (rule step.notify) (use s2 in simp_all)
  then have "step demo_host (Notifies 7) s2 ?s3" using s2(5) s(4) by (simp add: notify_one_def)
  moreover have "step demo_host Main_acts ?s3 ?s4" by (rule step.relock) (use s2 in \<open>simp_all add: alive_def\<close>)
  moreover have "step demo_host Main_done ?s4 ?s5" by (rule step.test_done) (use s2 pool in \<open>simp_all add: alive_def\<close>)
  moreover have "step demo_host Main_acts ?s5 ?s6" by (rule step.force) (use s2 in \<open>simp_all add: alive_def\<close>)
  ultimately have "exec demo_host s2 [Notifies 7, Main_acts, Main_done, Main_acts] ?s6" by (meson exec_Cons exec_nil)
  then have "reachable demo_host ?s6" using reachable_exec s(1) exec_Cons [OF s1 s2(1)] by blast
  then show ?thesis using s2(6) pool(1) by (intro exI [of _ ?s6] exI [of _ loop]) (simp add: alive_def)
qed

text \<open>A main loop and its iterations, over a file that holds the sample configuration.\<close>

definition demo_iteration :: "ShutdownType \<Rightarrow> iteration" where
  "demo_iteration s = \<lparr>it_shutdown = s, it_env = demo_env (config_text demo_libc demo_config), it_workers = (\<lambda>w. w)\<rparr>"

definition demo_main :: MainLoop where
  "demo_main = \<lparr>ml_config_filename = ''f'', ml_config = new_DriveshaftConfig, ml_watcher = new_watcher, ml_force = False,
     ml_sleeps = []\<rparr>"

lemma demo_config_inv: "config_inv demo_config"
  by (simp add: config_inv_def demo_config_def set_inv_def map_inv_def map_keys_def)

lemma demo_main_inv: "main_inv demo_main"
  by (simp add: main_inv_def demo_main_def watcher_ok_def pool_size_def pool_members_def new_watcher_def)

lemma demo_iteration_ok: "iteration_ok (demo_iteration s)"
  by (simp add: iteration_ok_def demo_iteration_def)

lemma demo_iteration_shutdown: "it_shutdown (demo_iteration s) = s"
  by (simp add: demo_iteration_def)

lemma demo_iteration_loads: "loads demo_libc (OurCharReader_parse strict_features demo_libc) f (demo_iteration s)"
proof -
  have "fits_json demo_config" by (simp add: fits_json_def demo_config_def maxInt_def)
  from load_config_text [OF demo_config_inv this, of "demo_env (config_text demo_libc demo_config)" f 5 new_DriveshaftConfig demo_libc]
  show ?thesis by (simp add: loads_def demo_iteration_def demo_env_def new_DriveshaftConfig_def)
qed

text \<open>A job's transfer, a well-formed answer, and a worker with its turns.\<close>

definition demo_answer :: "(string \<times> Value) list" where
  "demo_answer = [(''gearman_ret'', IntV 0), (''response_string'', StringV ''ok'')]"

text \<open>Comments for it: a line comment before its second member and a block comment behind the first.\<close>

definition demo_notes :: Notes where
  "demo_notes p =
     (if p = [Step_name ''response_string''] then no_annotation\<lparr>an_comments := [commentBefore \<mapsto> ''// text'']\<rparr>
      else if p = [Step_name ''gearman_ret''] then no_annotation\<lparr>an_comments := [commentAfterOnSameLine \<mapsto> ''/*0*/'']\<rparr>
      else no_annotation)"


definition demo_turn :: "bool \<Rightarrow> turn" where
  "demo_turn force = \<lparr>tu_shared = (\<lambda>sh. sh), tu_force = force, tu_gearmand = \<lparr>gd_work = [\<lparr>wc_jobs = [], wc_ret = GEARMAN_NO_JOBS,
     wc_error = None\<rparr>], gd_wait = [GEARMAN_TIMEOUT]\<rparr>\<rparr>"

definition demo_loop :: ThreadLoop where
  "demo_loop = \<lparr>m_pool = ''p'', m_client = demo_client\<rparr>"

lemma demo_transfer: "job_transfer (demo_curl tr) True demo_clock demo_job demo_client = Some tr"
  by (simp add: job_transfer_def prepare_def demo_curl_def curl_options_def job_form_def Let_def)

lemma demo_response: "length body < 2 ^ 64 \<Longrightarrow> response_body (answers code status body) = body"
  by (simp add: response_body_def answers_def curl_write_func_def stream_write_def new_StringstreamWriter_def unat_of_nat
      take_bit_nat_eq_self_iff)


lemma demo_answer_ok: "canonical (ObjectV demo_answer)" "nest (ObjectV demo_answer) \<le> 1000"
    "map_find ''gearman_ret'' demo_answer = Some (IntV 0)" "map_find ''response_string'' demo_answer = Some (StringV ''ok'')"
  by (simp_all add: demo_answer_def map_inv_def set_inv_def map_keys_def maxInt_def less_char_def)

lemma demo_notes_ok:
  "\<forall>p placement. hasComment placement (demo_notes p) \<longrightarrow> gap (getComment placement (demo_notes p) @ [CHR 0x0A]) \<and>
     (gap (getComment placement (demo_notes p)) \<or> last (getComment placement (demo_notes p)) \<notin> {CHR '' '', CHR 0x0A})"
proof -
  have "gap (''// text'' @ [CHR 0x0A])" "gap ''/*0*/''" "gap (''/*0*/'' @ [CHR 0x0A])"
    using gap.line [of "'' text''" "[]"] gap.block [of "''0''" "[]"] gap.block [of "''0''" "[CHR 0x0A]"]
    by (simp_all add: gap.empty gap_blank is_space_NL)
  then show ?thesis
    by (auto simp: demo_notes_def hasComment_def getComment_def no_annotation_def c_str_def NUL_def is_space_NL split: if_splits)
qed

lemma demo_state: "\<exists>reg. setThreadState 7 s (sh_registry demo_shared) = Ret reg"
  using setThreadState_ok [OF one_worker_inv, of 7 "fresh_data ''p''" s] by (auto simp: demo_shared_def one_worker_view)

lemma demo_working: "working 7 demo_loop demo_shared"
  by (simp add: working_def demo_loop_def demo_shared_def demo_client_def one_worker_view fresh_data_def)

lemma demo_turn_ok: "turn_ok t (demo_turn force)"
  by (simp add: turn_ok_def demo_turn_def rely_def same_curl_def)

text \<open>A host on which the pid file can be written and the log configuration cannot be read.\<close>

definition demo_options :: options where
  "demo_options = \<lparr>opt_user = [], opt_pid_file = ''/run/d.pid'', opt_daemonize = False, opt_jobsconfig = ''jobs'', opt_logconfig = ''log'',
     opt_max_running_time = 60, opt_loop_timeout = 10\<rparr>"

definition demo_system :: system where
  "demo_system = \<lparr>sy_user = \<lparr>uc_getpwnam = (\<lambda>_. None), uc_setgid = (\<lambda>_. True), uc_setuid = (\<lambda>_. True)\<rparr>, sy_fork = 0, sy_setsid = True,
     sy_chdir = True, sy_pid = 42, sy_files = \<lparr>fc_access = (\<lambda>_. True), fc_unlink = (\<lambda>_. True), fc_open = (\<lambda>_. True),
       fc_write = (\<lambda>s. Some (length s)), fc_close = True, fc_strerror = []\<rparr>, sy_log_config = (\<lambda>_. False), sy_sigemptyset = True,
     sy_sigaction = (\<lambda>_. True), sy_gearman = demo_gearman, sy_spawn = h_spawn demo_host\<rparr>"

definition demo_process :: process where
  "demo_process = \<lparr>pr_cred = \<lparr>cr_uid = 0, cr_euid = 0, cr_gid = 0\<rparr>,
     pr_fs = \<lparr>fs_files = [''/etc/motd'' \<mapsto> ''hello''], fs_pid_file = [], fs_atexit = False\<rparr>, pr_curl_global = 0\<rparr>"

lemma demo_with_pidfile: "\<exists>pr'. with_pidfile demo_libc demo_system demo_options [] demo_process = Some (Exit 1, pr')"
  by (simp add: with_pidfile_def demo_system_def demo_options_def create_def new_Pidfile_def leave_main_def Let_def
      split: prod.splits)

text \<open>A host on which the daemon starts, and an iteration that finds its configuration file unreadable.\<close>

abbreviation good_system :: system where
  "good_system \<equiv> demo_system\<lparr>sy_log_config := (\<lambda>_. True)\<rparr>"

definition unreadable :: iteration where
  "unreadable = (demo_iteration NO)\<lparr>it_env := (demo_env [])\<lparr>env_read := (\<lambda>f. None)\<rparr>\<rparr>"

lemma good_startup: "startup_ok good_system demo_options demo_process"
  by (simp add: startup_ok_def demo_system_def demo_options_def create_def new_Pidfile_def demo_process_def c_str_def NUL_def Let_def sys_access_def)

section \<open>The thread registry and the threads that share it\<close>

text \<open>
  C1: In every interleaving of the main thread (creating workers under the mutex, waiting for
  them, counting, telling workers to stop, forcing the shutdown) with the workers (starting,
  notifying, checking, changing state, leaving), no registry assertion fails, so the process is
  never terminated by one, and the registry holds exactly the threads that have registered and not
  yet left, each under its own pool.
\<close>

theorem workers_never_fail_an_assertion:
  assumes "reachable H s"
  shows "\<not> s_dead s \<and> reg_inv (s_reg s) \<and>
    (\<forall>t. map_option td_pool (reg_view (s_reg s) t) = in_registry (s_phase s t))"
  using reachable_inv [OF assms] by (simp add: sys_inv_def table_ok_def)

theorem workers_never_fail_an_assertion_witness:
  "\<exists>s loop. reachable demo_host s \<and> s_phase s 7 = Some (Checking loop) \<and> \<not> s_dead s \<and> map_option td_pool (reg_view (s_reg s) 7) = Some ''p''"
proof -
  obtain s loop where s: "reachable demo_host s" "s_phase s 7 = Some (Checking loop)" "m_pool loop = ''p''" using forced_reachable by blast
  show ?thesis using workers_never_fail_an_assertion [OF s(1)] s by (intro exI [of _ s] exI [of _ loop]) simp
qed

text \<open>
  C2: While the main thread waits for a new worker's report, in every interleaving and as long as
  the process is not over (a failing client constructor ends it): one of the two threads always
  has a step of the hand-over it can take, so no mutex is kept and no notification is lost; they
  take at most 27 such steps, plus two for every spurious or foreign wake-up, before the main
  thread goes on; and it goes on only once the worker has registered and set the flag, with the
  mutex free again.
\<close>

theorem start_handshake_completes:
  assumes "reachable H s" and "main_target (s_main s) = Some t" and "exec H s as s'" and "Main_done \<notin> set as" and "\<not> s_over s'"
  shows "main_target (s_main s') = Some t \<and>
    length (filter (own_step t) as) \<le> 27 + 2 * length (filter (stray_step t) as) \<and>
    (\<exists>a s''. (own_step t a \<or> a = Main_done) \<and> step H a s' s'') \<and>
    (\<forall>s''. step H Main_done s' s'' \<longrightarrow> s_wakeup s' = TS_SUCCESS \<and> \<not> starting (s_phase s' t) \<and> s_main s'' = Main_idle \<and> s_mutex s'' = None)"
proof -
  note inv = reachable_inv [OF assms(1)]
  note inv' = sys_inv_exec [OF assms(3) inv]
  have "main_target (s_main s') = Some t \<and> hand_rank t s' + length (filter (own_step t) as) \<le> hand_rank t s + 2 * length (filter (stray_step t) as)"
    using hand_exec [OF assms(3) inv assms(2,4)] assms(5) by simp
  moreover have "alive s'" using sys_invD(1) [OF inv'] assms(5) by (simp add: alive_def)
  ultimately show ?thesis using hand_rank_bound [of t s] hand_enabled [OF inv', of t H] hand_done [OF inv', of t H] by auto
qed

theorem start_handshake_completes_witness:
  "\<exists>s s'. reachable demo_host s \<and> s_main s = Main_waiting 7 \<and> exec demo_host s [Spurious] s' \<and> main_target (s_main s') = Some 7 \<and>
     (\<exists>a s''. (own_step 7 a \<or> a = Main_done) \<and> step demo_host a s' s'')"
proof -
  obtain s where s: "reachable demo_host s" "alive s" "s_main s = Main_waiting 7" using waiting_reachable by blast
  let ?s' = "s\<lparr>s_main := Main_woken 7\<rparr>"
  have e: "exec demo_host s [Spurious] ?s'" using exec_Cons [OF step.spurious [OF s(2,3)] exec_nil] .
  show ?thesis using start_handshake_completes [OF s(1) _ e, of 7] s e by (intro exI [of _ s] exI [of _ ?s']) (simp add: alive_def)
qed

text \<open>
  C3: Once a worker in its loop has been told to stop, or the shutdown is forced, and whatever all
  threads do next: it stays told; it finishes at most the call of the client's run that it is in
  and starts no other; its next check of the loop condition succeeds and takes it out of the loop
  for good; and as long as the process is not over, the check (at the loop condition) and the
  destructor (behind the loop) can be taken, the destructor removing the thread and its registry
  entry.
\<close>

theorem told_worker_leaves:
  assumes "reachable H s" and "in_loop (s_phase s t) = Some p" and "s_force s \<or> shouldShutdown t (s_reg s) = Ret True"
    and "exec H s as s'" and "Leaves t \<notin> set as" and "\<not> s_over s'"
  shows "(s_force s' \<or> shouldShutdown t (s_reg s') = Ret True) \<and> in_loop (s_phase s' t) = Some p \<and>
    length (filter ((=) (Ends_run t)) as) + runs_left (s_phase s' t) \<le> runs_left (s_phase s t) \<and>
    (Checks t \<in> set as \<longrightarrow> is_leaving (s_phase s' t)) \<and>
    (\<forall>loop. s_phase s' t = Some (Checking loop) \<longrightarrow> (\<exists>s''. step H (Checks t) s' s'' \<and> s_phase s'' t = Some (Leaving loop))) \<and>
    (is_leaving (s_phase s' t) \<longrightarrow> (\<exists>s''. step H (Leaves t) s' s'' \<and> s_phase s'' t = None \<and> reg_view (s_reg s'') t = None))"
proof -
  note inv = reachable_inv [OF assms(1)]
  note inv' = sys_inv_exec [OF assms(4) inv]
  have told: "told t s" using assms(3) by (simp add: told_def)
  note e = told_exec [OF assms(4) inv told assms(2,5)]
  have alive: "alive s'" using sys_invD(1) [OF inv'] assms(6) by (simp add: alive_def)
  have "\<exists>s''. step H (Checks t) s' s'' \<and> s_phase s'' t = Some (Leaving loop)" if "s_phase s' t = Some (Checking loop)" for loop
    using told_check_enabled [OF alive _ that, of H] e by (intro exI [of _ "set_phase t (Some (Leaving loop)) s'"]) simp
  moreover have "\<exists>s''. step H (Leaves t) s' s'' \<and> s_phase s'' t = None \<and> reg_view (s_reg s'') t = None" if "is_leaving (s_phase s' t)"
    using that leave_enabled [OF inv' alive, of t _ H] by (cases "s_phase s' t" rule: is_leaving.cases) auto
  ultimately show ?thesis using e assms(6) by (auto simp: told_def)
qed

theorem told_worker_leaves_witness:
  "\<exists>s s' s''. reachable demo_host s \<and> in_loop (s_phase s 7) = Some ''p'' \<and> s_force s \<and> exec demo_host s [Checks 7] s' \<and>
     is_leaving (s_phase s' 7) \<and> step demo_host (Leaves 7) s' s'' \<and> reg_view (s_reg s'') 7 = None"
proof -
  obtain s loop where s: "reachable demo_host s" "alive s" "s_phase s 7 = Some (Checking loop)" "m_pool loop = ''p''" "s_force s"
    using forced_reachable by blast
  let ?s' = "set_phase 7 (Some (Leaving loop)) s"
  have "step demo_host (Checks 7) s ?s'" using told_check_enabled [OF s(2) _ s(3)] s(5) by (simp add: told_def)
  from exec_Cons [OF this exec_nil] have e: "exec demo_host s [Checks 7] ?s'" .
  have p: "in_loop (s_phase s 7) = Some ''p''" using s by simp
  have over: "\<not> s_over ?s'" using s(2) by (simp add: alive_def)
  have "s_force s \<or> shouldShutdown 7 (s_reg s) = Ret True" using s(5) by simp
  from told_worker_leaves [OF s(1) p this e _ over] obtain s'' where "step demo_host (Leaves 7) ?s' s''" "reg_view (s_reg s'') 7 = None" by auto
  then show ?thesis using s(1,5) p e by (intro exI [of _ s] exI [of _ ?s'] exI [of _ s'']) simp
qed

text \<open>
  C4: The registry's two maps implement one table of threads. registerThread on a well-formed
  registry is a map update on that table (a fresh entry in the given pool, invariant kept), and
  ends the process exactly when the thread is already registered, in whatever pool.
  unregisterThread deletes the thread from the table when it is registered in the given pool, and
  ends the process in every other case.
\<close>

theorem registry_refines_a_map:
  assumes "reg_inv r"
  shows "(case reg_view r tid of
      None \<Rightarrow> \<exists>r'. registerThread pool tid r = Ret r' \<and> reg_inv r' \<and> reg_view r' = (reg_view r)(tid \<mapsto> fresh_data pool)
    | Some d \<Rightarrow> registerThread pool tid r = Terminate) \<and>
    (if \<exists>d. reg_view r tid = Some d \<and> td_pool d = pool
     then \<exists>r'. unregisterThread pool tid r = Ret r' \<and> reg_inv r' \<and> reg_view r' = (reg_view r)(tid := None)
     else unregisterThread pool tid r = Terminate)"
proof
  show "case reg_view r tid of
      None \<Rightarrow> \<exists>r'. registerThread pool tid r = Ret r' \<and> reg_inv r' \<and> reg_view r' = (reg_view r)(tid \<mapsto> fresh_data pool)
    | Some d \<Rightarrow> registerThread pool tid r = Terminate"
    using registerThread_ok [OF assms] registerThread_dup [OF assms] by (simp split: option.split)
  show "if \<exists>d. reg_view r tid = Some d \<and> td_pool d = pool
     then \<exists>r'. unregisterThread pool tid r = Ret r' \<and> reg_inv r' \<and> reg_view r' = (reg_view r)(tid := None)
     else unregisterThread pool tid r = Terminate"
    using unregisterThread_ok [OF assms] unregisterThread_absent [OF assms] by auto
qed

theorem registry_refines_a_map_witness:
  "registerThread ''q'' 7 one_worker = Terminate \<and>
   (\<exists>r'. registerThread ''q'' 8 one_worker = Ret r' \<and> reg_view r' 8 = Some (fresh_data ''q'')) \<and>
   (\<exists>r'. unregisterThread ''p'' 7 one_worker = Ret r' \<and> reg_view r' = Map.empty)"
  using registry_refines_a_map [OF one_worker_inv, where tid = 7 and pool = "''q''"] registry_refines_a_map [OF one_worker_inv, where tid = 8 and pool = "''q''"]
    registry_refines_a_map [OF one_worker_inv, where tid = 7 and pool = "''p''"]
  by (auto simp: one_worker_view fresh_data_def)

text \<open>
  C5: sendShutdown marks, in the order of the thread identifiers, the first threads of the pool
  that had not been told yet, as many as requested or as there are (a request for 0 stands for
  2^32, since the counter is compared after it is incremented and wraps), changes nothing else,
  keeps the invariant, and returns true exactly if the number told equals the request modulo 2^32.
\<close>

theorem sendShutdown_tells_quota:
  fixes pool :: string and count :: u32
  assumes "reg_inv r" and "victims = take (if count = 0 then 2 ^ 32 else unat count)
      (sorted_list_of_set {t \<in> pool_members pool (reg_view r). \<exists>d. reg_view r t = Some d \<and> \<not> td_should_shutdown d})"
  shows "\<exists>r'. sendShutdown pool count r = Ret (of_nat (length victims) = count, r') \<and> reg_inv r' \<and>
    (\<forall>t. reg_view r' t = (if t \<in> set victims then map_option (\<lambda>d. d\<lparr>td_should_shutdown := True\<rparr>) (reg_view r t) else reg_view r t))"
proof -
  have "unmarked (reg_view r) t \<longleftrightarrow> (\<exists>d. reg_view r t = Some d \<and> \<not> td_should_shutdown d)" for t
    by (simp add: unmarked_def split: option.split)
  then have "victims = shutdown_victims pool count r"
    using assms(2) shutdown_victims_least [OF assms(1), of pool count] by (simp add: shutdown_quota_def)
  then show ?thesis using sendShutdown_view [OF assms(1), of pool count] by (auto simp: mark_all_def mark_def [abs_def])
qed

theorem sendShutdown_tells_quota_witness:
  "\<exists>r'. sendShutdown ''p'' 0 one_worker = Ret (False, r') \<and> reg_inv r' \<and> map_option td_should_shutdown (reg_view r' 7) = Some True"
proof -
  have "{t \<in> pool_members ''p'' (reg_view one_worker). \<exists>d. reg_view one_worker t = Some d \<and> \<not> td_should_shutdown d} = {7}"
    by (auto simp: pool_members_def one_worker_view fresh_data_def)
  then have "[7] = take (if (0 :: u32) = 0 then 2 ^ 32 else unat (0 :: u32))
      (sorted_list_of_set {t \<in> pool_members ''p'' (reg_view one_worker). \<exists>d. reg_view one_worker t = Some d \<and> \<not> td_should_shutdown d})"
    by simp
  from sendShutdown_tells_quota [OF one_worker_inv this] show ?thesis by (auto simp: one_worker_view fresh_data_def)
qed

text \<open>
  C6: A worker that reports its start, then any sequence of job reports that leaves no function
  active, then its end, leaves every idle and working gauge of the metrics at its earlier value.
\<close>

theorem metric_lifetime_balances:
  assumes "wrapper_run MetricProxy_methods es (wrap pool) (w_reportThreadStarted MetricProxy_methods (wrap pool) m) = (w, m1)"
    and "m_active_function w = []"
  shows "idle_gauge p (snd (w_reportThreadEnded MetricProxy_methods w m1)) = idle_gauge p m \<and>
    working_gauge p f (snd (w_reportThreadEnded MetricProxy_methods w m1)) = working_gauge p f m"
  using mp.lifetime_balances [OF assms] by simp

theorem metric_lifetime_balances_witness:
  "\<exists>w m1. wrapper_run MetricProxy_methods [Job_begins ''f'', Job_fails ''f'', Work_completes] (wrap ''p'')
      (w_reportThreadStarted MetricProxy_methods (wrap ''p'') new_MetricProxy) = (w, m1) \<and>
    idle_gauge ''p'' (snd (w_reportThreadEnded MetricProxy_methods w m1)) = idle_gauge ''p'' new_MetricProxy"
proof -
  obtain w m1 where run: "wrapper_run MetricProxy_methods [Job_begins ''f'', Job_fails ''f'', Work_completes] (wrap ''p'')
      (w_reportThreadStarted MetricProxy_methods (wrap ''p'') new_MetricProxy) = (w, m1)" by (metis surj_pair)
  then have "m_active_function w = []"
    by (auto simp: w_reportThreadStartingWork_def w_reportThreadWorkComplete_def wrap_def)
  from metric_lifetime_balances [OF run this, of "''p''"] run show ?thesis by blast
qed

text \<open>
  C7: A worker that ends while a function is still active (an exception between a job's start and
  the report that work is complete) has its working gauge closed, but its end is not reported: the
  idle gauge of its pool stays one too high for the rest of the process.
\<close>

theorem busy_end_leaks_an_idle_thread:
  assumes "wrapper_run MetricProxy_methods es (wrap pool) (w_reportThreadStarted MetricProxy_methods (wrap pool) m) = (w, m1)"
    and "m_active_function w = [g]"
  shows "idle_gauge pool (snd (w_reportThreadEnded MetricProxy_methods w m1)) = idle_gauge pool m + 1 \<and>
    working_gauge p f (snd (w_reportThreadEnded MetricProxy_methods w m1)) = working_gauge p f m"
  using mp.busy_end_leaks_idle [OF assms] by simp

theorem busy_end_leaks_an_idle_thread_witness:
  "\<exists>w m1. wrapper_run MetricProxy_methods [Job_begins ''f''] (wrap ''p'')
      (w_reportThreadStarted MetricProxy_methods (wrap ''p'') new_MetricProxy) = (w, m1) \<and>
    idle_gauge ''p'' (snd (w_reportThreadEnded MetricProxy_methods w m1)) = idle_gauge ''p'' new_MetricProxy + 1"
proof -
  obtain w m1 where run: "wrapper_run MetricProxy_methods [Job_begins ''f''] (wrap ''p'')
      (w_reportThreadStarted MetricProxy_methods (wrap ''p'') new_MetricProxy) = (w, m1)" by (metis surj_pair)
  then have "m_active_function w = [''f'']" by (auto simp: w_reportThreadStartingWork_def wrap_def)
  from busy_end_leaks_an_idle_thread [OF run this] run show ?thesis by blast
qed

section \<open>The watcher, the configuration and the main loop\<close>

text \<open>
  C8: A call of ThreadPoolWatcher::inform that returns is, on the abstract pool sizes, an
  adjustment of one pool: with more threads than configured it tells as many more threads to stop
  as there are threads too many (told ones included), with fewer it starts the missing ones; the
  other pools and the registry's invariant are untouched.
\<close>

theorem inform_adjusts_one_pool:
  assumes "watcher_ok w" and "inform H n p servers jobs uri w = Ret w'"
  shows "watcher_ok w' \<and>
    (\<forall>q. pool_size q w' = (if q = p then max (pool_size p w) (unat n) else pool_size q w)) \<and>
    (\<forall>q. active q w' = (if q = p then active p w + (unat n - pool_size p w) - (pool_size p w - unat n) else active q w))"
  using inform_effect [OF assms] by (simp add: adjusted_def)

theorem inform_adjusts_one_pool_witness:
  "\<exists>w'. inform demo_host 3 ''p'' [] [] [] demo_watcher = Ret w' \<and> pool_size ''p'' w' = 3 \<and> active ''p'' w' = 3"
proof -
  obtain w' where "inform demo_host 3 ''p'' [] [] [] demo_watcher = Ret w'"
    using inform_returns [OF demo_watcher_ok(1) demo_healthy] unfolding returns_iff by blast
  with inform_adjusts_one_pool [OF demo_watcher_ok(1) this] show ?thesis by simp
qed

text \<open>
  C9: When the host can start a thread with an unused identifier and libgearman accepts the
  servers and jobs, inform returns: no exception of the worker's constructor, no failed registry
  assertion.
\<close>

theorem inform_returns_on_a_healthy_host:
  assumes "watcher_ok w" and "healthy H servers jobs"
  shows "\<exists>w'. inform H n p servers jobs uri w = Ret w'"
  using inform_returns [OF assms] by (simp add: returns_iff)

theorem inform_returns_on_a_healthy_host_witness: "\<exists>w'. inform demo_host 3 ''p'' [] [] [] demo_watcher = Ret w'"
  using inform_returns_on_a_healthy_host [OF demo_watcher_ok(1) demo_healthy] .

text \<open>
  C10: The worker is built inside a noexcept thread function: when libgearman refuses a server or
  a job, the retriable exception of the GearmanClient constructor is never retried but ends the
  whole process.
\<close>

theorem failing_constructor_ends_the_process:
  assumes "reg_inv (sh_registry sh)" and "\<not> accepts (h_gearman H) servers jobs"
  shows "gearman_thread_delegate L H keepalive t pool servers jobs uri us sh = Some Terminate"
proof -
  have "\<not> returns (delegate_start H t pool servers jobs uri sh)" using delegate_start_iff [OF assms(1)] assms(2) by simp
  then show ?thesis by (cases "delegate_start H t pool servers jobs uri sh") (simp_all add: gearman_thread_delegate_def)
qed

theorem failing_constructor_ends_the_process_witness:
  "gearman_thread_delegate demo_libc (demo_host\<lparr>h_gearman := demo_gearman\<lparr>gl_add_servers := (\<lambda>s. GEARMAN_TIMEOUT)\<rparr>\<rparr>)
     False 8 ''p'' [''s''] [] [] [] demo_shared = Some Terminate"
  by (rule failing_constructor_ends_the_process) (simp_all add: demo_shared_def accepts_def)

text \<open>
  C11: Threads that were told to stop still count as pool members until they end, so a second
  inform with the same target (the next reload, before they have ended) tells the surplus again:
  the pool ends with fewer active workers than configured.
\<close>

theorem repeated_inform_overshoots:
  assumes "watcher_ok w" and "active p w = pool_size p w" and "unat n < pool_size p w"
    and "inform H n p servers jobs uri w = Ret w1" and "inform H n p servers jobs uri w1 = Ret w2"
  shows "active p w1 = unat n \<and> active p w2 = unat n - (pool_size p w - unat n)"
  using inform_twice [OF assms] by simp

theorem repeated_inform_overshoots_witness:
  "\<exists>w w1 w2. pool_size ''p'' w = 3 \<and> inform demo_host 2 ''p'' [] [] [] w = Ret w1 \<and>
     inform demo_host 2 ''p'' [] [] [] w1 = Ret w2 \<and> active ''p'' w1 = 2 \<and> active ''p'' w2 = 1"
proof -
  have total: "\<exists>w'. inform demo_host n ''p'' [] [] [] w = Ret w'" if "watcher_ok w" for n w
    using inform_returns [OF that demo_healthy] unfolding returns_iff by blast
  obtain w where w: "inform demo_host 3 ''p'' [] [] [] demo_watcher = Ret w" using total by fastforce
  have ok: "watcher_ok w" "pool_size ''p'' w = 3" "active ''p'' w = 3"
    using inform_effect [OF _ w] by (simp_all add: adjusted_def)
  obtain w1 where w1: "inform demo_host 2 ''p'' [] [] [] w = Ret w1" using total [OF ok(1)] by blast
  have "watcher_ok w1" using inform_effect [OF ok(1) w1] by blast
  then obtain w2 where w2: "inform demo_host 2 ''p'' [] [] [] w1 = Ret w2" using total by blast
  from repeated_inform_overshoots [OF ok(1) _ _ w1 w2] ok(2,3) w1 w2 show ?thesis
    by (intro exI [of _ w] exI [of _ w1] exI [of _ w2]) simp
qed

text \<open>
  C12: DriveshaftConfig::compare returns exactly the pools to turn off (of the old configuration)
  and to turn on (of the new one): all of them if the server lists differ, otherwise those that
  exist on one side only or whose URI or job set changed; a mere change of the worker count is not
  a reason.
\<close>

theorem compare_finds_changed_pools:
  assumes "config_inv this" and "config_inv that"
  shows "set (fst (compare this that)) = {p \<in> pool_names this. m_server_list this \<noteq> m_server_list that \<or> pool_changed this that p} \<and>
    set (snd (compare this that)) = {p \<in> pool_names that. m_server_list this \<noteq> m_server_list that \<or> pool_changed this that p}"
  using compare_spec [OF assms] by simp

theorem compare_finds_changed_pools_witness:
  "config_inv demo_config \<and> set (fst (compare demo_config new_DriveshaftConfig)) = {''p''} \<and>
   set (fst (compare demo_config demo_config)) = {}"
proof -
  have n: "pool_names demo_config = {''p''}" by (auto simp: demo_config_def pool_names_def split: if_splits)
  have "m_server_list demo_config \<noteq> m_server_list new_DriveshaftConfig" by (simp add: demo_config_def new_DriveshaftConfig_def)
  moreover have "\<not> pool_changed demo_config demo_config ''p''" by (simp add: demo_config_def pool_changed_def)
  ultimately show ?thesis
    using compare_finds_changed_pools [OF demo_config_inv config_inv_new]
      compare_finds_changed_pools [OF demo_config_inv demo_config_inv] demo_config_inv by (simp add: n)
qed

text \<open>
  C13: supersede makes exactly one sequence of calls of its watcher, whatever the watcher does:
  first a call with count 0 for every pool compare turns off, with the old configuration's data,
  then one call per pool of the new configuration with its own count; an exception of the watcher
  ends the sequence there, and the pools turned off are recorded with count 0 in the old
  configuration.
\<close>

theorem supersede_is_a_call_sequence:
  assumes "config_inv this" and "config_inv old"
  shows "supersede watch this old w =
    cxx_bind (inform_all watch (map (stop_call old) (fst (compare old this)) @ map (size_call this) (map_keys (m_pool_map this))) w)
      (\<lambda>w'. Ret (zero_pools (fst (compare old this)) old, w'))"
  using supersede_alt [OF assms] by (simp add: supersede_calls_def)

theorem supersede_is_a_call_sequence_witness:
  "supersede (\<lambda>n p s j u calls. Ret (calls @ [(n, p)])) new_DriveshaftConfig demo_config [] =
     Ret (zero_pools [''p''] demo_config, [(0, ''p'')])"
proof -
  have "compare demo_config new_DriveshaftConfig = ([''p''], [])"
    by (simp add: compare_def demo_config_def new_DriveshaftConfig_def)
  then show ?thesis
    using supersede_is_a_call_sequence [OF config_inv_new demo_config_inv, of "\<lambda>n p s j u calls. Ret (calls @ [(n, p)])" "[]"]
    by (simp add: stop_call_def new_DriveshaftConfig_def)
qed

text \<open>
  C14: On a healthy host superseding a configuration returns. Every worker of every pool that
  compare turns off has then been told to stop, and such a pool, if the new configuration has it,
  gets as many new workers as its count exceeds the number of its old ones, told or not: the rest
  follow in a later reload. A pool that is not turned off is adjusted by the difference of its
  count and its size, so it ends with exactly the configured number of active workers when none of
  its workers was on its way out.
\<close>

theorem reload_reaches_configured_counts:
  assumes "\<And>servers jobs. healthy H servers jobs" and "config_inv this" and "config_inv old" and "watcher_ok w"
  shows "\<exists>old' w'. supersede (inform H) this old w = Ret (old', w') \<and> watcher_ok w' \<and>
    (\<forall>p\<in>set (fst (compare old this)). \<forall>t\<in>pool_members p (wview w). shouldShutdown t (sh_registry (ws_shared w')) = Ret True) \<and>
    (\<forall>q\<in>pool_names this. q \<in> set (fst (compare old this)) \<longrightarrow> active q w' = unat (worker_count (pool_of this q)) - pool_size q w) \<and>
    (\<forall>q\<in>pool_names this. q \<notin> set (fst (compare old this)) \<longrightarrow>
       active q w' = active q w + (unat (worker_count (pool_of this q)) - pool_size q w) - (pool_size q w - unat (worker_count (pool_of this q))) \<and>
       (active q w = pool_size q w \<longrightarrow> active q w' = unat (worker_count (pool_of this q))))"
proof -
  obtain old' w' where s: "supersede (inform H) this old w = Ret (old', w')"
    using supersede_returns [of H this old w] assms by blast
  with tpw.supersede_effect [OF assms(2,3,4) s] supersede_tells [OF assms(2,3,4) s] show ?thesis
    by (intro exI [of _ old'] exI [of _ w']) (auto simp: adjusted_def Let_def)
qed

theorem reload_reaches_configured_counts_witness:
  "(\<exists>old' w'. supersede (inform demo_host) demo_config new_DriveshaftConfig new_watcher = Ret (old', w') \<and> active ''p'' w' = 2) \<and>
   (\<exists>old' w'. supersede (inform demo_host) demo_config (demo_config\<lparr>m_server_list := [''r'']\<rparr>) demo_watcher = Ret (old', w') \<and>
      shouldShutdown 7 (sh_registry (ws_shared w')) = Ret True \<and> active ''p'' w' = 1)"
proof -
  have w: "watcher_ok new_watcher" "active ''p'' new_watcher = 0" "pool_size ''p'' new_watcher = 0"
    by (simp_all add: watcher_ok_def pool_size_def active_def live_def pool_members_def new_watcher_def)
  have c: "''p'' \<in> pool_names demo_config" "worker_count (pool_of demo_config ''p'') = 2"
      "''p'' \<notin> set (fst (compare new_DriveshaftConfig demo_config))"
    by (simp_all add: demo_config_def pool_names_def pool_of_def compare_def new_DriveshaftConfig_def)
  have o: "config_inv (demo_config\<lparr>m_server_list := [''r'']\<rparr>)"
    using demo_config_inv by (simp add: config_inv_def demo_config_def set_inv_def)
  have r: "''p'' \<in> set (fst (compare (demo_config\<lparr>m_server_list := [''r'']\<rparr>) demo_config))" "7 \<in> pool_members ''p'' (wview demo_watcher)"
    by (simp_all add: compare_def demo_config_def demo_watcher_def demo_shared_def one_worker_members)
  show ?thesis
    using reload_reaches_configured_counts [OF demo_healthy demo_config_inv config_inv_new w(1)] w c
      reload_reaches_configured_counts [OF demo_healthy demo_config_inv o demo_watcher_ok(1)] r demo_watcher_ok(2,3)
    by fastforce
qed

text \<open>
  C15: On a healthy host, and as long as the configuration file can be loaded, the main loop runs
  through its reload iterations without an exception and returns once a shutdown signal has been
  seen.
\<close>

theorem shutdown_ends_the_loop:
  assumes "\<And>servers jobs. healthy H servers jobs" and "main_inv ml"
    and "\<forall>it\<in>set its. it_shutdown it = NO \<and> iteration_ok it \<and> loads L parse (ml_config_filename ml) it"
    and "iteration_ok stop" and "it_shutdown stop = shutdown_handler signal"
  shows "\<exists>ml'. main_iterations L H D parse (its @ stop # rest) ml = Some (Ret ml')"
  using main_iterations_end [OF assms(1) _ assms(4,2,3)] assms(5) by (simp add: shutdown_handler_def split: if_splits)

theorem shutdown_ends_the_loop_witness:
  "\<exists>ml'. main_iterations demo_libc demo_host (compute_durations 10) (OurCharReader_parse strict_features demo_libc)
     [demo_iteration NO, demo_iteration (shutdown_handler SIGTERM)] demo_main = Some (Ret ml')"
proof -
  have "\<exists>ml'. main_iterations demo_libc demo_host (compute_durations 10) (OurCharReader_parse strict_features demo_libc)
      ([demo_iteration NO] @ demo_iteration (shutdown_handler SIGTERM) # []) demo_main = Some (Ret ml')"
    by (rule shutdown_ends_the_loop [where signal = SIGTERM])
      (simp_all add: demo_healthy demo_main_inv demo_iteration_ok demo_iteration_loads, simp_all add: demo_iteration_def)
  then show ?thesis by simp
qed

text \<open>
  C16: The main loop returns only through a shutdown: then the global force flag is set, every
  worker of every configured pool has been told to stop, and the last thing the loop did was to
  sleep for the duration that belongs to the signal.
\<close>

theorem shutdown_tells_every_worker:
  assumes "main_inv ml" and "\<forall>it\<in>set its. iteration_ok it"
    and "main_iterations L H D parse its ml = Some (Ret ml')"
  shows "ml_force ml' \<and> (\<forall>p\<in>pool_names (ml_config ml'). active p (ml_watcher ml') = 0) \<and>
    (\<exists>it\<in>set its. it_shutdown it \<noteq> NO \<and> last (ml_sleeps ml') =
       (if it_shutdown it = GRACEFUL then GRACEFUL_SHUTDOWN_WAIT_DURATION D else HARD_SHUTDOWN_WAIT_DURATION D))"
  using main_iterations_shutdown [OF assms] .

theorem shutdown_tells_every_worker_witness:
  "\<exists>ml'. main_iterations demo_libc demo_host (compute_durations 10) (OurCharReader_parse strict_features demo_libc)
     [demo_iteration NO, demo_iteration HARD] demo_main = Some (Ret ml') \<and> ml_force ml' \<and> last (ml_sleeps ml') = 20"
proof -
  obtain ml' where run: "main_iterations demo_libc demo_host (compute_durations 10) (OurCharReader_parse strict_features demo_libc)
      ([demo_iteration NO] @ demo_iteration HARD # []) demo_main = Some (Ret ml')"
    using main_iterations_end [OF demo_healthy, of "demo_iteration HARD" demo_main "[demo_iteration NO]" demo_libc
        "OurCharReader_parse strict_features demo_libc" "compute_durations 10" "[]"]
    by (auto simp: demo_main_inv demo_iteration_ok demo_iteration_loads demo_iteration_shutdown)
  from shutdown_tells_every_worker [OF demo_main_inv _ run] run show ?thesis
    by (auto simp: demo_iteration_ok demo_iteration_shutdown compute_durations_def Let_def)
qed

text \<open>
  C17: A daemon whose start-up succeeds, on a healthy host, runs through any number of reloads and
  then ends with exit code 0 when a shutdown signal arrives, and with exit code 1 at the first
  reload whose configuration file cannot be loaded, since nothing between the loop and main
  catches the exception: a broken file kills a running daemon, its workers with it. Either way
  curl's global cleanup is done, and the pid file, if one was asked for and access and unlink
  succeed on it, is gone while every other file is untouched.
\<close>

theorem daemon_exit_code:
  assumes "startup_ok S opts pr" and "\<And>servers jobs. healthy (system_host S opts) servers jobs"
    and "\<forall>it\<in>set its. it_shutdown it = NO \<and> iteration_ok it \<and> loads L (OurCharReader_parse strict_features L) (opt_jobsconfig opts) it"
    and "iteration_ok it" and "it_shutdown it = NO \<longrightarrow>
      (\<exists>e. fst (load L (OurCharReader_parse strict_features L) (it_env it) (opt_jobsconfig opts) new_DriveshaftConfig) = Throw e)"
  shows "\<exists>pr'. daemon_main L S (Options opts) (its @ it # rest) pr = Some (Exit (if it_shutdown it = NO then 1 else 0), pr') \<and>
    pr_curl_global pr' = pr_curl_global pr \<and>
    (opt_pid_file opts \<noteq> [] \<and> fc_access (sy_files S) (c_str (opt_pid_file opts)) \<and> fc_unlink (sy_files S) (c_str (opt_pid_file opts)) \<longrightarrow>
       fs_files (pr_fs pr') = (fs_files (pr_fs pr))(c_str (opt_pid_file opts) := None))"
proof -
  let ?run = "main_iterations L (system_host S opts) (compute_durations (opt_loop_timeout opts)) (OurCharReader_parse strict_features L)
    (its @ it # rest) (start_loop opts)"
  have f: "ml_config_filename (start_loop opts) = opt_jobsconfig opts" by (simp add: start_loop_def)
  have "\<exists>r. ?run = Some r \<and> r \<noteq> Terminate \<and> (returns r \<longleftrightarrow> it_shutdown it \<noteq> NO)"
  proof (cases "it_shutdown it = NO")
    case True
    then show ?thesis
      using main_iterations_bad_config [of "system_host S opts" it L _ "start_loop opts"] assms start_loop_inv f by fastforce
  next
    case False
    then show ?thesis
      using main_iterations_end [of "system_host S opts" it "start_loop opts" its L _ _ rest] assms start_loop_inv f by fastforce
  qed
  then obtain r where r: "?run = Some r" "r \<noteq> Terminate" "returns r \<longleftrightarrow> it_shutdown it \<noteq> NO" by blast
  show ?thesis using daemon_exit [OF assms(1) r(1,2)] r(3) by (cases "it_shutdown it = NO") simp_all
qed

theorem daemon_exit_code_witness:
  "(\<exists>pr'. daemon_main demo_libc good_system (Options demo_options) [demo_iteration NO, unreadable] demo_process = Some (Exit 1, pr') \<and>
      fs_files (pr_fs pr') = [''/etc/motd'' \<mapsto> ''hello'']) \<and>
   (\<exists>pr'. daemon_main demo_libc good_system (Options demo_options) [demo_iteration NO, demo_iteration HARD] demo_process = Some (Exit 0, pr'))"
proof -
  have h: "healthy (system_host good_system demo_options) servers jobs" for servers jobs
    using demo_healthy [of servers jobs] by (simp add: healthy_def system_host_def demo_host_def demo_system_def)
  have e: "\<exists>e. fst (load demo_libc (OurCharReader_parse strict_features demo_libc) (it_env unreadable) (opt_jobsconfig demo_options)
      new_DriveshaftConfig) = Throw e"
    by (simp add: unreadable_def demo_env_def load_def needsConfigUpdate_def fetchFileContents_def new_DriveshaftConfig_def)
  have g: "opt_pid_file demo_options \<noteq> []" "fc_access (sy_files good_system) (c_str (opt_pid_file demo_options))"
    "fc_unlink (sy_files good_system) (c_str (opt_pid_file demo_options))"
    "(fs_files (pr_fs demo_process))(c_str (opt_pid_file demo_options) := None) = [''/etc/motd'' \<mapsto> ''hello'']"
    by (simp_all add: demo_options_def demo_system_def demo_process_def c_str_def fun_eq_iff)
  have u: "iteration_ok unreadable" "it_shutdown unreadable = NO" using demo_iteration_ok [of NO] by (simp_all add: unreadable_def iteration_ok_def demo_iteration_def)
  show ?thesis
    using daemon_exit_code [OF good_startup h _ u(1), where its = "[demo_iteration NO]" and rest = "[]" and L = demo_libc]
      daemon_exit_code [OF good_startup h _ demo_iteration_ok [of HARD], where its = "[demo_iteration NO]" and rest = "[]" and L = demo_libc]
      e g u(2) demo_iteration_loads demo_iteration_ok [of NO] by (auto simp: demo_iteration_shutdown)
qed

text \<open>
  C18: What load makes of the configuration file, whatever the object held before. A file not
  newer than the last load changes nothing and gives false. A newer file whose text parses, with
  the pools as the ordered map the library builds, is accepted with a well-formed configuration as
  the result exactly if the document describes that configuration (an array of strings with
  exactly its servers, an object with exactly its pools, each with an integral worker count in the
  range of uint32_t, a string as the URI, and job names that convert to exactly its jobs), and
  throws or ends the process if it describes none. A file that cannot be read, is not accepted by
  the reader or lacks the two lists leaves servers and pools as they were.
\<close>

theorem load_reads_the_document:
  assumes "config_inv cfg" and "config_inv c0" and "env_mtime env f = Some modified"
    and "\<forall>m pools. tree = ObjectV m \<longrightarrow> map_find POOLS_LIST m = Some (ObjectV pools) \<longrightarrow> map_inv pools"
  shows "(modified \<le> m_load_time c0 \<longrightarrow> load L parse env f c0 = (Ret False, c0)) \<and>
    (modified > m_load_time c0 \<and> env_read env f = Some contents \<and> parse contents = Ret (True, errors, tree) \<longrightarrow>
       (load L parse env f c0 = (Ret True, cfg\<lparr>m_config_filename := f, m_load_time := env_now env\<rparr>) \<longleftrightarrow> describes L tree cfg) \<and>
       (returns (fst (load L parse env f c0)) \<longrightarrow> config_inv (snd (load L parse env f c0)) \<and> describes L tree (snd (load L parse env f c0)))) \<and>
    (env_read env f = None \<or> env_read env f = Some contents \<and> \<not> returns (parsed_tree parse contents) \<longrightarrow>
       m_server_list (snd (load L parse env f c0)) = m_server_list c0 \<and> m_pool_map (snd (load L parse env f c0)) = m_pool_map c0)"
proof (intro conjI impI)
  assume new: "modified > m_load_time c0 \<and> env_read env f = Some contents \<and> parse contents = Ret (True, errors, tree)"
  then show "load L parse env f c0 = (Ret True, cfg\<lparr>m_config_filename := f, m_load_time := env_now env\<rparr>) \<longleftrightarrow> describes L tree cfg"
    using load_tree [of env f modified c0 contents parse errors tree cfg L] assms by blast
  assume "returns (fst (load L parse env f c0))"
  then show "config_inv (snd (load L parse env f c0))" "describes L tree (snd (load L parse env f c0))"
    using load_accepts [of env f modified c0 contents parse errors tree L] assms new by blast+
qed (use load_old [OF assms(3)] load_rejected [of env f parse L c0] in auto)

theorem load_reads_the_document_witness:
  "load demo_libc (\<lambda>s. Ret (True, [], config_tree demo_config)) (demo_env []) ''f'' (demo_config\<lparr>m_server_list := [''old'']\<rparr>) =
     (Ret True, demo_config\<lparr>m_config_filename := ''f'', m_load_time := 9\<rparr>) \<and>
   \<not> returns (fst (load demo_libc (\<lambda>s. Ret (True, [], ObjectV [])) (demo_env []) ''f'' demo_config))"
proof -
  have o: "config_inv (demo_config\<lparr>m_server_list := [''old'']\<rparr>)" using demo_config_inv by (simp add: config_inv_def demo_config_def set_inv_def)
  have m: "\<forall>m pools. config_tree demo_config = ObjectV m \<longrightarrow> map_find POOLS_LIST m = Some (ObjectV pools) \<longrightarrow> map_inv pools"
    by (simp add: config_tree_def demo_config_def cfgkeys map_inv_def set_inv_def map_keys_def)
  have t: "env_mtime (demo_env []) ''f'' = Some 5" by (simp add: demo_env_def)
  have "describes demo_libc (config_tree demo_config) demo_config"
    by (auto simp: describes_def config_tree_def demo_config_def cfgkeys string_array_def pool_names_def pool_of_def pool_described_def pool_tree_def
        map_inv_def set_inv_def map_keys_def worker_count_value asString_def split: if_splits)
  moreover have "\<not> describes demo_libc (ObjectV []) cfg" for cfg by (simp add: describes_def)
  ultimately show ?thesis
    using load_reads_the_document [OF demo_config_inv o t m, where parse = "\<lambda>s. Ret (True, [], config_tree demo_config)" and contents = "[]" and errors = "[]"
        and L = demo_libc]
      load_reads_the_document [OF demo_config_inv demo_config_inv t, where tree = "ObjectV []" and parse = "\<lambda>s. Ret (True, [], ObjectV [])" and contents = "[]"
        and errors = "[]" and L = demo_libc]
    by (simp add: demo_env_def demo_config_def)
qed

text \<open>
  C19: Writing the JSON document of a well-formed configuration and loading that file with the
  daemon's strict reader gives the configuration back, with the file's name and the load time:
  reader, validation and both parsing loops together lose nothing, for every configuration whose
  strings fit the JSON library's length limits.
\<close>

theorem configuration_file_round_trip:
  assumes "config_inv cfg" and "fits_json cfg"
    and "env_mtime env f = Some modified" and "modified > m_load_time c0" and "env_read env f = Some (config_text L cfg)"
  shows "load L (OurCharReader_parse strict_features L) env f c0 =
    (Ret True, cfg\<lparr>m_config_filename := f, m_load_time := env_now env\<rparr>)"
  using load_config_text [OF assms] by simp

theorem configuration_file_round_trip_witness:
  "load demo_libc (OurCharReader_parse strict_features demo_libc) (demo_env (config_text demo_libc demo_config)) ''f'' new_DriveshaftConfig =
     (Ret True, demo_config\<lparr>m_config_filename := ''f'', m_load_time := 9\<rparr>)"
proof -
  have "fits_json demo_config" by (simp add: fits_json_def demo_config_def maxInt_def)
  from configuration_file_round_trip [OF demo_config_inv this, of "demo_env (config_text demo_libc demo_config)" "''f''" 5
      new_DriveshaftConfig demo_libc]
  show ?thesis by (simp add: demo_env_def new_DriveshaftConfig_def)
qed

section \<open>A job and the worker that runs it\<close>

text \<open>
  C20: When the request can be prepared, the curl handle carries every option the code sets, the
  pool's URI among them, and as its form exactly the job's function name, handle, unique id and
  workload, whole, in this order.
\<close>

theorem request_carries_the_job:
  assumes "prepare C keepalive uri start_ts job = (True, handle, formpost, headerlist)"
  shows "handle = curl_options keepalive uri start_ts headerlist @ [CURLOPT_HTTPPOST
      [\<lparr>fp_name = ''function_name'', fp_contents = job_function_name job\<rparr>,
       \<lparr>fp_name = ''job_handle'', fp_contents = job_handle job\<rparr>,
       \<lparr>fp_name = ''unique'', fp_contents = job_unique job\<rparr>,
       \<lparr>fp_name = ''workload'', fp_contents = job_workload job\<rparr>]] \<and> CURLOPT_URL (c_str uri) \<in> set handle"
  using prepare_ready [OF assms] by (simp add: job_form_def curl_options_def)

theorem request_carries_the_job_witness:
  "\<exists>handle formpost headerlist. prepare (demo_curl (answers CURLE_OK 200 [])) True ''u'' 100 demo_job = (True, handle, formpost, headerlist) \<and>
     CURLOPT_URL (c_str ''u'') \<in> set handle"
proof -
  obtain handle formpost headerlist where
      p: "prepare (demo_curl (answers CURLE_OK 200 [])) True ''u'' 100 demo_job = (True, handle, formpost, headerlist)"
    by (simp add: prepare_def demo_curl_def curl_options_def job_form_def Let_def)
  from request_carries_the_job [OF p] p show ?thesis by blast
qed



text \<open>
  C22: Whenever a job cannot be brought to an answer (a library call fails, the transfer fails or
  is aborted, the HTTP status is not 200, the answer does not parse or lacks a field), processJob
  returns GEARMAN_WORK_FAIL with the result string untouched, counts exactly one job error, counts
  one timeout exactly if the transfer was aborted by the progress callback, and releases
  everything curl gave it.
\<close>

theorem failed_job_is_reported:
  assumes "setThreadState t (job_state job) (sh_registry sh) = Ret reg"
    and "job_fails L G (job_transfer C keepalive clock job cl) cl"
  shows "\<exists>sh'. processJob L G C keepalive clock t job result cl sh = Ret (GEARMAN_WORK_FAIL, result, begin_job job cl, sh') \<and>
    error_count job cl (sh_metrics sh') = Suc (error_count job cl (sh_metrics sh)) \<and>
    timeout_count job cl (sh_metrics sh') = timeout_count job cl (sh_metrics sh) +
      (case job_transfer C keepalive clock job cl of
         Some tr \<Rightarrow> if tr_code tr = CURLE_ABORTED_BY_CALLBACK then 1 else 0 | None \<Rightarrow> 0) \<and>
    sh_registry sh' = reg \<and> sh_curl_handles sh' = sh_curl_handles sh \<and> sh_curl_slists sh' = sh_curl_slists sh \<and>
    sh_curl_forms sh' = sh_curl_forms sh"
  using processJob_failure [OF assms] by (auto simp: same_curl_def)

theorem failed_job_is_reported_witness:
  "\<exists>cl' sh'. processJob demo_libc demo_gearman (demo_curl (answers CURLE_OK 500 [])) True demo_clock 7 demo_job [] demo_client
     demo_shared = Ret (GEARMAN_WORK_FAIL, [], cl', sh')"
proof -
  obtain reg where "setThreadState 7 (job_state demo_job) (sh_registry demo_shared) = Ret reg" using demo_state by blast
  moreover have "job_fails demo_libc demo_gearman (job_transfer (demo_curl (answers CURLE_OK 500 [])) True demo_clock demo_job demo_client)
      demo_client" by (simp add: demo_transfer job_fails_def answers_def)
  ultimately show ?thesis using failed_job_is_reported by blast
qed

text \<open>
  C23: With a curl that honours its callbacks, a job during whose transfer the progress callback
  ever sees the force flag, or more than the maximal running time since the start, fails with
  GEARMAN_WORK_FAIL and is counted as a timeout, whatever the server has answered.
\<close>

theorem overlong_job_is_aborted:
  assumes "setThreadState t (job_state job) (sh_registry sh) = Ret reg"
    and "job_transfer C keepalive clock job cl = Some tr" and "curl_contract max_time (jc_start clock) tr"
    and "(force, now) \<in> set (tr_ticks tr)" and "force \<or> jc_start clock + int (unat max_time) < now"
  shows "\<exists>sh'. processJob L G C keepalive clock t job result cl sh = Ret (GEARMAN_WORK_FAIL, result, begin_job job cl, sh') \<and>
    timeout_count job cl (sh_metrics sh') = Suc (timeout_count job cl (sh_metrics sh))"
proof -
  have "curl_progress_func force max_time now (jc_start clock) \<noteq> 0" using assms(5) by (auto simp: curl_progress_func_def)
  with assms(3,4) have a: "tr_code tr = CURLE_ABORTED_BY_CALLBACK" unfolding curl_contract_def by blast
  then have "job_fails L G (job_transfer C keepalive clock job cl) cl" by (simp add: job_fails_def assms(2))
  from processJob_failure [OF assms(1) this] show ?thesis by (fastforce simp: assms(2) a)
qed

theorem overlong_job_is_aborted_witness:
  "\<exists>cl' sh'. processJob demo_libc demo_gearman (demo_curl (answers CURLE_ABORTED_BY_CALLBACK 0 [])) True demo_clock 7 demo_job []
     demo_client demo_shared = Ret (GEARMAN_WORK_FAIL, [], cl', sh')"
proof -
  let ?tr = "answers CURLE_ABORTED_BY_CALLBACK 0 []"
  obtain reg where s: "setThreadState 7 (job_state demo_job) (sh_registry demo_shared) = Ret reg" using demo_state by blast
  have c: "curl_contract 0 (jc_start demo_clock) ?tr" by (simp add: curl_contract_def answers_def)
  have "(False, 101) \<in> set (tr_ticks ?tr)" "False \<or> jc_start demo_clock + int (unat 0) < 101"
    by (simp_all add: answers_def demo_clock_def)
  from overlong_job_is_aborted [OF s demo_transfer c this, of demo_libc demo_gearman "[]"] show ?thesis by blast
qed

text \<open>
  C24: processJob is noexcept and does not guard against two answers a server can give with status
  200: a JSON array, and an object whose gearman_ret passes isUInt but not asInt (2^31 and above).
  Either ends the whole daemon.
\<close>

theorem unexpected_answer_ends_the_process:
  assumes "job_transfer C keepalive clock job cl = Some tr" and "tr_code tr = CURLE_OK" and "tr_http_code tr = 200"
    and "OurCharReader_parse (m_json_parser cl) L (response_body tr) = Ret (True, errs, tree)"
    and "isArray tree \<or> (\<exists>m r str. tree = ObjectV m \<and> map_find ''gearman_ret'' m = Some r \<and> isUInt r \<and> \<not> isInt r \<and>
           map_find ''response_string'' m = Some (StringV str))"
  shows "processJob L G C keepalive clock t job result cl sh = Terminate"
proof -
  have "\<not> returns (read_response L G (m_json_parser cl) (response_body tr))"
    using assms(5)
  proof
    assume "isArray tree"
    then have "\<not> isNull tree" "\<not> isObject tree" by (auto simp: isArray_def isNull_def isObject_def)
    from read_response_wrong_root [OF assms(4) this, of G] show ?thesis by auto
  next
    assume "\<exists>m r str. tree = ObjectV m \<and> map_find ''gearman_ret'' m = Some r \<and> isUInt r \<and> \<not> isInt r \<and>
           map_find ''response_string'' m = Some (StringV str)"
    then obtain m r str where m: "tree = ObjectV m" "map_find ''gearman_ret'' m = Some r" "isUInt r" "\<not> isInt r"
      "map_find ''response_string'' m = Some (StringV str)" by blast
    from read_response_object [OF assms(4) [unfolded m(1)] m(2,5,3), of G] isUInt_asInt_large [OF m(3,4)] m(4)
    show ?thesis by auto
  qed
  from processJob_crash [OF assms(1-3) this] show ?thesis .
qed

theorem unexpected_answer_ends_the_process_witness:
  "processJob demo_libc demo_gearman (demo_curl (answers CURLE_OK 200 ''[]'')) True demo_clock 7 demo_job [] demo_client demo_shared = Terminate"
proof -
  have "OurCharReader_parse strict_features demo_libc ''[]'' = Ret (True, [], ArrayV [])" by code_simp
  moreover have "response_body (answers CURLE_OK 200 ''[]'') = ''[]''" by (rule demo_response) simp
  ultimately have "OurCharReader_parse (m_json_parser demo_client) demo_libc (response_body (answers CURLE_OK 200 ''[]'')) =
      Ret (True, [], ArrayV [])" by (simp add: demo_client_def)
  from unexpected_answer_ends_the_process [OF demo_transfer _ _ this] show ?thesis
    by (simp add: answers_def isArray_iff)
qed

text \<open>
  C25: worker_callback hands gearmand a copy made by strndup, which ends at the first NUL byte of
  the answer and a terminator, together with the full length of the answer: the bytes announced
  lie inside the buffer, and are the answer, exactly if no byte of the answer but its last is NUL;
  otherwise the library is told to read past the end of the buffer.
\<close>

theorem result_buffer_stops_at_nul:
  assumes "processJob L G C keepalive clock t job [] cl sh = Ret (ret, answer, cl', sh')"
  shows "\<exists>res. worker_callback L G C keepalive clock True t job cl sh = Ret (res, cl', sh') \<and> wr_ret res = ret \<and>
    wr_size res = length answer \<and> wr_data res = takeWhile (\<lambda>c. c \<noteq> NUL) answer @ [NUL] \<and>
    (wr_size res \<le> length (wr_data res) \<longleftrightarrow> NUL \<notin> set (butlast answer)) \<and>
    (take (wr_size res) (wr_data res) = answer \<longleftrightarrow> NUL \<notin> set (butlast answer))"
  using strndup_covers [of answer] by (simp add: worker_callback_def assms c_strndup_def)

theorem result_buffer_stops_at_nul_witness:
  "\<exists>res cl' sh'. worker_callback demo_libc demo_gearman (demo_curl (answers CURLE_OK 500 [])) True demo_clock True 7 demo_job demo_client
     demo_shared = Ret (res, cl', sh') \<and> wr_size res = 0"
proof -
  obtain reg where "setThreadState 7 (job_state demo_job) (sh_registry demo_shared) = Ret reg" using demo_state by blast
  moreover have "job_fails demo_libc demo_gearman (job_transfer (demo_curl (answers CURLE_OK 500 [])) True demo_clock demo_job demo_client)
      demo_client" by (simp add: demo_transfer job_fails_def answers_def)
  ultimately obtain sh' where "processJob demo_libc demo_gearman (demo_curl (answers CURLE_OK 500 [])) True demo_clock 7 demo_job []
      demo_client demo_shared = Ret (GEARMAN_WORK_FAIL, [], begin_job demo_job demo_client, sh')"
    using processJob_failure by blast
  from result_buffer_stops_at_nul [OF this] show ?thesis by fastforce
qed

text \<open>
  C26: However gearmand answers, GearmanClient::run ends normally, with a GearmanClientException
  that is not retriable, or with the process: it never throws a retriable exception, changes
  nothing of the registry but the state text of its own thread, releases everything curl gave it
  and leaves the client able to run again.
\<close>

theorem run_is_safe:
  assumes "reg_inv (sh_registry sh)" and "reg_view (sh_registry sh) t = Some d" and "m_state cl \<noteq> INIT"
    and "run L G keepalive t gd cl sh = Some (r, cl', sh', gd')"
  shows "(r = Ret () \<or> r = Terminate \<or> (\<exists>msg. r = Throw (GearmanClientException msg False))) \<and> m_state cl' \<noteq> INIT \<and>
    reg_inv (sh_registry sh') \<and> (\<exists>s. reg_view (sh_registry sh') = (reg_view (sh_registry sh))(t \<mapsto> d\<lparr>td_state := s\<rparr>)) \<and>
    sh_curl_handles sh' = sh_curl_handles sh \<and> sh_curl_slists sh' = sh_curl_slists sh \<and> sh_curl_forms sh' = sh_curl_forms sh"
  using run_safety [OF assms] assms(2) by (auto simp: run_safe_def only_state_def same_curl_def)

theorem run_is_safe_witness:
  "\<exists>cl' sh' gd'. run demo_libc demo_gearman True 7 \<lparr>gd_work = [\<lparr>wc_jobs = [], wc_ret = GEARMAN_NO_JOBS, wc_error = None\<rparr>],
       gd_wait = [GEARMAN_TIMEOUT]\<rparr> demo_client demo_shared = Some (Ret (), cl', sh', gd') \<and> m_state cl' \<noteq> INIT"
proof -
  obtain r cl' sh' gd' where run: "run demo_libc demo_gearman True 7 \<lparr>gd_work = [\<lparr>wc_jobs = [], wc_ret = GEARMAN_NO_JOBS,
      wc_error = None\<rparr>], gd_wait = [GEARMAN_TIMEOUT]\<rparr> demo_client demo_shared = Some (r, cl', sh', gd')" and r: "r = Ret ()"
    by (subst (asm) run.simps, subst (asm) run.simps) (simp add: demo_client_def Let_def)
  have "reg_inv (sh_registry demo_shared)" "reg_view (sh_registry demo_shared) 7 = Some (fresh_data ''p'')" "m_state demo_client \<noteq> INIT"
    by (simp_all add: demo_shared_def one_worker_view demo_client_def)
  from run_is_safe [OF this run] run r show ?thesis by blast
qed

text \<open>
  C27: The loop of GearmanClient::run over grabbing and polling ends: if gearman_worker_wait ever
  returns anything but success, and gearman_worker_work has returned as often as it was called
  until then, run has returned.
\<close>

theorem run_returns_when_gearmand_is_quiet:
  assumes "i < length (gd_wait gd)" and "gd_wait gd ! i \<noteq> GEARMAN_SUCCESS"
    and "i + (if m_state cl = GRAB_JOB then 1 else 0) \<le> length (gd_work gd)"
  shows "\<exists>res. run L G keepalive t gd cl sh = Some res"
  using run_returns [OF assms] by (simp add: not_None_eq)

theorem run_returns_when_gearmand_is_quiet_witness:
  "\<exists>res. run demo_libc demo_gearman True 7 \<lparr>gd_work = [\<lparr>wc_jobs = [], wc_ret = GEARMAN_NO_JOBS, wc_error = None\<rparr>],
       gd_wait = [GEARMAN_TIMEOUT]\<rparr> demo_client demo_shared = Some res"
  using run_returns_when_gearmand_is_quiet [of 0] by (simp add: demo_client_def)

text \<open>
  C28: The recursion of ThreadLoop::run over its attempts is never entered: for a working thread
  run(attempts) is its while loop executed once, with every exception of the client caught,
  because run of the client throws no retriable exception.
\<close>

theorem retry_never_happens:
  assumes "working t loop sh" and "\<forall>u\<in>set us. turn_ok t u" and "unat attempts \<le> 5"
  shows "ThreadLoop_run L G keepalive t attempts us loop sh =
    (case loop_while L G keepalive t us loop sh of
       None \<Rightarrow> None
     | Some (r, loop', sh', us') \<Rightarrow> Some (if r = Terminate then Terminate else Ret (), loop', sh', us'))"
  using ThreadLoop_run_once [OF assms(1,2)] assms(3) by (simp add: MAX_THREAD_LOOP_ATTEMPTS_def)

theorem retry_never_happens_witness:
  "ThreadLoop_run demo_libc demo_gearman True 7 0 [demo_turn True] demo_loop demo_shared =
     Some (Ret (), demo_loop, demo_shared, [])"
  by (subst retry_never_happens) (simp_all add: demo_working demo_turn_ok, simp add: demo_turn_def)

text \<open>
  C29: A worker thread's run returns once the force flag is set or the thread has been told to
  stop: whatever the earlier turns did, as long as each call of the client's run returned, the
  loop ends at that turn at the latest.
\<close>

theorem told_worker_loop_returns:
  assumes "working t loop sh" and "\<forall>u\<in>set (us @ [stop]). turn_ok t u" and "\<forall>u\<in>set us. turn_returns u" and "tells t stop"
  shows "\<exists>r loop' sh' us'. ThreadLoop_run L G keepalive t 0 (us @ [stop]) loop sh = Some (r, loop', sh', us') \<and>
    (r = Ret () \<or> r = Terminate) \<and> working t loop' sh'"
proof -
  have "loop_while L G keepalive t (us @ [stop]) loop sh \<noteq> None"
    using assms by (intro loop_while_stops) simp_all
  then obtain r loop' sh' us' where "ThreadLoop_run L G keepalive t 0 (us @ [stop]) loop sh = Some (r, loop', sh', us')"
    using ThreadLoop_run_once [OF assms(1,2), of 0 L G keepalive] by auto
  with ThreadLoop_run_safe [OF assms(1,2) this] show ?thesis by blast
qed

theorem told_worker_loop_returns_witness:
  "\<exists>r loop' sh' us'. ThreadLoop_run demo_libc demo_gearman True 7 0 [demo_turn False, demo_turn True] demo_loop demo_shared =
     Some (r, loop', sh', us')"
proof -
  have "turn_returns (demo_turn False)" "tells 7 (demo_turn True)" by (auto simp: turn_returns_def demo_turn_def tells_def)
  then show ?thesis
    using told_worker_loop_returns [OF demo_working, of "[demo_turn False]" "demo_turn True" demo_libc demo_gearman True]
    by (auto simp: demo_turn_ok)
qed

text \<open>
  C30: A worker thread that ends normally, from its delegate to its destructor, has left the
  registry well formed and without an entry of its own, has released everything curl gave it, and,
  when every call of gearman_worker_work closed the jobs it had opened and no other thread touched
  the metrics, has left every idle and working gauge as it found it.
\<close>

theorem worker_leaves_no_trace:
  assumes "reg_inv (sh_registry sh)" and "\<forall>u\<in>set us. turn_ok t u"
    and "gearman_thread_delegate L H keepalive t pool servers jobs uri us sh = Some (Ret sh')"
  shows "reg_inv (sh_registry sh') \<and> reg_view (sh_registry sh') t = None \<and> same_curl sh sh' \<and>
    ((\<forall>u\<in>set us. quiet u) \<longrightarrow> idle_gauge p (sh_metrics sh') = idle_gauge p (sh_metrics sh) \<and>
       working_gauge p f (sh_metrics sh') = working_gauge p f (sh_metrics sh))"
  using delegate_ends [OF assms] .

theorem worker_leaves_no_trace_witness:
  "\<exists>sh'. gearman_thread_delegate demo_libc demo_host True 8 ''q'' [] [] [] [demo_turn True] demo_shared = Some (Ret sh') \<and>
     reg_view (sh_registry sh') 8 = None \<and> idle_gauge ''q'' (sh_metrics sh') = idle_gauge ''q'' (sh_metrics demo_shared)"
proof -
  have inv: "reg_inv (sh_registry demo_shared)" by (simp add: demo_shared_def)
  have "returns (delegate_start demo_host 8 ''q'' [] [] [] demo_shared)"
    using delegate_start_iff [OF inv] by (simp add: accepts_def demo_host_def demo_gearman_def demo_shared_def one_worker_view)
  then obtain loop sh1 wk where d: "delegate_start demo_host 8 ''q'' [] [] [] demo_shared = Ret (loop, sh1, wk)"
    by (auto simp: returns_iff)
  note w = delegate_start_Ret(5,6) [OF inv d]
  have "loop_while demo_libc demo_gearman True 8 [demo_turn True] loop sh1 = Some (Ret (), loop, sh1, [])"
    by (simp add: demo_turn_def)
  then have "ThreadLoop_run demo_libc demo_gearman True 8 0 [demo_turn True] loop sh1 = Some (Ret (), loop, sh1, [])"
    using ThreadLoop_run_once [OF w(1), of "[demo_turn True]" 0] by (simp add: demo_turn_ok)
  moreover obtain sh' where "delete_ThreadLoop 8 loop sh1 = Ret sh'" using delete_ThreadLoop_ok [OF w(1)] by blast
  ultimately have g: "gearman_thread_delegate demo_libc demo_host True 8 ''q'' [] [] [] [demo_turn True] demo_shared = Some (Ret sh')"
    by (simp add: gearman_thread_delegate_def d demo_host_gearman)
  have "quiet (demo_turn True)" by (simp add: quiet_def demo_turn_def closes_jobs_def)
  with worker_leaves_no_trace [OF inv _ g] g show ?thesis by (auto simp: demo_turn_ok)
qed

section \<open>The JSON library and the process around the loop\<close>

text \<open>
  C31: What FastWriter prints, unless it is set to drop null placeholders, OurReader reads back:
  for every JSON value made of null, booleans, integers, strings, dense arrays of fewer than 2^31
  elements and objects with sorted keys, within the library's length limits and in the integer
  representation the reader chooses, whatever characters its strings hold, and under every feature
  set whose stack limit covers its depth, parsing its text succeeds without an error and gives the
  value; if the features ask for a strict root, the value must be an array or an object.
\<close>

theorem json_round_trip:
  assumes "canonical v" and "int (nest v) \<le> stackLimit F" and "\<not> dropNullPlaceholders W" and "strictRoot F \<longrightarrow> isArray v \<or> isObject v"
  shows "OurReader_parse F L (FastWriter_write L W v) v0 = Some (Ret (True, [], v))"
  using parse_written [OF assms] .

theorem json_round_trip_witness:
  "OurReader_parse strict_features demo_libc (FastWriter_write demo_libc new_FastWriter (ObjectV demo_answer)) NullV =
     Some (Ret (True, [], ObjectV demo_answer))"
  using demo_answer_ok
  by (intro json_round_trip) (simp_all add: strict_features_def new_FastWriter_def isObject_iff)

text \<open>
  C32: Reading a document of any bytes comes to an end: the recursion over nested values and the
  loops over elements, members, comments and error recovery need no more steps than twice the
  document's length, and whenever the reader returns, it reports success exactly if it recorded no
  error.
\<close>

theorem reader_always_answers:
  "\<exists>r. OurReader_parse F L doc v0 = Some r \<and> (case r of Ret (ok, errors, v) \<Rightarrow> ok = (errors = []) | _ \<Rightarrow> True)"
  by (cases rule: OurReader_parse_cases [of F L doc v0]) simp_all

text \<open>
  C33: The overflow guard of decodeNumber is exact: an integer token of any number of digits gives
  its own value when that lies between -2^63 and 2^64 - 1, as an int up to the 32-bit maximum and
  as an unsigned int above it, and is handed to decodeDouble exactly when it does not fit.
\<close>

theorem integer_tokens_decode_exactly:
  fixes neg :: bool and ds :: string
  defines "k \<equiv> (if neg then - int (digits_from 0 ds) else int (digits_from 0 ds))"
  assumes "token_text token = (if neg then CHR ''-'' # ds else ds)" and "list_all is_digit ds"
  shows "decodeNumber L token st =
    (if - (2 ^ 63) \<le> k \<and> k < 2 ^ 64 then
       (Some (if k \<le> maxInt then IntV (word_of_int k) else UIntV (word_of_int k)), st)
     else decodeDouble L token st)"
  unfolding k_def using assms(2,3) by (rule decodeNumber_digits)

theorem integer_tokens_decode_exactly_witness:
  "decodeNumber demo_libc \<lparr>tok_type = tokenNumber, tok_start = ''-12'', tok_end = []\<rparr> (OurReader_init []) =
     (Some (IntV (- 12)), OurReader_init [])"
  by (subst integer_tokens_decode_exactly [of _ True "''12''"]) (simp_all add: token_text_def is_digit_iff maxInt_def)

text \<open>
  C34: The type test the configuration and the response are guarded with is the right one: isUInt
  holds exactly for the values, of whatever JSON number type, that stand for an integer of 32
  unsigned bits; for those asUInt returns that integer without throwing, while asInt returns it
  exactly if it is at most 2^31 - 1.
\<close>

theorem worker_count_is_taken_exactly:
  "(isUInt v \<longleftrightarrow> (\<exists>k. integral_value v = Some k \<and> 0 \<le> k \<and> k \<le> maxUInt)) \<and>
   (isUInt v \<longrightarrow> (\<exists>n. asUInt v = Ret n \<and> integral_value v = Some (uint n))) \<and>
   (isUInt v \<longrightarrow> isInt v \<longrightarrow> (\<exists>n. asInt v = Ret n \<and> integral_value v = Some (sint n))) \<and>
   (isUInt v \<longrightarrow> \<not> isInt v \<longrightarrow> (\<exists>msg. asInt v = Throw (Json_LogicError msg)))"
  using isUInt_iff [of v] isUInt_asUInt [of v] isUInt_asInt_small [of v] isUInt_asInt_large [of v] by blast

theorem worker_count_is_taken_exactly_witness:
  "isUInt (RealV (Finite 5)) \<and> (\<exists>n. asUInt (RealV (Finite 5)) = Ret n \<and> integral_value (RealV (Finite 5)) = Some (uint n))"
proof -
  have "isUInt (RealV (Finite 5))" by (simp add: isUInt_iff integral_value_def maxUInt_def)
  with worker_count_is_taken_exactly [of "RealV (Finite 5)"] show ?thesis by blast
qed

text \<open>
  C35: However main ends from the set-up of a pid file on, as long as it ends by returning, a pid
  file name was given, and access and unlink on that file succeed (when the file exists): the pid
  file does not exist any more, no other file was touched, the credentials are the ones main had
  switched to and every curl_global_init has had its cleanup.
\<close>

theorem pid_file_is_gone_at_exit:
  assumes "with_pidfile L S opts its pr = Some (Exit rc, pr')" and "opt_pid_file opts \<noteq> []"
    and "fc_access (sy_files S) (c_str (opt_pid_file opts))" and "fc_unlink (sy_files S) (c_str (opt_pid_file opts))"
  shows "fs_files (pr_fs pr') = (fs_files (pr_fs pr))(c_str (opt_pid_file opts) := None) \<and>
    pr_cred pr' = pr_cred pr \<and> pr_curl_global pr' = pr_curl_global pr"
  using with_pidfile_exit [OF assms] by blast

theorem pid_file_is_gone_at_exit_witness:
  "\<exists>pr'. with_pidfile demo_libc demo_system demo_options [] demo_process = Some (Exit 1, pr') \<and>
     fs_files (pr_fs pr') = (\<lambda>path. if path = ''/etc/motd'' then Some ''hello'' else None)"
proof -
  obtain pr' where w: "with_pidfile demo_libc demo_system demo_options [] demo_process = Some (Exit 1, pr')"
    using demo_with_pidfile by blast
  have "opt_pid_file demo_options \<noteq> []" "fc_access (sy_files demo_system) (c_str (opt_pid_file demo_options))"
    "fc_unlink (sy_files demo_system) (c_str (opt_pid_file demo_options))"
    by (simp_all add: demo_options_def demo_system_def)
  from pid_file_is_gone_at_exit [OF w this] w show ?thesis
    by (auto simp: demo_process_def demo_options_def c_str_def fun_eq_iff)
qed

text \<open>
  C36: The indenting writers lose nothing either, comments included. Take a JSON value as in the
  round trip of FastWriter whose depth the reader's stack limit covers, an array or an object if
  the reader asks for a strict root, with any comments on its tree that a line feed ends (none if
  the reader allows no comments). If no member name holds a NUL and no line comment ends in a
  space or line feed, the text of StyledWriter is read back as the value; if no member name holds
  a NUL and the indentation is white space, that of StyledStreamWriter is; if StreamWriterBuilder
  builds a writer that keeps null and indents with white space, and that drops comments, or has an
  indentation, or there are no line comments, the text of that writer is; and that of operator<<
  is in any case, by operator>> too if the depth is at most the default limit of 1000.
\<close>

theorem styled_writers_round_trip:
  assumes "canonical v" and "int (nest v) \<le> stackLimit F" and "strictRoot F \<longrightarrow> isArray v \<or> isObject v"
    and "\<forall>p placement. hasComment placement (N p) \<longrightarrow> allowComments F \<and> gap (getComment placement (N p) @ [CHR 0x0A])"
  shows "(all_names (\<lambda>k. NUL \<notin> set k) v \<and> (\<forall>p placement. hasComment placement (N p) \<longrightarrow>
        gap (getComment placement (N p)) \<or> last (getComment placement (N p)) \<notin> {CHR '' '', CHR 0x0A}) \<longrightarrow>
      OurReader_parse F L (StyledWriter_write L (N, v) new_StyledWriter) v0 = Some (Ret (True, [], v))) \<and>
    (all_names (\<lambda>k. NUL \<notin> set k) v \<and> list_all is_space indentation \<longrightarrow>
      OurReader_parse F L (StyledStreamWriter_write L (N, v) (new_StyledStreamWriter indentation)) v0 = Some (Ret (True, [], v))) \<and>
    (newStreamWriter L settings = Ret writer \<and> list_all is_space (bs_indentation writer) \<and> bs_nullSymbol writer = ''null'' \<and>
        (bs_cs writer = CS_None \<or> bs_indentation writer \<noteq> [] \<or>
         (\<forall>p placement. hasComment placement (N p) \<longrightarrow> gap (getComment placement (N p)))) \<longrightarrow>
      OurReader_parse F L (BuiltStyledStreamWriter_write L (N, v) writer) v0 = Some (Ret (True, [], v))) \<and>
    (\<exists>s. stream_insert L (N, v) = Ret s \<and> OurReader_parse F L s v0 = Some (Ret (True, [], v)) \<and>
      (nest v \<le> 1000 \<longrightarrow> stream_extract L s v0 = Ret v))"
proof (intro conjI impI; (elim conjE)?)
  have ss: "all_notes (remarks (allowComments F) (\<lambda>c. True)) N v" using assms(4) by (intro all_notes_all) (auto simp: remarks_def)
  assume names: "all_names (\<lambda>k. NUL \<notin> set k) v"
  show "OurReader_parse F L (StyledStreamWriter_write L (N, v) (new_StyledStreamWriter indentation)) v0 = Some (Ret (True, [], v))"
    if "list_all is_space indentation"
    using assms(1-3) names ss that by (intro parse_StyledStreamWriter) (simp_all add: new_StyledStreamWriter_def)
  assume "\<forall>p placement. hasComment placement (N p) \<longrightarrow>
    gap (getComment placement (N p)) \<or> last (getComment placement (N p)) \<notin> {CHR '' '', CHR 0x0A}"
  then have "all_notes (remarks (allowComments F) sw_comment) N v"
    using assms(4) by (intro all_notes_all) (auto simp: remarks_def sw_comment_def)
  then show "OurReader_parse F L (StyledWriter_write L (N, v) new_StyledWriter) v0 = Some (Ret (True, [], v))"
    using assms(1-3) names by (intro parse_StyledWriter)
next
  assume w: "newStreamWriter L settings = Ret writer" "list_all is_space (bs_indentation writer)" "bs_nullSymbol writer = ''null''"
    and "bs_cs writer = CS_None \<or> bs_indentation writer \<noteq> [] \<or> (\<forall>p placement. hasComment placement (N p) \<longrightarrow> gap (getComment placement (N p)))"
  then have "all_notes (bs_notes (allowComments F) (bs_cs writer) (bs_indentation writer)) N v"
    using assms(4) by (intro all_notes_all) (auto simp: remarks_def bs_notes_def)
  then show "OurReader_parse F L (BuiltStyledStreamWriter_write L (N, v) writer) v0 = Some (Ret (True, [], v))"
    using assms(1-3) w by (intro parse_newStreamWriter)
next
  have ss: "all_notes (remarks (allowComments F) (\<lambda>c. True)) N v" using assms(4) by (intro all_notes_all) (auto simp: remarks_def)
  obtain s where s: "stream_insert L (N, v) = Ret s" "OurReader_parse F L s v0 = Some (Ret (True, [], v))"
    using parse_stream_insert [OF assms(1) ss assms(2,3)] by blast
  moreover have "all_notes (remarks True (\<lambda>c. True)) N v" by (rule all_notes_mono [OF ss]) (auto simp: remarks_def)
  then have "stream_extract L s v0 = Ret v" if "nest v \<le> 1000"
    using stream_extract_insert [OF assms(1) _ that s(1)] by simp
  ultimately show "\<exists>s. stream_insert L (N, v) = Ret s \<and> OurReader_parse F L s v0 = Some (Ret (True, [], v)) \<and>
      (nest v \<le> 1000 \<longrightarrow> stream_extract L s v0 = Ret v)" by blast
qed

theorem styled_writers_round_trip_witness:
  "(let node = (demo_notes, ObjectV demo_answer) in
    OurReader_parse default_features demo_libc (StyledWriter_write demo_libc node new_StyledWriter) NullV =
      Some (Ret (True, [], ObjectV demo_answer)) \<and>
    OurReader_parse default_features demo_libc (StyledStreamWriter_write demo_libc node (new_StyledStreamWriter '' '')) NullV =
      Some (Ret (True, [], ObjectV demo_answer)) \<and>
    (\<exists>settings writer. new_StreamWriterBuilder = Ret settings \<and> newStreamWriter demo_libc settings = Ret writer \<and>
      OurReader_parse default_features demo_libc (BuiltStyledStreamWriter_write demo_libc node writer) NullV = Some (Ret (True, [], ObjectV demo_answer))) \<and>
    (\<exists>s. stream_insert demo_libc node = Ret s \<and> stream_extract demo_libc s NullV = Ret (ObjectV demo_answer)))"
proof -
  let ?w = "new_BuiltStyledStreamWriter [CHR 0x09] CS_All '' : '' ''null'' [] False"
  obtain settings where settings: "new_StreamWriterBuilder = Ret settings" "newStreamWriter demo_libc settings = Ret ?w"
    using default_stream_writer [of demo_libc] by (auto simp: cxx_bind_eq_Ret)
  have w: "bs_indentation ?w = [CHR 0x09]" "bs_nullSymbol ?w = ''null''" by (simp_all add: new_BuiltStyledStreamWriter_def)
  have names: "all_names (\<lambda>k. NUL \<notin> set k) (ObjectV demo_answer)" by code_simp
  have "canonical (ObjectV demo_answer)" "int (nest (ObjectV demo_answer)) \<le> stackLimit default_features"
    "strictRoot default_features \<longrightarrow> isArray (ObjectV demo_answer) \<or> isObject (ObjectV demo_answer)"
    "\<forall>p placement. hasComment placement (demo_notes p) \<longrightarrow> allowComments default_features \<and> gap (getComment placement (demo_notes p) @ [CHR 0x0A])"
    using demo_answer_ok demo_notes_ok by (auto simp: default_features_def)
  from styled_writers_round_trip [OF this, of demo_libc NullV "'' ''" settings ?w]
  show ?thesis
    unfolding Let_def using names demo_answer_ok demo_notes_ok settings w by (auto simp: is_space_def)
qed

text \<open>
  C37: The deprecated Reader and OurReader with the same four settings are one function, value,
  errors and exceptions included, on every document without a single quote and without the bytes
  -I that is shorter than 2^30 bytes and whose numbers the stream extraction and sscanf convert
  alike, if numeric keys are off. And on every document whatsoever Reader returns, with success
  exactly if it recorded no error.
\<close>

theorem old_reader_is_the_new_one:
  assumes "\<not> f_allowNumericKeys f" and "CHR 0x27 \<notin> set doc" and "\<not> sublist ''-I'' doc" and "length doc < 2 ^ 30"
    and "\<forall>t. sublist t doc \<longrightarrow> conv t = scan_lf L t"
  shows "Reader_parse f conv L doc v0 = OurReader_parse (our_features f) L doc v0 \<and>
    (\<exists>r. Reader_parse f conv2 L doc2 v0 = Some r \<and> (case r of Ret (ok, errors, v) \<Rightarrow> ok = (errors = []) | _ \<Rightarrow> True))"
  using Reader_parse_same [of f conv L doc v0] Reader_parse_total [of f conv2 L doc2 v0] assms by (simp add: plain_document_def)

theorem old_reader_is_the_new_one_witness:
  "Reader_parse Features_all (scan_lf demo_libc) demo_libc ''[7,true]'' NullV = Some (Ret (True, [], ArrayV [(0, IntV 7), (1, BoolV True)]))"
proof -
  have "OurReader_parse (our_features Features_all) demo_libc ''[7,true]'' NullV = Some (Ret (True, [], ArrayV [(0, IntV 7), (1, BoolV True)]))"
    by code_simp
  moreover have "\<not> f_allowNumericKeys Features_all" "\<not> sublist ''-I'' ''[7,true]''" by code_simp+
  ultimately show ?thesis using old_reader_is_the_new_one [of Features_all "''[7,true]''" "scan_lf demo_libc" demo_libc NullV] by simp
qed

text \<open>
  C38: Collecting comments is transparent: on a document without a single quote (or with
  single-quoted strings allowed) OurReader with collectComments returns, throws and reports
  exactly what it does without, never fails the assertion that there is a last value, and leaves
  on every node comments that begin with a slash and hold no carriage return; unless dropped null
  placeholders are allowed (a null dropped at the start of the document gets the offset -1), the
  offsets lie within the document, so that both versions of pushError accept every node. If the
  document holds no NUL and its last line is ended, if comments are allowed and none was cut, then
  a value that fulfils the conditions of the round trip of FastWriter, written again with its
  collected comments by operator<<, is read back as the same value. The old Reader is transparent
  on every document.
\<close>

theorem comments_are_collected_transparently:
  assumes "allowSingleQuotes F \<or> CHR 0x27 \<notin> set doc"
  shows "(case OurReader_parse_collect F L b doc v0 (\<lambda>_. no_annotation) of
       Some (Ret (ok, errors, v, notes)) \<Rightarrow> OurReader_parse F L doc v0 = Some (Ret (ok, errors, v)) \<and>
         (\<forall>p placement. hasComment placement (notes p) \<longrightarrow>
           peekChar (getComment placement (notes p)) = CHR ''/'' \<and> CHR 0x0D \<notin> set (getComment placement (notes p))) \<and>
         (\<not> allowDroppedNullPlaceholders F \<longrightarrow> (\<forall>p q message. fst (pushError (length doc) (notes p) message errors) \<and>
           fst (pushError_extra (length doc) (notes p) message (notes q) errors))) \<and>
         (NUL \<notin> set doc \<and> doc \<noteq> [] \<and> last doc = CHR 0x0A \<and> allowComments F \<and>
            all_notes uncut notes v \<and> canonical v \<and> int (nest v) \<le> stackLimit F \<and> (strictRoot F \<longrightarrow> isArray v \<or> isObject v) \<longrightarrow>
          (\<exists>s. stream_insert L (notes, v) = Ret s \<and> OurReader_parse F L s v1 = Some (Ret (True, [], v))))
     | Some (Throw e) \<Rightarrow> OurReader_parse F L doc v0 = Some (Throw e)
     | Some Terminate \<Rightarrow> OurReader_parse F L doc v0 = Some Terminate
     | None \<Rightarrow> False) \<and>
    collected (\<lambda>_. True) (f_allowDroppedNullPlaceholders f) (length doc2) (Reader_parse_collect f conv L b doc2 v0 (\<lambda>_. no_annotation))
      (Reader_parse f conv L doc2 v0)" (is "?ours \<and> ?old")
proof
  let ?parse = "OurReader_parse_collect F L b doc v0 (\<lambda>_. no_annotation)"
  have c: "collected (\<lambda>_. True) (allowDroppedNullPlaceholders F) (length doc) ?parse (OurReader_parse F L doc v0)"
    using OurReader_parse_collected [of F doc "\<lambda>_. no_annotation" L b v0] assms by (simp add: no_quote_def no_annotation_ok)
  show ?ours
  proof (cases "\<exists>ok errors v notes. ?parse = Some (Ret (ok, errors, v, notes))")
    case True
    then obtain ok errors v N where parse: "?parse = Some (Ret (ok, errors, v, N))" by blast
    with c have plain: "OurReader_parse F L doc v0 = Some (Ret (ok, errors, v))" and N: "\<forall>p. note_ok (\<lambda>_. True) (allowDroppedNullPlaceholders F) (length doc) (N p)"
      by simp_all
    have "\<exists>s. stream_insert L (N, v) = Ret s \<and> OurReader_parse F L s v1 = Some (Ret (True, [], v))"
      if "NUL \<notin> set doc \<and> doc \<noteq> [] \<and> last doc = CHR 0x0A \<and> allowComments F \<and>
          all_notes uncut N v \<and> canonical v \<and> int (nest v) \<le> stackLimit F \<and> (strictRoot F \<longrightarrow> isArray v \<or> isObject v)"
      using rewritten_document [OF _ parse] assms that by (auto simp: ended_def no_quote_def)
    moreover have "\<forall>p q message. fst (pushError (length doc) (N p) message errors) \<and> fst (pushError_extra (length doc) (N p) message (N q) errors)"
      if "\<not> allowDroppedNullPlaceholders F"
    proof -
      have "note_ok (\<lambda>_. True) False (length doc) (N p)" for p using N that by simp
      then show ?thesis using pushError_accepted by blast
    qed
    ultimately show ?thesis
      unfolding parse option.case cxx.case prod.case
      using plain N note_ok_getComment [of "\<lambda>_. True" "allowDroppedNullPlaceholders F" "length doc"] by blast
  next
    case False
    with c show ?thesis
      using OurReader_parse_total [of F L doc v0] by (auto simp: collected_def split: option.splits cxx.splits)
  qed
  show ?old
    by (intro Reader_parse_collected) (simp add: no_annotation_ok)
qed

theorem comments_are_collected_transparently_witness:
  "\<exists>v notes s. OurReader_parse_collect default_features demo_libc True (''[1 //x'' @ [CHR 0x0D, CHR 0x0A] @ '']'' @ [CHR 0x0A]) NullV
         (\<lambda>_. no_annotation) = Some (Ret (True, [], v, notes)) \<and>
     OurReader_parse default_features demo_libc (''[1 //x'' @ [CHR 0x0D, CHR 0x0A] @ '']'' @ [CHR 0x0A]) NullV = Some (Ret (True, [], v)) \<and>
     getComment commentAfterOnSameLine (notes [Step_index 0]) = ''//x'' \<and>
     stream_insert demo_libc (notes, v) = Ret s \<and> OurReader_parse default_features demo_libc s NullV = Some (Ret (True, [], v))"
proof -
  let ?doc = "''[1 //x'' @ [CHR 0x0D, CHR 0x0A] @ '']'' @ [CHR 0x0A]"
  have "case OurReader_parse_collect default_features demo_libc True ?doc NullV (\<lambda>_. no_annotation) of
      Some (Ret (ok, errors, v, notes)) \<Rightarrow> ok \<and> errors = [] \<and> getComment commentAfterOnSameLine (notes [Step_index 0]) = ''//x'' \<and>
        all_notes uncut notes v \<and> v = ArrayV [(0, IntV 1)]
    | _ \<Rightarrow> False" by code_simp
  then show ?thesis
    using comments_are_collected_transparently [of default_features ?doc demo_libc NullV NullV True]
    by (auto simp: default_features_def NUL_def maxInt_def split: option.splits cxx.splits)
qed

text \<open>
  C39: A path written in the notation of Json::Path compiles to the indices and names it was
  written from, whatever the extra arguments. A value stored through make along such a path into a
  well-formed tree is what resolve finds along it, the tree stays well formed, and every path that
  parts from it at two different indices or at two different names resolves as before; starting
  from null, make builds the whole path and never throws. The resolve with a default finds the
  value too if neither the path nor an array of the tree reaches the index 2^32 - 1; for an array
  that does, size() wraps to 0, and it returns the default although the element is there.
\<close>

theorem path_store_is_found:
  assumes "list_all arg_ok args" and "value_inv node" and "value_inv x" and "Path_assign args x node = Ret node'"
  shows "new_Path (path_text args) a1 a2 a3 a4 a5 = Some args \<and>
    Path_resolve args node' = Ret x \<and> Path_make args node' = Ret (node', x) \<and>
    value_inv node' \<and> (\<forall>other. diverge other args \<longrightarrow> Path_resolve other node' = Path_resolve other node) \<and>
    (\<exists>built. Path_assign args x NullV = Ret built) \<and>
    (below_last node \<and> list_all (\<lambda>a. pa_kind a = kindIndex \<longrightarrow> pa_index a \<noteq> 4294967295) args \<longrightarrow> Path_resolve_default args d node' = Ret x) \<and>
    (\<exists>built. Path_assign [PathArgument_of_index 4294967295] x NullV = Ret built \<and>
       Path_resolve [PathArgument_of_index 4294967295] built = Ret x \<and> Path_resolve_default [PathArgument_of_index 4294967295] d built = Ret d)"
  using makePath_loop_text [OF assms(1), of "[a1, a2, a3, a4, a5]" "[]"] Path_resolve_assign [OF assms(2,4)]
    Path_resolve_default_assign [OF assms(2) _ _ assms(4)] Path_assign_inv [OF assms(2-4)] Path_resolve_assign_other [OF _ assms(2,4)]
    Path_assign_null [of args x] Path_make_assign [OF assms(2,4)] resolve_at_last_index(1,2) [of x] resolve_at_last_index(3) [of d x]
  unfolding new_Path_def makePath_def by (intro conjI) auto

theorem path_store_is_found_witness:
  "new_Path ''.a[1]'' new_PathArgument new_PathArgument new_PathArgument new_PathArgument new_PathArgument =
     Some [PathArgument_of_string ''a'', PathArgument_of_index 1] \<and>
   Path_resolve [PathArgument_of_string ''a'', PathArgument_of_index 1] (ObjectV [(''a'', ArrayV [(1, BoolV True)])]) = Ret (BoolV True) \<and>
   Path_resolve_default [PathArgument_of_string ''a'', PathArgument_of_index 1] NullV (ObjectV [(''a'', ArrayV [(1, BoolV True)])]) = Ret (BoolV True)"
proof -
  let ?args = "[PathArgument_of_string ''a'', PathArgument_of_index 1]"
  have "list_all (\<lambda>a. pa_kind a = kindIndex \<longrightarrow> pa_index a \<noteq> 4294967295) ?args" by (simp add: PathArgument_of_string_def PathArgument_of_index_def)
  moreover have "list_all arg_ok ?args" "path_text ?args = ''.a[1]''" "Path_assign ?args (BoolV True) NullV = Ret (ObjectV [(''a'', ArrayV [(1, BoolV True)])])"
    by code_simp+
  ultimately show ?thesis
    using path_store_is_found [of ?args NullV "BoolV True" "ObjectV [(''a'', ArrayV [(1, BoolV True)])]", where d = NullV] by simp
qed

text \<open>
  C40: The loop of makePath ends on every path that holds no NUL byte, well formed or not; it
  never ends on a path that has a NUL byte before any bracket, because strchr finds the terminator
  of its pattern and the name scanner stays where it is.
\<close>

theorem path_compilation_ends:
  assumes "NUL \<notin> set path"
  shows "(\<exists>args. makePath path given = Some args) \<and> (CHR ''['' \<notin> set path \<longrightarrow> makePath (path @ NUL # rest) given = None)"
  using makePath_loop_returns [OF assms] makePath_loop_hangs [OF assms] by (simp add: makePath_def)

theorem path_compilation_ends_witness:
  "(\<exists>args. makePath ''.a%'' [] = Some args) \<and> makePath ''.a%'' [] \<noteq> makePath (''.a%'' @ [NUL]) []"
  using path_compilation_ends [of "''.a%''" "[]" "[]"] by (simp add: NUL_def)

end
